(* ===== verification/Prelude.thy ===== *)
theory Prelude imports Main "HOL-Library.Word" begin

text \<open>
  Shared vocabulary of the development.

  The C++ program can go wrong in ways HOL functions cannot: it dereferences null pointers, reads
  outside arrays, uses erased iterators. Every such event is a value of type \<open>fault\<close>, and an
  operation that can run into one returns a value of type \<open>res\<close>. The theory also holds the
  bit-flag operations on C++ ints (as 32-bit words), the two precedence patterns the code uses
  for flag tests, the std::string searches, and decimal printing and parsing with the
  round trip between them. The collections \<open>flag_simps\<close> and \<open>res_simps\<close> drive the
  component proofs.
\<close>

unbundle bit_operations_syntax

named_theorems flag_simps "flag words and the flag tests of the code"
named_theorems res_simps "sequencing of operations that can fault"

section \<open>Faults and results\<close>

datatype fault =
    NullDeref
  | OutOfBounds
  | UseAfterFree
  | InvalidFree
  | SignedOverflow
  | UninitRead
  | EmptyListBack
  | MissingReturn
  | AssertFailed
  | BadFormat
  | ProcessExit
  | EndlessLoop

datatype 'a res = Fault fault | Ret 'a

fun res_bind :: "'a res \<Rightarrow> ('a \<Rightarrow> 'b res) \<Rightarrow> 'b res" where
  "res_bind (Fault e) f = Fault e"
| "res_bind (Ret x) f = f x"

fun is_ret :: "'a res \<Rightarrow> bool" where
  "is_ret (Fault e) = False"
| "is_ret (Ret x) = True"

lemma res_bind_Ret [res_simps]: "res_bind (Ret x) f = f x"
  by simp

lemma res_bind_eq_Ret [res_simps]:
  "res_bind m f = Ret y \<longleftrightarrow> (\<exists>x. m = Ret x \<and> f x = Ret y)"
  by (cases m) auto

lemma res_bind_assoc [res_simps]:
  "res_bind (res_bind m f) g = res_bind m (\<lambda>x. res_bind (f x) g)"
  by (cases m) auto

lemma is_ret_iff [res_simps]: "is_ret m \<longleftrightarrow> (\<exists>x. m = Ret x)"
  by (cases m) auto

section \<open>Flag words\<close>

type_synonym flags = "32 word"

text \<open>
  \<open>has_flag f b\<close> is the C++ condition \<open>f & b\<close>. The code also writes \<open>0 == f & b\<close>,
  which C++ groups as \<open>(0 == f) & b\<close>; \<open>eq0_and\<close> is that expression. Likewise
  \<open>ne0_and\<close> is \<open>0 != f & b\<close>, grouped as \<open>(0 != f) & b\<close>.
\<close>

definition has_flag :: "flags \<Rightarrow> flags \<Rightarrow> bool" where
  "has_flag f b \<longleftrightarrow> f AND b \<noteq> 0"

definition eq0_and :: "flags \<Rightarrow> flags \<Rightarrow> bool" where
  "eq0_and f b \<longleftrightarrow> (if f = 0 then 1 else 0) AND b \<noteq> 0"

definition ne0_and :: "flags \<Rightarrow> flags \<Rightarrow> bool" where
  "ne0_and f b \<longleftrightarrow> (if f \<noteq> 0 then 1 else 0) AND b \<noteq> 0"

lemma one_and_even [flag_simps]: "even b \<Longrightarrow> (1 :: flags) AND b = 0"
  by (simp add: one_and_eq even_iff_mod_2_eq_zero)

lemma one_and_odd [flag_simps]: "odd b \<Longrightarrow> (1 :: flags) AND b = 1"
  by (simp add: one_and_eq odd_iff_mod_2_eq_one)

lemma eq0_and_even [flag_simps]: "even b \<Longrightarrow> eq0_and f b \<longleftrightarrow> False"
  by (simp add: eq0_and_def one_and_even)

lemma eq0_and_odd [flag_simps]: "odd b \<Longrightarrow> eq0_and f b \<longleftrightarrow> f = 0"
  by (simp add: eq0_and_def one_and_odd)

lemma ne0_and_odd [flag_simps]: "odd b \<Longrightarrow> ne0_and f b \<longleftrightarrow> f \<noteq> 0"
  by (simp add: ne0_and_def one_and_odd)

lemma has_flag_or [flag_simps]: "has_flag (f OR g) b \<longleftrightarrow> has_flag f b \<or> has_flag g b"
  by (simp add: has_flag_def word_ao_dist or_eq_0_iff)

lemma has_flag_zero [flag_simps]: "has_flag 0 b \<longleftrightarrow> False"
  by (simp add: has_flag_def)

lemma has_flag_del [flag_simps]: "has_flag (f AND NOT b) b \<longleftrightarrow> False"
  by (simp add: has_flag_def and.assoc)

lemma has_flag_del_disjoint: "b AND c = 0 \<Longrightarrow> has_flag (f AND NOT b) c \<longleftrightarrow> has_flag f c"
proof -
  assume d: "b AND c = 0"
  have "(f AND NOT b) AND c = f AND c AND NOT b"
    by (simp add: ac_simps)
  also have "c AND NOT b = c"
    using d by (auto simp: bit_eq_iff bit_simps)
  finally show ?thesis
    by (simp add: has_flag_def and.assoc)
qed

section \<open>Strings: std::string and C strings\<close>

text \<open>
  \<open>is_prefix d s\<close>: the string \<open>s\<close> starts with \<open>d\<close>. \<open>find_sub d s\<close> is the index of
  the first occurrence of \<open>d\<close> in \<open>s\<close>, so \<open>str_find s d pos\<close> is
  \<open>s.find(d, pos)\<close> with \<open>None\<close> for \<open>std::string::npos\<close>. \<open>substr\<close> is
  \<open>s.substr(pos, n)\<close> for \<open>pos \<le> s.size()\<close>.
\<close>

fun is_prefix :: "'a list \<Rightarrow> 'a list \<Rightarrow> bool" where
  "is_prefix [] s = True"
| "is_prefix (d # ds) [] = False"
| "is_prefix (d # ds) (c # cs) = (d = c \<and> is_prefix ds cs)"

fun find_sub :: "'a list \<Rightarrow> 'a list \<Rightarrow> nat option" where
  "find_sub d [] = (if d = [] then Some 0 else None)"
| "find_sub d (c # cs) = (if is_prefix d (c # cs) then Some 0 else map_option Suc (find_sub d cs))"

definition str_find :: "'a list \<Rightarrow> 'a list \<Rightarrow> nat \<Rightarrow> nat option" where
  "str_find s d pos =
     (if pos \<le> length s then map_option ((+) pos) (find_sub d (drop pos s)) else None)"

definition substr :: "'a list \<Rightarrow> nat \<Rightarrow> nat \<Rightarrow> 'a list" where
  "substr s pos n = take n (drop pos s)"

definition NUL :: char where
  "NUL = CHR 0x00"

definition c_str :: "string \<Rightarrow> string" where
  "c_str s = takeWhile (\<lambda>c. c \<noteq> NUL) s"

definition CRLF :: string where
  "CRLF = [CHR 0x0D, CHR 0x0A]"

lemma length_CRLF [simp]: "length CRLF = 2"
  by (simp add: CRLF_def)

lemma is_prefix_append [simp]: "is_prefix d (d @ s)"
  by (induction d) auto

lemma is_prefix_iff: "is_prefix d s \<longleftrightarrow> (\<exists>t. s = d @ t)"
  by (induction d s rule: is_prefix.induct) auto

lemma find_sub_Some_split:
  "find_sub d s = Some i \<Longrightarrow> i + length d \<le> length s \<and> s = take i s @ d @ drop (i + length d) s"
proof (induction d s arbitrary: i rule: find_sub.induct)
  case (1 d)
  then show ?case by (simp split: if_splits)
next
  case (2 d c cs)
  show ?case
  proof (cases "is_prefix d (c # cs)")
    case True
    with "2.prems" obtain t where "i = 0" "c # cs = d @ t"
      by (auto simp: is_prefix_iff)
    then show ?thesis by (metis add_0 append_eq_conv_conj append_Nil length_append le_add1 take_0)
  next
    case False
    with "2.prems" obtain j where j: "find_sub d cs = Some j" "i = Suc j"
      by auto
    with "2.IH" False show ?thesis by auto
  qed
qed

lemma find_sub_skip:
  "d \<noteq> [] \<Longrightarrow> hd d \<notin> set w \<Longrightarrow> find_sub d (w @ s) = map_option ((+) (length w)) (find_sub d s)"
proof (induction w)
  case Nil
  then show ?case by (simp add: option.map_ident)
next
  case (Cons c w)
  then have "\<not> is_prefix d (c # w @ s)"
    by (cases d) auto
  with Cons show ?case by (simp add: option.map_comp comp_def)
qed

lemma find_sub_here: "find_sub d (d @ s) = Some 0"
  by (cases d; cases s) (auto simp: is_prefix_iff)

lemma find_sub_absent: "d \<noteq> [] \<Longrightarrow> hd d \<notin> set w \<Longrightarrow> find_sub d w = None"
  using find_sub_skip [of d w "[]"] by simp

lemma find_sub_first:
  "d \<noteq> [] \<Longrightarrow> hd d \<notin> set w \<Longrightarrow> find_sub d (w @ d @ s) = Some (length w)"
  by (simp add: find_sub_skip find_sub_here)

section \<open>Decimal numbers\<close>

definition is_digit :: "char \<Rightarrow> bool" where
  "is_digit c \<longleftrightarrow> 48 \<le> (of_char c :: nat) \<and> (of_char c :: nat) \<le> 57"

definition is_space :: "char \<Rightarrow> bool" where
  "is_space c \<longleftrightarrow> (of_char c :: nat) = 32 \<or> (9 \<le> (of_char c :: nat) \<and> (of_char c :: nat) \<le> 13)"

definition digit_char :: "nat \<Rightarrow> char" where
  "digit_char d = char_of (48 + d)"

fun digits_val :: "nat \<Rightarrow> string \<Rightarrow> nat" where
  "digits_val acc [] = acc"
| "digits_val acc (c # cs) = digits_val (10 * acc + (of_char c - 48)) cs"

text \<open>\<open>std::to_string\<close> on unsigned and signed values.\<close>

fun nat_dec :: "nat \<Rightarrow> string" where
  "nat_dec n = (if n < 10 then [digit_char n] else nat_dec (n div 10) @ [digit_char (n mod 10)])"

declare nat_dec.simps [simp del]

definition int_dec :: "int \<Rightarrow> string" where
  "int_dec i = (if i < 0 then CHR ''-'' # nat_dec (nat (- i)) else nat_dec (nat i))"

lemma of_char_digit_char [simp]: "d < 10 \<Longrightarrow> of_char (digit_char d) = 48 + d"
  by (simp add: digit_char_def)

lemma is_digit_digit_char [simp]: "d < 10 \<Longrightarrow> is_digit (digit_char d)"
  by (simp add: is_digit_def)

lemma digits_val_append: "digits_val acc (xs @ ys) = digits_val (digits_val acc xs) ys"
  by (induction xs arbitrary: acc) auto

lemma nat_dec_digits: "\<forall>c \<in> set (nat_dec n). is_digit c"
proof (induction n rule: nat_dec.induct)
  case (1 n)
  then show ?case by (subst nat_dec.simps) (auto simp del: One_nat_def)
qed

lemma nat_dec_val: "digits_val 0 (nat_dec n) = n"
proof (induction n rule: nat_dec.induct)
  case (1 n)
  show ?case
  proof (cases "n < 10")
    case True
    then show ?thesis by (simp add: nat_dec.simps [of n])
  next
    case False
    with 1 have "digits_val 0 (nat_dec (n div 10)) = n div 10" by simp
    with False show ?thesis
      by (simp add: nat_dec.simps [of n] digits_val_append)
  qed
qed

lemma nat_dec_not_Nil [simp]: "nat_dec n \<noteq> []"
  by (subst nat_dec.simps) simp

text \<open>
  \<open>strtol\<close> in base 10 on a C string: leading white space, a sign, the longest run of digits;
  the value saturates at the bounds of \<open>long\<close> (64 bits). \<open>atoi\<close> is its conversion to a
  32-bit int, and \<open>strtoull\<close> saturates at \<open>2 ^ 64 - 1\<close>.
\<close>

definition sign_split :: "string \<Rightarrow> bool \<times> string" where
  "sign_split s =
     (case dropWhile is_space s of
        [] \<Rightarrow> (False, [])
      | c # cs \<Rightarrow> if c = CHR ''-'' then (True, cs) else if c = CHR ''+'' then (False, cs)
                else (False, c # cs))"

definition c_strtol :: "string \<Rightarrow> int" where
  "c_strtol s =
     (let (neg, ds) = sign_split s; v = int (digits_val 0 (takeWhile is_digit ds))
      in if neg then max (- (2 ^ 63)) (- v) else min (2 ^ 63 - 1) v)"

definition atoi :: "string \<Rightarrow> int" where
  "atoi s = sint (word_of_int (c_strtol s) :: 32 word)"

definition strtoull :: "string \<Rightarrow> 64 word" where
  "strtoull s =
     (let (neg, ds) = sign_split s; v = digits_val 0 (takeWhile is_digit ds)
      in if v \<ge> 2 ^ 64 then - 1
         else if neg then - of_nat v else of_nat v)"

lemma digit_not_space: "is_digit c \<Longrightarrow> \<not> is_space c"
  by (auto simp: is_digit_def is_space_def)

lemma digit_not_sign: "is_digit c \<Longrightarrow> c \<noteq> CHR ''-'' \<and> c \<noteq> CHR ''+''"
  by (auto simp: is_digit_def)

lemma digit_plain: "is_digit c \<Longrightarrow> c \<noteq> CHR '','' \<and> c \<noteq> CHR '' '' \<and> c \<noteq> CHR ''%'' \<and> c \<noteq> NUL"
  by (auto simp: is_digit_def NUL_def)

lemma sign_split_digits:
  assumes "\<forall>c \<in> set ds. is_digit c"
  shows "sign_split ds = (False, ds)"
  using assms
  by (cases ds) (auto simp: sign_split_def dest: digit_not_space digit_not_sign)

lemma sign_split_nat_dec: "sign_split (nat_dec n) = (False, nat_dec n)"
  by (rule sign_split_digits) (rule nat_dec_digits)

lemma takeWhile_nat_dec: "takeWhile is_digit (nat_dec n) = nat_dec n"
  using nat_dec_digits by (simp add: takeWhile_eq_all_conv)

lemma sint_of_nat_eq_self: "n < 2 ^ 31 \<Longrightarrow> sint (of_nat n :: 32 word) = int n"
  by (simp add: sint_uint unat_of_nat uint_nat take_bit_nat_eq_self signed_take_bit_int_eq_self)

lemma atoi_nat_dec: "n < 2 ^ 31 \<Longrightarrow> atoi (nat_dec n) = int n"
  by (simp add: atoi_def c_strtol_def sign_split_nat_dec takeWhile_nat_dec nat_dec_val
      sint_of_nat_eq_self)

lemma strtoull_nat_dec: "n < 2 ^ 64 \<Longrightarrow> strtoull (nat_dec n) = of_nat n"
  by (simp add: strtoull_def sign_split_nat_dec takeWhile_nat_dec nat_dec_val)

lemma int_dec_plain:
  "c \<in> set (int_dec i) \<Longrightarrow> c \<noteq> CHR '','' \<and> c \<noteq> CHR '' '' \<and> c \<noteq> CHR ''%'' \<and> c \<noteq> NUL"
  using nat_dec_digits digit_plain
  by (auto simp: int_dec_def NUL_def split: if_splits)

end
