(* ===== verification/MiscTool.thy ===== *)
theory MiscTool imports Prelude begin

text \<open>
  The string utilities of src/src/utils/MiscTool.h: \<open>spiltString\<close> (the splitter every parser of
  the program is built on), \<open>string2int64\<close>, \<open>yesnotoi\<close>, \<open>memtoll\<close>, the glob matcher
  \<open>stringmatchlen\<close>, \<open>formatAddr\<close>, the path helper and the clock.

  C++ ints index the strings, so the model is exact for strings shorter than 2 ^ 31 bytes. The
  splitter's loop does not advance on an empty delimiter, which is why it is a partial function.
  The glob matcher works on the rest of the pattern and of the string; the NUL byte that ends a C
  string is what \<open>pattern[1]\<close> reads at the end, and it equals none of the special characters.
\<close>

section \<open>Splitting\<close>

fun skip_spaces :: "string \<Rightarrow> nat \<Rightarrow> nat" where
  "skip_spaces str pos = pos + length (takeWhile (\<lambda>c. c = CHR '' '') (drop pos str))"

partial_function (option) spilt_loop ::
  "string \<Rightarrow> string \<Rightarrow> nat \<Rightarrow> string list \<Rightarrow> string list option" where
  "spilt_loop str delim pos res =
     (if pos < length str then
        let p = skip_spaces str pos in
        if length str \<le> p then Some res
        else (case str_find str delim p of
                None \<Rightarrow> Some (res @ [substr str p (length str - p)])
              | Some f \<Rightarrow>
                  spilt_loop str delim (f + length delim) (res @ [substr str p (f - p)]))
      else Some res)"

definition spiltString :: "string \<Rightarrow> string \<Rightarrow> string list option" where
  "spiltString str delim = spilt_loop str delim 0 []"

text \<open>The reference: cut the string at the delimiter, dropping the spaces before each piece.\<close>

function tokens :: "string \<Rightarrow> string \<Rightarrow> string list" where
  "tokens delim s =
     (let t = dropWhile (\<lambda>c. c = CHR '' '') s in
      if t = [] \<or> delim = [] then []
      else (case find_sub delim t of
              None \<Rightarrow> [t]
            | Some i \<Rightarrow> take i t # tokens delim (drop (i + length delim) t)))"
  by pat_completeness auto
termination
proof (relation "measure (\<lambda>(delim, s). length s)", goal_cases)
  case (2 delim s t i)
  then have "length t \<le> length s" "t \<noteq> []" "delim \<noteq> []"
    by (auto simp: length_dropWhile_le)
  then show ?case
    by (cases t; cases delim) auto
qed auto

declare tokens.simps [simp del]

lemma drop_skip_spaces: "drop (skip_spaces str pos) str = dropWhile (\<lambda>c. c = CHR '' '') (drop pos str)"
  by (simp add: dropWhile_eq_drop add.commute)

lemma skip_spaces_le: "pos \<le> length str \<Longrightarrow> skip_spaces str pos \<le> length str"
proof -
  assume "pos \<le> length str"
  moreover have "length (takeWhile (\<lambda>c. c = CHR '' '') (drop pos str)) \<le> length str - pos"
    using length_takeWhile_le [of "\<lambda>c. c = CHR '' ''" "drop pos str"] by (simp del: takeWhile_eq_all_conv)
  ultimately show ?thesis
    unfolding skip_spaces.simps by (metis add.commute le_diff_conv2)
qed

declare skip_spaces.simps [simp del]

lemma spilt_loop_tokens:
  assumes "delim \<noteq> []" and "pos \<le> length str"
  shows "spilt_loop str delim pos res = Some (res @ tokens delim (drop pos str))"
  using assms(2)
proof (induction "length str - pos" arbitrary: pos res rule: less_induct)
  case less
  let ?p = "skip_spaces str pos"
  let ?t = "drop ?p str"
  have t: "?t = dropWhile (\<lambda>c. c = CHR '' '') (drop pos str)"
    by (rule drop_skip_spaces)
  have p_le: "?p \<le> length str"
    using less.prems by (rule skip_spaces_le)
  have pos_le: "pos \<le> ?p"
    by (simp add: skip_spaces.simps)
  show ?case
  proof (cases "?t = []")
    case True
    then have "length str \<le> ?p" by simp
    moreover have "tokens delim (drop pos str) = []"
      using True t by (simp only: tokens.simps [of delim "drop pos str"] Let_def) simp
    ultimately show ?thesis
      by (simp add: spilt_loop.simps [of str delim pos] Let_def)
  next
    case False
    then have lt: "?p < length str" by simp
    have tok: "tokens delim (drop pos str) =
        (case find_sub delim ?t of None \<Rightarrow> [?t]
         | Some i \<Rightarrow> take i ?t # tokens delim (drop (i + length delim) ?t))"
      unfolding tokens.simps [of delim "drop pos str"] Let_def t [symmetric]
      using False assms(1) by simp
    have loop: "spilt_loop str delim pos res =
        (case find_sub delim ?t of None \<Rightarrow> Some (res @ [?t])
         | Some i \<Rightarrow> spilt_loop str delim (?p + i + length delim) (res @ [take i ?t]))"
      using lt p_le pos_le
      by (simp add: spilt_loop.simps [of str delim pos] Let_def str_find_def substr_def
          split: option.split)
    show ?thesis
    proof (cases "find_sub delim ?t")
      case None
      then show ?thesis using tok loop by simp
    next
      case (Some i)
      let ?q = "?p + i + length delim"
      have i_le: "i + length delim \<le> length ?t"
        using find_sub_Some_split [OF Some] by simp
      have i_le': "i + length delim \<le> length str - ?p" using i_le by simp
      have pos_delim: "0 < length delim" using assms(1) by simp
      have shorter: "length str - ?q < length str - pos"
        using i_le' lt pos_le pos_delim by linarith
      have "?q \<le> length str" using i_le' lt by linarith
      note IH = less.hyps [OF shorter this, of "res @ [take i ?t]"]
      have "drop (i + length delim) ?t = drop ?q str"
        by (simp add: ac_simps)
      then show ?thesis using tok loop Some IH by simp
    qed
  qed
qed

lemma spiltString_tokens: "delim \<noteq> [] \<Longrightarrow> spiltString str delim = Some (tokens delim str)"
  by (simp add: spiltString_def spilt_loop_tokens)

text \<open>Joining words with a delimiter, and the words that survive a round trip.\<close>

fun join :: "string \<Rightarrow> string list \<Rightarrow> string" where
  "join delim [] = []"
| "join delim [w] = w"
| "join delim (w # ws) = w @ delim @ join delim ws"

definition splittable :: "string \<Rightarrow> string \<Rightarrow> bool" where
  "splittable delim w \<longleftrightarrow> w \<noteq> [] \<and> hd w \<noteq> CHR '' '' \<and> hd delim \<notin> set w"

lemma dropWhile_splittable:
  "splittable delim w \<Longrightarrow> dropWhile (\<lambda>c. c = CHR '' '') (w @ s) = w @ s"
  by (cases w) (auto simp: splittable_def)

lemma tokens_join_Cons:
  assumes "delim \<noteq> []" and "splittable delim w"
  shows "tokens delim (w @ delim @ s) = w # tokens delim s"
proof -
  have "find_sub delim (w @ delim @ s) = Some (length w)"
    using assms by (simp add: find_sub_first splittable_def)
  then show ?thesis
    using assms dropWhile_splittable [OF assms(2), of "delim @ s"]
    by (simp add: tokens.simps [of delim "w @ delim @ s"])
qed

lemma tokens_single:
  assumes "delim \<noteq> []" and "splittable delim w"
  shows "tokens delim w = [w]"
proof -
  have "find_sub delim w = None"
    using assms by (simp add: find_sub_absent splittable_def)
  then show ?thesis
    using assms dropWhile_splittable [OF assms(2), of "[]"]
    by (simp add: tokens.simps [of delim w] splittable_def)
qed

lemma tokens_join:
  assumes "delim \<noteq> []" and "\<forall>w \<in> set ws. splittable delim w"
  shows "tokens delim (join delim ws) = ws"
  using assms
proof (induction delim ws rule: join.induct)
  case (1 d)
  then show ?case by (simp add: tokens.simps)
next
  case (2 d w)
  then show ?case by (simp add: tokens_single)
next
  case (3 d w w' ws)
  then show ?case by (simp add: tokens_join_Cons)
qed

section \<open>Numbers and switches\<close>

definition to_lower :: "char \<Rightarrow> char" where
  "to_lower c =
     (let n = (of_char c :: nat) in if 65 \<le> n \<and> n \<le> 90 then char_of (n + 32) else c)"

definition strcaseeq :: "string \<Rightarrow> string \<Rightarrow> bool" where
  "strcaseeq a b \<longleftrightarrow> map to_lower (c_str a) = map to_lower (c_str b)"

text \<open>
  \<open>string2int64 str num\<close> returns the C++ return value and the new value of the reference
  argument. A non-digit is accepted only as a leading sign. The stream extraction leaves
  the argument alone on an empty string, stores 0 when no digit follows the sign, and saturates
  on overflow; the code returns 1 in each of these cases.
\<close>

fun all_digits :: "string \<Rightarrow> bool" where
  "all_digits [] = True"
| "all_digits (c # cs) = (is_digit c \<and> all_digits cs)"

definition valid_int :: "string \<Rightarrow> bool" where
  "valid_int str =
     (case str of
        [] \<Rightarrow> True
      | c # cs \<Rightarrow> (is_digit c \<or> c = CHR ''-'' \<or> c = CHR ''+'') \<and> all_digits cs)"

definition string2int64 :: "string \<Rightarrow> int \<Rightarrow> int \<times> int" where
  "string2int64 str num =
     (if \<not> valid_int str then (-1, num)
      else if str = [] then (1, num)
      else (1, c_strtol str))"

definition yesnotoi :: "string \<Rightarrow> int" where
  "yesnotoi s = (if strcaseeq s ''yes'' then 1 else if strcaseeq s ''no'' then 0 else -1)"

definition mem_unit :: "string \<Rightarrow> (64 word) option" where
  "mem_unit u =
     (if u = [] \<or> strcaseeq u ''b'' then Some 1
      else if strcaseeq u ''k'' then Some 1000
      else if strcaseeq u ''kb'' then Some 1024
      else if strcaseeq u ''m'' then Some (1000 * 1000)
      else if strcaseeq u ''mb'' then Some (1024 * 1024)
      else if strcaseeq u ''g'' then Some (1000 * 1000 * 1000)
      else if strcaseeq u ''gb'' then Some (1024 * 1024 * 1024)
      else None)"

text \<open>\<open>memtoll\<close> on a C string: the error flag and the value.\<close>

definition memtoll :: "string \<Rightarrow> bool \<times> 64 word" where
  "memtoll p =
     (let sign = (case p of [] \<Rightarrow> [] | c # cs \<Rightarrow> if c = CHR ''-'' then [c] else []);
          ds = takeWhile is_digit (drop (length sign) p);
          u = drop (length sign + length ds) p
      in case mem_unit u of
           None \<Rightarrow> (True, 0)
         | Some mul \<Rightarrow>
             if length sign + length ds \<ge> 128 then (True, 0)
             else if sign \<noteq> [] \<and> ds = [] then (True, 0)
             else (False, word_of_int (c_strtol (sign @ ds)) * mul))"

lemma all_digits_iff: "all_digits s \<longleftrightarrow> (\<forall>c \<in> set s. is_digit c)"
  by (induction s) auto

lemma c_strtol_digits: "\<forall>c \<in> set ds. is_digit c \<Longrightarrow>
    c_strtol ds = min (2 ^ 63 - 1) (int (digits_val 0 ds))"
  by (simp add: c_strtol_def sign_split_digits takeWhile_eq_all_conv [THEN iffD2])

lemma sign_split_minus: "sign_split (CHR ''-'' # ds) = (True, ds)"
  by (simp add: sign_split_def is_space_def)

lemma c_strtol_int_dec:
  assumes "- (2 ^ 63) \<le> i" and "i < 2 ^ 63"
  shows "c_strtol (int_dec i) = i"
  using assms
  by (auto simp: int_dec_def c_strtol_def sign_split_minus sign_split_nat_dec takeWhile_nat_dec
      nat_dec_val)

lemma valid_int_nat_dec: "valid_int (nat_dec n)"
  using nat_dec_digits [of n]
  by (cases "nat_dec n") (auto simp: valid_int_def all_digits_iff)

lemma valid_int_dec: "valid_int (int_dec i)"
  using nat_dec_digits valid_int_nat_dec
  by (auto simp: valid_int_def int_dec_def all_digits_iff)

lemma int_dec_not_Nil [simp]: "int_dec i \<noteq> []"
  by (simp add: int_dec_def)

lemma string2int64_int_dec:
  "- (2 ^ 63) \<le> i \<Longrightarrow> i < 2 ^ 63 \<Longrightarrow> string2int64 (int_dec i) n = (1, i)"
  by (simp add: string2int64_def valid_int_dec c_strtol_int_dec)

section \<open>Glob matching\<close>

text \<open>Plain \<open>char\<close> is signed on the program's platforms.\<close>

definition char_int :: "char \<Rightarrow> int" where
  "char_int c = (let n = int (of_char c) in if n \<ge> 128 then n - 256 else n)"

definition char_eq :: "bool \<Rightarrow> char \<Rightarrow> char \<Rightarrow> bool" where
  "char_eq nocase a b \<longleftrightarrow> (if nocase then to_lower a = to_lower b else a = b)"

definition in_range :: "bool \<Rightarrow> char \<Rightarrow> char \<Rightarrow> char \<Rightarrow> bool" where
  "in_range nocase a b c =
     (let lo = (if char_int a > char_int b then b else a);
          hi = (if char_int a > char_int b then a else b);
          f = (if nocase then to_lower else id)
      in char_int (f c) \<ge> char_int (f lo) \<and> char_int (f c) \<le> char_int (f hi))"

text \<open>
  The loop over a bracket class, for the string's first byte \<open>c\<close>: whether the class matched, and
  the pattern after the closing bracket (or its end, when the class is not closed).
\<close>

function class_scan :: "bool \<Rightarrow> char \<Rightarrow> string \<Rightarrow> bool \<Rightarrow> bool \<times> string" where
  "class_scan nocase c [] m = (m, [])"
| "class_scan nocase c (x # q) m =
     (if x = CHR 0x5C \<and> q \<noteq> [] then class_scan nocase c (tl q) (m \<or> hd q = c)
      else if x = CHR '']'' then (m, q)
      else if length q \<ge> 2 \<and> q ! 0 = CHR ''-'' then
        class_scan nocase c (drop 2 q) (m \<or> in_range nocase x (q ! 1) c)
      else class_scan nocase c q (m \<or> char_eq nocase x c))"
  by pat_completeness auto
termination
  by (relation "measure (\<lambda>(nocase, c, q, m). length q)") auto

declare class_scan.simps(2) [simp del]

lemma class_scan_length: "length (snd (class_scan nocase c q m)) \<le> length q"
proof (induction nocase c q m rule: class_scan.induct)
  case (2 nocase c x q m)
  then show ?case
    by (subst class_scan.simps) (auto simp del: class_scan.simps intro: le_trans)
qed simp

function (sequential) stringmatchlen :: "bool \<Rightarrow> string \<Rightarrow> string \<Rightarrow> bool"
  and star_loop :: "bool \<Rightarrow> string \<Rightarrow> string \<Rightarrow> bool" where
  "stringmatchlen nocase [] s = (s = [])"
| "stringmatchlen nocase (x # q) [] = False"
| "stringmatchlen nocase (x # q) (c # t) =
     (if x = CHR ''*'' then
        (let q' = dropWhile (\<lambda>y. y = CHR ''*'') q in
         if q' = [] then True else star_loop nocase q' (c # t))
      else
        (let (ok, q') =
               (if x = CHR ''?'' then (True, q)
                else if x = CHR ''['' then
                  (let notflag = (q \<noteq> [] \<and> hd q = CHR ''^'');
                       (m, r) = class_scan nocase c (if notflag then tl q else q) False
                   in (m \<noteq> notflag, r))
                else if x = CHR 0x5C \<and> q \<noteq> [] then (char_eq nocase (hd q) c, tl q)
                else (char_eq nocase x c, q))
         in if \<not> ok then False
            else if t = [] then dropWhile (\<lambda>y. y = CHR ''*'') q' = []
            else stringmatchlen nocase q' t))"
| "star_loop nocase q [] = False"
| "star_loop nocase q (c # t) = (stringmatchlen nocase q (c # t) \<or> star_loop nocase q t)"
  by pat_completeness auto
termination
proof (relation "measure (\<lambda>a. case a of Inl (_, p, s) \<Rightarrow> 2 * (length p + length s)
    | Inr (_, q, s) \<Rightarrow> 2 * (length q + length s) + 1)", goal_cases)
  case (2 nocase x q c t q')
  then have "length q' \<le> length q"
    by (simp add: length_dropWhile_le)
  then show ?case by simp
next
  case (3 nocase x q c t z ok q')
  have "length q' \<le> length q"
    using 3 class_scan_length
    by (auto split: if_splits prod.splits simp: Let_def le_diff_conv
        dest: sym intro: le_trans) (metis class_scan_length diff_le_self le_trans length_tl snd_conv)+
  then show ?case by simp
qed auto

definition stringmatch :: "string \<Rightarrow> string \<Rightarrow> bool \<Rightarrow> bool" where
  "stringmatch pattern str nocase = stringmatchlen nocase pattern str"

text \<open>
  The meaning of a pattern, in two steps: the tokens it is made of, and the strings they stand for. A
  star stands for any string, a question mark for any single character; a class lists characters
  and ranges, with a caret for the others; a backslash takes the next character as it is. In a class an
  escaped character is compared exactly even when case is ignored. A class that is not closed
  reaches to the end of the pattern, and a backslash at the end stands for itself.
\<close>

datatype class_item = Exact char | Folded char | Range char char

datatype glob_token = Star | AnyChar | Class bool "class_item list" | Lit char

function class_items :: "string \<Rightarrow> class_item list \<times> string" where
  "class_items [] = ([], [])"
| "class_items (x # q) =
     (if x = CHR 0x5C \<and> q \<noteq> [] then map_prod ((#) (Exact (hd q))) id (class_items (tl q))
      else if x = CHR '']'' then ([], q)
      else if length q \<ge> 2 \<and> q ! 0 = CHR ''-''
      then map_prod ((#) (Range x (q ! 1))) id (class_items (drop 2 q))
      else map_prod ((#) (Folded x)) id (class_items q))"
  by pat_completeness auto
termination by (relation "measure length") auto

declare class_items.simps(2) [simp del]

fun item_matches :: "bool \<Rightarrow> char \<Rightarrow> class_item \<Rightarrow> bool" where
  "item_matches nocase c (Exact a) = (a = c)"
| "item_matches nocase c (Folded a) = char_eq nocase a c"
| "item_matches nocase c (Range a b) = in_range nocase a b c"

lemma class_items_length: "length (snd (class_items q)) \<le> length q"
proof (induction q rule: class_items.induct)
  case (2 x q)
  then show ?case
    by (subst class_items.simps) (auto simp: id_def intro: le_trans)
qed simp

function glob_tokens :: "string \<Rightarrow> glob_token list" where
  "glob_tokens [] = []"
| "glob_tokens (x # q) =
     (if x = CHR ''*'' then Star # glob_tokens q
      else if x = CHR ''?'' then AnyChar # glob_tokens q
      else if x = CHR ''['' then
        (let neg = (q \<noteq> [] \<and> hd q = CHR ''^''); r = class_items (if neg then tl q else q)
         in Class neg (fst r) # glob_tokens (snd r))
      else if x = CHR 0x5C \<and> q \<noteq> [] then Lit (hd q) # glob_tokens (tl q)
      else Lit x # glob_tokens q)"
  by pat_completeness auto
termination
proof (relation "measure length", goal_cases)
  case (4 x q neg r)
  have "length (snd r) \<le> length (if neg then tl q else q)"
    unfolding 4(5) by (rule class_items_length)
  then show ?case by (auto split: if_splits)
qed auto

declare glob_tokens.simps(2) [simp del]

fun token_matches :: "bool \<Rightarrow> glob_token \<Rightarrow> char \<Rightarrow> bool" where
  "token_matches nocase Star c = False"
| "token_matches nocase AnyChar c = True"
| "token_matches nocase (Class neg its) c = ((\<exists>i \<in> set its. item_matches nocase c i) \<noteq> neg)"
| "token_matches nocase (Lit a) c = char_eq nocase a c"

fun glob :: "bool \<Rightarrow> glob_token list \<Rightarrow> string \<Rightarrow> bool" where
  "glob nocase [] s = (s = [])"
| "glob nocase (x # p) s =
     (if x = Star then (\<exists>k \<le> length s. glob nocase p (drop k s))
      else s \<noteq> [] \<and> token_matches nocase x (hd s) \<and> glob nocase p (tl s))"

lemma class_scan_items:
  "class_scan nocase c q m =
     (m \<or> (\<exists>i \<in> set (fst (class_items q)). item_matches nocase c i), snd (class_items q))"
proof (induction nocase c q m rule: class_scan.induct)
  case (2 nocase c x q m)
  show ?case
    using 2
    by (subst class_scan.simps, subst (1 2) class_items.simps) (auto simp: Let_def split: prod.split)
qed simp

text \<open>One pattern position that is not a star: the token, and the pattern behind it.\<close>

lemma glob_tokens_step:
  assumes "x \<noteq> CHR ''*''"
  shows "\<exists>tok q'. glob_tokens (x # q) = tok # glob_tokens q' \<and> tok \<noteq> Star \<and>
    (if x = CHR ''?'' then (True, q)
     else if x = CHR ''['' then
       (let notflag = (q \<noteq> [] \<and> hd q = CHR ''^'');
            (m, r) = class_scan nocase c (if notflag then tl q else q) False
        in (m \<noteq> notflag, r))
     else if x = CHR 0x5C \<and> q \<noteq> [] then (char_eq nocase (hd q) c, tl q)
     else (char_eq nocase x c, q)) = (token_matches nocase tok c, q')"
  using assms by (subst glob_tokens.simps) (simp add: class_scan_items Let_def split: prod.split)

lemma glob_empty: "glob nocase ts [] \<longleftrightarrow> set ts \<subseteq> {Star}"
  by (induction ts) auto

lemma tokens_stars: "set (glob_tokens p) \<subseteq> {Star} \<longleftrightarrow> dropWhile (\<lambda>y. y = CHR ''*'') p = []"
proof (induction p)
  case (Cons x p)
  show ?case
  proof (cases "x = CHR ''*''")
    case True
    then show ?thesis using Cons by (simp add: glob_tokens.simps(2))
  next
    case False
    obtain tok q' where "glob_tokens (x # p) = tok # glob_tokens q'" "tok \<noteq> Star"
      using glob_tokens_step [OF False, where q = p] by blast
    with False show ?thesis by simp
  qed
qed simp

lemma tokens_dropStars:
  "(\<exists>k \<le> length s. glob nocase (glob_tokens (dropWhile (\<lambda>y. y = CHR ''*'') p)) (drop k s)) \<longleftrightarrow>
   (\<exists>k \<le> length s. glob nocase (glob_tokens p) (drop k s))"
proof (induction p arbitrary: s)
  case (Cons x p)
  show ?case
  proof (cases "x = CHR ''*''")
    case True
    have "(\<exists>k \<le> length s. \<exists>j \<le> length (drop k s). glob nocase ts (drop j (drop k s))) \<longleftrightarrow>
        (\<exists>k \<le> length s. glob nocase ts (drop k s))" for ts
    proof
      assume "\<exists>k \<le> length s. \<exists>j \<le> length (drop k s). glob nocase ts (drop j (drop k s))"
      then obtain k j where "k \<le> length s" "j \<le> length s - k" "glob nocase ts (drop (j + k) s)"
        by auto
      then show "\<exists>k \<le> length s. glob nocase ts (drop k s)"
        by (intro exI [of _ "j + k"]) auto
    next
      assume "\<exists>k \<le> length s. glob nocase ts (drop k s)"
      then obtain k where "k \<le> length s" "glob nocase ts (drop k s)"
        by auto
      then show "\<exists>k \<le> length s. \<exists>j \<le> length (drop k s). glob nocase ts (drop j (drop k s))"
        by (intro exI [of _ k] conjI exI [of _ 0]) auto
    qed
    with True Cons show ?thesis by (simp add: glob_tokens.simps)
  next
    case False
    then show ?thesis by simp
  qed
qed simp

lemma stringmatchlen_glob_aux:
  "s \<noteq> [] \<Longrightarrow> stringmatchlen nocase p s = glob nocase (glob_tokens p) s"
  "dropWhile (\<lambda>y. y = CHR ''*'') q \<noteq> [] \<Longrightarrow>
     star_loop nocase' q t = (\<exists>k \<le> length t. glob nocase' (glob_tokens q) (drop k t))"
proof (induction nocase p s and nocase' q t rule: stringmatchlen_star_loop.induct)
  case (1 nocase s)
  then show ?case by simp
next
  case (2 nocase x q)
  then show ?case by simp
next
  case (3 nocase x q c t)
  show ?case
  proof (cases "x = CHR ''*''")
    case True
    let ?q = "dropWhile (\<lambda>y. y = CHR ''*'') q"
    have "dropWhile (\<lambda>y. y = CHR ''*'') ?q = ?q" by (metis dropWhile_idem)
    then have "?q \<noteq> [] \<Longrightarrow>
        star_loop nocase ?q (c # t) = (\<exists>k \<le> length (c # t). glob nocase (glob_tokens ?q) (drop k (c # t)))"
      using "3.IH"(1) True by simp
    moreover have "?q = [] \<Longrightarrow> \<exists>k \<le> length (c # t). glob nocase (glob_tokens ?q) (drop k (c # t))"
      by (intro exI [of _ "length (c # t)"]) (simp del: dropWhile_eq_Nil_conv)
    ultimately show ?thesis
      using True tokens_dropStars [of "c # t" nocase q] by (auto simp: Let_def glob_tokens.simps)
  next
    case False
    obtain tok q' where tok: "glob_tokens (x # q) = tok # glob_tokens q'" "tok \<noteq> Star"
      "(if x = CHR ''?'' then (True, q)
     else if x = CHR ''['' then
       (let notflag = (q \<noteq> [] \<and> hd q = CHR ''^'');
            (m, r) = class_scan nocase c (if notflag then tl q else q) False
        in (m \<noteq> notflag, r))
     else if x = CHR 0x5C \<and> q \<noteq> [] then (char_eq nocase (hd q) c, tl q)
     else (char_eq nocase x c, q)) = (token_matches nocase tok c, q')"
      using glob_tokens_step [OF False] by blast
    have step: "stringmatchlen nocase (x # q) (c # t) =
        (token_matches nocase tok c \<and>
         (if t = [] then dropWhile (\<lambda>y. y = CHR ''*'') q' = [] else stringmatchlen nocase q' t))"
      unfolding stringmatchlen.simps(3) tok(3) using False by (simp only: if_False Let_def prod.case) simp
    have "token_matches nocase tok c \<Longrightarrow> t \<noteq> [] \<Longrightarrow> stringmatchlen nocase q' t = glob nocase (glob_tokens q') t"
      using "3.IH"(2) [OF False tok(3) [symmetric] HOL.refl] by simp
    then show ?thesis
      using tok(1,2) glob_empty [of nocase "glob_tokens q'"] tokens_stars [of q'] unfolding step by auto
  qed
next
  case (4 nocase q)
  then show ?case using tokens_stars [of q] by (simp add: glob_empty)
next
  case (5 nocase q c t)
  have "(\<exists>k \<le> length (c # t). glob nocase (glob_tokens q) (drop k (c # t))) \<longleftrightarrow>
      glob nocase (glob_tokens q) (c # t) \<or> (\<exists>k \<le> length t. glob nocase (glob_tokens q) (drop k t))"
    by (auto simp: Suc_le_eq less_Suc_eq_le drop_Cons' intro: exI [of _ "0::nat"])
  with 5 show ?case by simp
qed

lemma stringmatch_glob: "s \<noteq> [] \<Longrightarrow> stringmatch p s nocase \<longleftrightarrow> glob nocase (glob_tokens p) s"
  using stringmatchlen_glob_aux(1) [of s nocase p] by (simp add: stringmatch_def)

lemma stringmatch_empty: "stringmatch p [] nocase \<longleftrightarrow> p = []"
  by (cases p) (auto simp: stringmatch_def)

section \<open>Addresses, paths and the clock\<close>

text \<open>\<open>snprintf\<close> into a buffer of 100 bytes keeps 99 characters.\<close>

definition formatAddr :: "string \<Rightarrow> int \<Rightarrow> string" where
  "formatAddr ip port = take 99 (CHR ''['' # c_str ip @ '']:'' @ int_dec port)"

text \<open>
  \<open>getAbsolutePath\<close> over the current directory (\<open>None\<close>: getcwd fails) and the outcome of the
  trial fopen; \<open>absPath\<close> is the caller's string. The branch for an absolute name assigns the
  name and then falls through.
\<close>

definition getAbsolutePath ::
  "string \<Rightarrow> string option \<Rightarrow> bool \<Rightarrow> string \<Rightarrow> int \<times> string" where
  "getAbsolutePath fileName cwd opens absPath =
     (if fileName = [] then (-1, absPath)
      else
        let abs1 = (if hd fileName = CHR ''/'' then fileName else absPath) in
        case cwd of
          None \<Rightarrow> (-1, abs1)
        | Some d \<Rightarrow>
            if d = [] then (-1, d)
            else
              let abs2 = (if last d \<noteq> CHR ''/'' then d @ ''/'' else d) @ fileName in
              if opens then (1, abs2) else (-1, abs2))"

definition ustime :: "64 word \<Rightarrow> 64 word \<Rightarrow> 64 word" where
  "ustime tv_sec tv_usec = tv_sec * 1000000 + tv_usec"

definition mstime :: "64 word \<Rightarrow> 64 word \<Rightarrow> 64 word" where
  "mstime tv_sec tv_usec = ustime tv_sec tv_usec div 1000"

section \<open>Random identifiers\<close>

text \<open>
  \<open>getRandomHexChars\<close>: with the seed read, pieces of up to 20 bytes of a buffer that nothing fills (the hash of the
  seed is commented out), else time and process id over the bytes that lie at \<open>p\<close>, mixed with \<open>rand\<close>. \<open>digest k\<close>
  is what the buffer holds in round \<open>k\<close>. \<open>usec\<close>, \<open>sec\<close> and \<open>pid\<close> are the bytes of the three values.
\<close>

definition hex_char :: "8 word \<Rightarrow> char" where
  "hex_char b = ''0123456789abcdef'' ! unat (b AND 0x0F)"

function digest_loop :: "(nat \<Rightarrow> 8 word list) \<Rightarrow> nat \<Rightarrow> nat \<Rightarrow> string" where
  "digest_loop digest k len =
     (if len = 0 then []
      else let copylen = min len 20
           in map hex_char (take copylen (digest k)) @ digest_loop digest (k + 1) (len - copylen))"
  by pat_completeness auto
termination by (relation "measure (\<lambda>(d, k, len). len)") auto

declare digest_loop.simps [simp del]

text \<open>Copying a value to the front of the rest, if it fits; the bytes before the rest, and the rest.\<close>

definition copy_front :: "8 word list \<Rightarrow> 8 word list \<times> 8 word list \<Rightarrow> 8 word list \<times> 8 word list" where
  "copy_front v = (\<lambda>(front, rest). if length rest \<ge> length v then (front @ v, drop (length v) rest) else (front, rest))"

definition getRandomHexChars ::
  "bool \<Rightarrow> (nat \<Rightarrow> 8 word list) \<Rightarrow> 8 word list \<Rightarrow> 8 word list \<Rightarrow> 8 word list \<Rightarrow> (nat \<Rightarrow> 8 word) \<Rightarrow> 8 word list \<Rightarrow> string" where
  "getRandomHexChars seeded digest usec sec pid rand p =
     (if seeded then digest_loop digest 0 (length p)
      else
        let (front, rest) = copy_front pid (copy_front sec (copy_front usec ([], p)))
        in map (\<lambda>(j, b). hex_char (b XOR rand j)) (enumerate 0 (front @ rest)))"

lemma hex_char_hex: "hex_char b \<in> set ''0123456789abcdef''"
proof -
  have "b AND 0x0F \<le> 0x0F" by (rule word_and_le1)
  then have "unat (b AND 0x0F) < length ''0123456789abcdef''" by (simp add: word_le_nat_alt)
  then show ?thesis unfolding hex_char_def by (rule nth_mem)
qed

lemma copy_front_length: "copy_front v (a, b) = (c, d) \<Longrightarrow> length c + length d = length a + length b"
  by (auto simp: copy_front_def split: if_splits)

text \<open>It always yields as many hexadecimal digits as asked for; with the seed read they are those of the unfilled buffer.\<close>

lemma random_hex_chars:
  assumes "\<And>k. length (digest k) = 20"
  shows "length (getRandomHexChars seeded digest usec sec pid rand p) = length p \<and>
    set (getRandomHexChars seeded digest usec sec pid rand p) \<subseteq> set ''0123456789abcdef''"
proof -
  have loop: "length (digest_loop digest k n) = n \<and> set (digest_loop digest k n) \<subseteq> set ''0123456789abcdef''" for k n
  proof (induction n arbitrary: k rule: less_induct)
    case (less n)
    show ?case
    proof (cases "n = 0")
      case True
      then show ?thesis by (simp add: digest_loop.simps)
    next
      case False
      then have "length (digest_loop digest (k + 1) (n - min n 20)) = n - min n 20 \<and>
          set (digest_loop digest (k + 1) (n - min n 20)) \<subseteq> set ''0123456789abcdef''"
        by (intro less.IH) simp
      then show ?thesis
        using False hex_char_hex assms
        by (subst (1 2) digest_loop.simps) (auto simp: Let_def simp del: list.set)
    qed
  qed
  obtain a1 b1 a2 b2 a3 b3 where c: "copy_front usec ([], p) = (a1, b1)" "copy_front sec (a1, b1) = (a2, b2)"
    "copy_front pid (a2, b2) = (a3, b3)" by (meson surj_pair)
  then have "length a3 + length b3 = length p"
    using copy_front_length [OF c(1)] copy_front_length [OF c(2)] copy_front_length [OF c(3)] by simp
  then show ?thesis
    using loop [of 0 "length p"] c hex_char_hex
    by (auto simp: getRandomHexChars_def simp del: list.set)
qed

section \<open>Properties\<close>

lemma memtoll_number:
  assumes "n < 2 ^ 63" and "length (nat_dec n) < 128" and "mem_unit u = Some mul"
    and "\<forall>c \<in> set u. \<not> is_digit c"
  shows "memtoll (nat_dec n @ u) = (False, of_nat n * mul)"
proof -
  have tw: "takeWhile is_digit (nat_dec n @ u) = nat_dec n"
    using nat_dec_digits [of n] assms(4) by (cases u) (simp_all add: takeWhile_append)
  obtain c cs where c: "nat_dec n = c # cs" by (cases "nat_dec n") auto
  then have nc: "c \<noteq> CHR ''-''" using nat_dec_digits [of n] digit_not_sign by auto
  have "c_strtol (nat_dec n) = int n"
    using assms(1) by (simp add: c_strtol_digits nat_dec_digits nat_dec_val)
  then show ?thesis
    using assms(2,3) tw nc c by (simp add: memtoll_def Let_def)
qed

text \<open>
  C23 The splitter every parser of the program is built on returns, for every non-empty
  delimiter, the reference list of tokens, and so terminates; and it takes apart what was joined
  with the delimiter.
\<close>

theorem spiltString_correct:
  assumes "delim \<noteq> []"
  shows "spiltString str delim = Some (tokens delim str) \<and>
    (\<forall>ws. (\<forall>w \<in> set ws. splittable delim w) \<longrightarrow> spiltString (join delim ws) delim = Some ws)"
  using assms by (simp add: spiltString_tokens tokens_join)

theorem spiltString_correct_witness:
  "spiltString ''a, b,c'' '','' = Some [''a'', ''b'', ''c''] \<and>
   spiltString (join '','' [''127.0.0.1'', ''6379'']) '','' = Some [''127.0.0.1'', ''6379'']"
proof -
  have "tokens '','' ''a, b,c'' = [''a'', ''b'', ''c'']" by code_simp
  moreover have "\<forall>w \<in> set [''127.0.0.1'', ''6379'']. splittable '','' w" by code_simp
  ultimately show ?thesis
    using spiltString_correct [of "'',''" "''a, b,c''"] by (simp del: join.simps)
qed

text \<open>
  Printing a 64-bit integer and reading it back with \<open>string2int64\<close> gives the integer and the
  success status.
\<close>

lemma string2int64_roundtrip:
  assumes "- (2 ^ 63) \<le> i" and "i < 2 ^ 63"
  shows "string2int64 (int_dec i) num = (1, i)"
  using assms by (rule string2int64_int_dec)

text \<open>
  C24 The matcher behind PSUBSCRIBE decides the pattern language on every non-empty string, with and without
  regard to case: it accepts a string exactly when the tokens of the pattern (stars, question marks,
  classes, escaped and plain characters) stand for it. On the empty string it accepts only the
  empty pattern, so the pattern of a single star, which stands for every string, fails there.
\<close>

theorem stringmatch_decides_glob:
  "stringmatch p s nocase = (if s = [] then p = [] else glob nocase (glob_tokens p) s)"
  by (simp add: stringmatch_glob stringmatch_empty)

text \<open>
  A decimal number followed by a memory unit is read as the number times the unit, modulo
  2 ^ 64, without an error.
\<close>

lemma memtoll_reads_units:
  assumes "n < 2 ^ 63" and "length (nat_dec n) < 128" and "mem_unit u = Some mul"
    and "\<forall>c \<in> set u. \<not> is_digit c"
  shows "memtoll (nat_dec n @ u) = (False, of_nat n * mul)"
  using assms by (rule memtoll_number)

end
