(* ===== verification/Fio.thy ===== *)
theory Fio imports Prelude begin

text \<open>
  Buffered output (src/src/io): \<open>Fio::write\<close> and the RESP encodings built on it, and the devices
  \<open>MemFio\<close>, \<open>FileFio\<close>, \<open>SocketFio\<close>. What a device must do for the encodings to be right is the
  locale \<open>out_device\<close>; files and sockets are instances, the memory device is not: it copies into the
  buffer of an empty std::string, whose length stays 0.

  A \<open>buf\<close> argument is the memory the pointer points to, up to and without the final NUL.
\<close>

record 'd fio =
  dev :: 'd
  processedBytes :: nat
  maxProcessingChunk :: nat

definition new_fio :: "'d \<Rightarrow> 'd fio" where
  "new_fio d = \<lparr>dev = d, processedBytes = 0, maxProcessingChunk = 0\<rparr>"

section \<open>Fio::write and the encodings\<close>

definition chunk_len :: "nat \<Rightarrow> nat \<Rightarrow> nat" where
  "chunk_len maxChunk len = (if maxChunk \<noteq> 0 \<and> maxChunk < len then maxChunk else len)"

function write_loop ::
  "(string \<Rightarrow> nat \<Rightarrow> 'd \<Rightarrow> ('d \<times> nat) res) \<Rightarrow> string \<Rightarrow> nat \<Rightarrow> nat \<Rightarrow> 'd fio \<Rightarrow> ('d fio \<times> nat) res" where
  "write_loop basewrite buf len tot f =
     (if len = 0 then Ret (f, tot)
      else
        let n = chunk_len (maxProcessingChunk f) len in
        res_bind (basewrite buf n (dev f)) (\<lambda>(d, r).
          if r = 0 then Ret (f\<lparr>dev := d\<rparr>, tot + n)
          else write_loop basewrite (drop n buf) (len - n) (tot + n)
                 (f\<lparr>dev := d, processedBytes := processedBytes f + n\<rparr>)))"
  by pat_completeness auto
termination
  by (relation "measure (\<lambda>(b, buf, len, tot, f). len)") (auto simp: chunk_len_def Let_def)

declare write_loop.simps [simp del]

definition fio_write ::
  "(string \<Rightarrow> nat \<Rightarrow> 'd \<Rightarrow> ('d \<times> nat) res) \<Rightarrow> string \<Rightarrow> nat \<Rightarrow> 'd fio \<Rightarrow> ('d fio \<times> nat) res" where
  "fio_write basewrite buf len f = write_loop basewrite buf len 0 f"

text \<open>A value passed for a parameter of type int: a longer integer, or a \<open>size_t\<close>, is narrowed to 32 bits.\<close>

definition c_int :: "int \<Rightarrow> int" where
  "c_int i = sint (word_of_int i :: 32 word)"

lemma c_int_small: "\<lbrakk>- (2 ^ 31) \<le> i; i < 2 ^ 31\<rbrakk> \<Longrightarrow> c_int i = i"
  unfolding c_int_def sint_sbintrunc' by (rule signed_take_bit_int_eq_self) simp_all

lemma c_int_length: "length s < 2 ^ 31 \<Longrightarrow> c_int (int (length s)) = int (length s)"
  by (rule c_int_small) simp_all

definition writeBulkCount ::
  "(string \<Rightarrow> nat \<Rightarrow> 'd \<Rightarrow> ('d \<times> nat) res) \<Rightarrow> char \<Rightarrow> int \<Rightarrow> 'd fio \<Rightarrow> ('d fio \<times> nat) res" where
  "writeBulkCount basewrite perfix count f =
     (let str = perfix # int_dec (c_int count) @ CRLF in
      res_bind (fio_write basewrite str (length str) f) (\<lambda>(f, n).
        Ret (f, if n = 0 then 0 else length str)))"

text \<open>The length of the error text is written, not the text.\<close>

definition writeBulkError ::
  "(string \<Rightarrow> nat \<Rightarrow> 'd \<Rightarrow> ('d \<times> nat) res) \<Rightarrow> string \<Rightarrow> 'd fio \<Rightarrow> ('d fio \<times> nat) res" where
  "writeBulkError basewrite err f =
     (let str = ''-ERR '' @ nat_dec (length (c_str err)) @ CRLF in
      res_bind (fio_write basewrite str (length str) f) (\<lambda>(f, n).
        Ret (f, if n = 0 then 0 else length str)))"

definition writeBulkString ::
  "(string \<Rightarrow> nat \<Rightarrow> 'd \<Rightarrow> ('d \<times> nat) res) \<Rightarrow> string \<Rightarrow> 'd fio \<Rightarrow> ('d fio \<times> nat) res" where
  "writeBulkString basewrite str f =
     res_bind (writeBulkCount basewrite (CHR ''$'') (int (length str)) f) (\<lambda>(f, written).
       if written = 0 then Ret (f, 0)
       else
         res_bind (if length str > 0 then fio_write basewrite str (length str) f else Ret (f, 1)) (\<lambda>(f, n).
           if n = 0 then Ret (f, 0)
           else
             res_bind (fio_write basewrite CRLF 2 f) (\<lambda>(f, n).
               Ret (f, if n = 0 then 0 else written + length str + 2))))"

definition writeBulkInt64 ::
  "(string \<Rightarrow> nat \<Rightarrow> 'd \<Rightarrow> ('d \<times> nat) res) \<Rightarrow> int \<Rightarrow> 'd fio \<Rightarrow> ('d fio \<times> nat) res" where
  "writeBulkInt64 basewrite i f = writeBulkString basewrite (int_dec i) f"

section \<open>What a device promises\<close>

text \<open>
  \<open>out\<close> is what the device has taken so far, \<open>room\<close> how much more it takes for certain.
\<close>

locale out_device =
  fixes basewrite :: "string \<Rightarrow> nat \<Rightarrow> 'd \<Rightarrow> ('d \<times> nat) res"
    and out :: "'d \<Rightarrow> string"
    and room :: "'d \<Rightarrow> nat"
  assumes takes: "\<lbrakk>0 < n; n \<le> length buf; n \<le> room d\<rbrakk> \<Longrightarrow>
    \<exists>d' r. basewrite buf n d = Ret (d', r) \<and> r \<noteq> 0 \<and> out d' = out d @ take n buf \<and> room d' \<ge> room d - n"
begin

lemma write_loop_all:
  "\<lbrakk>len \<le> length buf; len \<le> room (dev f)\<rbrakk> \<Longrightarrow>
   \<exists>f'. write_loop basewrite buf len tot f = Ret (f', tot + len) \<and> out (dev f') = out (dev f) @ take len buf \<and>
     room (dev f') \<ge> room (dev f) - len \<and> processedBytes f' = processedBytes f + len"
proof (induction len arbitrary: buf f tot rule: less_induct)
  case (less len)
  show ?case
  proof (cases "len = 0")
    case True
    then show ?thesis by (simp add: write_loop.simps)
  next
    case False
    let ?n = "chunk_len (maxProcessingChunk f) len"
    have n: "0 < ?n" "?n \<le> len" using False by (auto simp: chunk_len_def)
    obtain d' r where d: "basewrite buf ?n (dev f) = Ret (d', r)" "r \<noteq> 0" "out d' = out (dev f) @ take ?n buf"
      "room d' \<ge> room (dev f) - ?n"
      using takes [of ?n buf "dev f"] n less.prems by auto
    let ?f = "f\<lparr>dev := d', processedBytes := processedBytes f + ?n\<rparr>"
    define k where "k = len - ?n"
    have k: "k < len" "len = ?n + k" "k \<le> length (drop ?n buf)" "k \<le> room (dev ?f)"
      using n d(4) less.prems by (auto simp: k_def)
    obtain f' where f': "write_loop basewrite (drop ?n buf) k (tot + ?n) ?f = Ret (f', tot + ?n + k)"
      "out (dev f') = out d' @ take k (drop ?n buf)" "room (dev f') \<ge> room d' - k"
      "processedBytes f' = processedBytes f + ?n + k"
      using less.IH [OF k(1,3,4), of "tot + ?n"] by auto
    have "write_loop basewrite buf len tot f = Ret (f', tot + len)"
      using d f'(1) False k(2) by (subst write_loop.simps) (simp add: Let_def k_def [symmetric])
    moreover have "take ?n buf @ take k (drop ?n buf) = take len buf"
      using k(2) by (simp flip: take_add)
    moreover have "room (dev f') \<ge> room (dev f) - len" using f'(3) d(4) k(2) by linarith
    moreover have "processedBytes f' = processedBytes f + len" using f'(4) k(2) by linarith
    ultimately show ?thesis using f'(2) d(3) by (intro exI [of _ f']) simp
  qed
qed

lemma write_all:
  "length s \<le> room (dev f) \<Longrightarrow>
   \<exists>f'. fio_write basewrite s (length s) f = Ret (f', length s) \<and> out (dev f') = out (dev f) @ s \<and>
     room (dev f') \<ge> room (dev f) - length s \<and> processedBytes f' = processedBytes f + length s"
  using write_loop_all [of "length s" s f 0] by (simp add: fio_write_def)

lemma count_all:
  assumes "length (int_dec (c_int k)) + 3 \<le> room (dev f)"
  shows "\<exists>f'. writeBulkCount basewrite c k f = Ret (f', length (int_dec (c_int k)) + 3) \<and>
     out (dev f') = out (dev f) @ c # int_dec (c_int k) @ CRLF \<and> room (dev f') \<ge> room (dev f) - (length (int_dec (c_int k)) + 3)"
  using write_all [of "c # int_dec (c_int k) @ CRLF" f] assms by (auto simp: writeBulkCount_def Let_def)

text \<open>A bulk string is encoded as RESP says.\<close>

lemma bulk_all:
  assumes "length (int_dec (int (length s))) + length s + 5 \<le> room (dev f)" and "length s < 2 ^ 31"
  shows "\<exists>f'. writeBulkString basewrite s f = Ret (f', length (int_dec (int (length s))) + length s + 5) \<and>
     out (dev f') = out (dev f) @ CHR ''$'' # int_dec (int (length s)) @ CRLF @ s @ CRLF \<and>
     room (dev f') \<ge> room (dev f) - (length (int_dec (int (length s))) + length s + 5)"
proof -
  let ?k = "length (int_dec (int (length s)))"
  obtain f1 where f1: "writeBulkCount basewrite (CHR ''$'') (int (length s)) f = Ret (f1, ?k + 3)"
    "out (dev f1) = out (dev f) @ CHR ''$'' # int_dec (int (length s)) @ CRLF" "room (dev f1) \<ge> room (dev f) - (?k + 3)"
    using count_all [of "int (length s)" f "CHR ''$''"] assms(1) c_int_length [OF assms(2)] by auto
  have r1: "length s + 2 \<le> room (dev f1)" using f1(3) assms(1) by simp
  obtain f2 n where f2: "(if length s > 0 then fio_write basewrite s (length s) f1 else Ret (f1, 1)) = Ret (f2, n)"
    "n \<noteq> 0" "out (dev f2) = out (dev f1) @ s" "room (dev f2) \<ge> room (dev f1) - length s"
  proof (cases "s = []")
    case True
    then show ?thesis using that [of f1 1] by simp
  next
    case False
    then obtain f2 where "fio_write basewrite s (length s) f1 = Ret (f2, length s)" "out (dev f2) = out (dev f1) @ s"
      "room (dev f2) \<ge> room (dev f1) - length s"
      using write_all [of s f1] r1 by auto
    then show ?thesis using that [of f2 "length s"] False by simp
  qed
  have "length CRLF \<le> room (dev f2)" using f2(4) r1 by simp
  then obtain f3 where f3: "fio_write basewrite CRLF 2 f2 = Ret (f3, 2)" "out (dev f3) = out (dev f2) @ CRLF"
    "room (dev f3) \<ge> room (dev f2) - 2"
    using write_all [of CRLF f2] by auto
  have "writeBulkString basewrite s f = Ret (f3, ?k + 3 + length s + 2)"
    using f1(1) f2(1,2) f3(1) unfolding writeBulkString_def
    by (simp only: res_bind.simps prod.case if_False) (simp split: if_splits)
  moreover have "room (dev f3) \<ge> room (dev f) - (?k + length s + 5)" using f1(3) f2(4) f3(3) by linarith
  ultimately show ?thesis using f1(2) f2(3) f3(2) by auto
qed

end

section \<open>MemFio\<close>

text \<open>
  \<open>strncpy\<close> writes through the pointer that \<open>c_str\<close> of an empty std::string gives: 16 bytes of
  room, and no change of the string's length, so that \<open>getStr\<close> is always empty.
\<close>

record memfio =
  mf_str :: string
  mf_raw :: string

definition new_memfio :: memfio where
  "new_memfio = \<lparr>mf_str = [], mf_raw = replicate 16 NUL\<rparr>"

definition mem_basewrite :: "string \<Rightarrow> nat \<Rightarrow> memfio \<Rightarrow> (memfio \<times> nat) res" where
  "mem_basewrite buf writeLen d =
     (let chars = c_str buf;
          realLen = (if length chars > writeLen then writeLen else length chars)
      in if realLen > length (mf_raw d) then Fault OutOfBounds
         else Ret (d\<lparr>mf_raw := take realLen chars @ drop realLen (mf_raw d)\<rparr>, realLen))"

definition getStr :: "memfio \<Rightarrow> string" where
  "getStr d = mf_str d"

lemma mem_write_empty:
  "\<lbrakk>write_loop mem_basewrite buf len tot f = Ret (f', n)\<rbrakk> \<Longrightarrow> mf_str (dev f') = mf_str (dev f)"
proof (induction len arbitrary: buf f tot rule: less_induct)
  case (less len)
  show ?case
  proof (cases "len = 0")
    case True
    then show ?thesis using less.prems by (simp add: write_loop.simps)
  next
    case False
    let ?n = "chunk_len (maxProcessingChunk f) len"
    have n: "0 < ?n" "?n \<le> len" using False by (auto simp: chunk_len_def)
    obtain d r where d: "mem_basewrite buf ?n (dev f) = Ret (d, r)"
      "(if r = 0 then Ret (f\<lparr>dev := d\<rparr>, tot + ?n)
        else write_loop mem_basewrite (drop ?n buf) (len - ?n) (tot + ?n)
          (f\<lparr>dev := d, processedBytes := processedBytes f + ?n\<rparr>)) = Ret (f', n)"
      using less.prems False by (subst (asm) write_loop.simps) (auto simp: Let_def res_bind_eq_Ret)
    have "mf_str d = mf_str (dev f)" using d(1) by (auto simp: mem_basewrite_def Let_def split: if_splits)
    then show ?thesis using d(2) less.IH [of "len - ?n"] n by (auto split: if_splits)
  qed
qed

lemma mem_bulk_empty: "writeBulkString mem_basewrite s (new_fio new_memfio) = Ret (f, n) \<Longrightarrow> getStr (dev f) = []"
  by (auto simp: writeBulkString_def writeBulkCount_def fio_write_def getStr_def new_fio_def new_memfio_def Let_def
      res_bind_eq_Ret dest!: mem_write_empty split: if_splits prod.splits)

text \<open>Short writes succeed and leave the string as it was.\<close>

lemma no_NUL_c_str: "NUL \<notin> set s \<Longrightarrow> c_str s = s"
  by (auto simp: c_str_def takeWhile_eq_all_conv)

lemma mem_write_short:
  assumes "NUL \<notin> set str" and "str \<noteq> []" and "length str \<le> length (mf_raw (dev f))" and "maxProcessingChunk f = 0"
  shows "\<exists>f'. fio_write mem_basewrite str (length str) f = Ret (f', length str) \<and> getStr (dev f') = getStr (dev f) \<and>
    length (mf_raw (dev f')) = length (mf_raw (dev f)) \<and> maxProcessingChunk f' = 0"
proof -
  obtain d where d: "mem_basewrite str (length str) (dev f) = Ret (d, length str)" "mf_str d = mf_str (dev f)"
    "length (mf_raw d) = length (mf_raw (dev f))"
    using assms(3) no_NUL_c_str [OF assms(1)] by (simp add: mem_basewrite_def Let_def)
  have "fio_write mem_basewrite str (length str) f =
      Ret (f\<lparr>dev := d, processedBytes := processedBytes f + length str\<rparr>, length str)"
    using d(1) assms(2,4) by (simp add: fio_write_def write_loop.simps chunk_len_def Let_def)
  then show ?thesis using d assms(4) by (simp add: getStr_def)
qed

lemma int_dec_no_NUL: "NUL \<notin> set (int_dec i)"
proof -
  have "\<not> is_digit NUL" by (simp add: is_digit_def NUL_def)
  then have "NUL \<notin> set (nat_dec n)" for n using nat_dec_digits [of n] by blast
  then show ?thesis by (simp add: int_dec_def NUL_def)
qed

lemma mem_count_short:
  assumes "p \<noteq> NUL" and "length (int_dec (c_int i)) + 3 \<le> length (mf_raw (dev f))" and "maxProcessingChunk f = 0"
  shows "\<exists>f'. writeBulkCount mem_basewrite p i f = Ret (f', length (int_dec (c_int i)) + 3) \<and> getStr (dev f') = getStr (dev f) \<and>
    length (mf_raw (dev f')) = length (mf_raw (dev f)) \<and> maxProcessingChunk f' = 0"
proof -
  define str where "str = p # int_dec (c_int i) @ CRLF"
  have "NUL \<notin> set str" "str \<noteq> []" "length str = length (int_dec (c_int i)) + 3"
    using assms(1) int_dec_no_NUL [of "c_int i"] by (auto simp: str_def CRLF_def NUL_def)
  with mem_write_short [of str f] assms show ?thesis
    by (auto simp: writeBulkCount_def str_def [symmetric] Let_def)
qed

section \<open>FileFio\<close>

text \<open>
  The file with its free space; \<open>fwrite(buf, len, 1, fp)\<close> writes one item of \<open>len\<close> bytes or none,
  and the count of items is what \<open>buffered\<close> adds up.
\<close>

record file_fio =
  ff_data :: string
  ff_free :: nat
  ff_buffered :: int
  ff_autosync :: int

definition file_basewrite :: "string \<Rightarrow> nat \<Rightarrow> file_fio \<Rightarrow> (file_fio \<times> nat) res" where
  "file_basewrite buf len d =
     (let written = (if len \<le> ff_free d then 1 else 0 :: nat);
          d = (if len \<le> ff_free d then d\<lparr>ff_data := ff_data d @ take len buf, ff_free := ff_free d - len\<rparr> else d);
          d = d\<lparr>ff_buffered := ff_buffered d + int written\<rparr>
      in Ret (if ff_autosync d \<noteq> 0 \<and> ff_buffered d > ff_autosync d then d\<lparr>ff_buffered := 0\<rparr> else d, written))"

interpretation file_out: out_device file_basewrite ff_data ff_free
  by unfold_locales (auto simp: file_basewrite_def Let_def)

section \<open>SocketFio\<close>

definition PROTO_IOBUF_LEN :: nat where "PROTO_IOBUF_LEN = 1024 * 16"
definition EIO :: int where "EIO = 5"

record socket_fio =
  sk_buf :: string
  sk_fds :: "int list"
  sk_states :: "int list"
  sk_pos :: nat
  sk_sent :: "(int \<times> string) list"

text \<open>\<open>sendf\<close> is what \<open>send\<close> returns for a descriptor and the bytes offered.\<close>

function send_loop :: "(int \<Rightarrow> string \<Rightarrow> int) \<Rightarrow> int \<Rightarrow> string \<Rightarrow> string" where
  "send_loop sendf fd bs =
     (if bs = [] then []
      else let res = sendf fd bs in
           if res \<le> 0 then [] else take (nat res) bs @ send_loop sendf fd (drop (nat res) bs))"
  by pat_completeness auto
termination by (relation "measure (\<lambda>(s, fd, bs). length bs)") auto

declare send_loop.simps [simp del]

fun send_each ::
  "(int \<Rightarrow> string \<Rightarrow> int) \<Rightarrow> string \<Rightarrow> int list \<Rightarrow> int list \<Rightarrow> int list \<times> (int \<times> string) list \<times> nat" where
  "send_each sendf bs (fd # fds) (st # sts) =
     (let (sts', out, n) = send_each sendf bs fds sts in
      if st \<noteq> 0 then (st # sts', out, n)
      else let w = send_loop sendf fd bs in
           if length w \<noteq> length bs then (EIO # sts', (fd, w) # out, Suc n) else (st # sts', (fd, w) # out, n))"
| "send_each sendf bs fds sts = (sts, [], 0)"

text \<open>
  \<open>p\<close> is what is left of the buffer, \<open>blen\<close> the whole buffer's length: the amount sent per round is
  computed from \<open>blen\<close>, and in the last round it can reach behind the end. Returns -1 when all
  sockets are broken, and then keeps the buffer.
\<close>

function flush_loop :: "(int \<Rightarrow> string \<Rightarrow> int) \<Rightarrow> nat \<Rightarrow> string \<Rightarrow> nat \<Rightarrow> socket_fio \<Rightarrow> (socket_fio \<times> int) res" where
  "flush_loop sendf blen p broken d =
     (if p = [] \<or> blen = 0 then Ret (d\<lparr>sk_buf := []\<rparr>, 1)
      else
        let count = (if blen > 1024 then 1024 else blen) in
        if count > length p + 1 then Fault OutOfBounds
        else
          let (sts, out, n) = send_each sendf (take count (p @ [NUL])) (sk_fds d) (sk_states d);
              d = d\<lparr>sk_states := sts, sk_sent := sk_sent d @ out\<rparr>
          in if broken + n = length (sk_fds d) then Ret (d, -1)
             else flush_loop sendf blen (drop count p) (broken + n) (d\<lparr>sk_pos := sk_pos d + count\<rparr>))"
  by pat_completeness auto
termination by (relation "measure (\<lambda>(s, blen, p, b, d). length p)") auto

declare flush_loop.simps [simp del]

definition sk_flush :: "(int \<Rightarrow> string \<Rightarrow> int) \<Rightarrow> socket_fio \<Rightarrow> (socket_fio \<times> int) res" where
  "sk_flush sendf d = flush_loop sendf (length (sk_buf d)) (sk_buf d) 0 d"

definition sk_getState :: "nat \<Rightarrow> socket_fio \<Rightarrow> int res" where
  "sk_getState idx d =
     (if idx > length (sk_states d) then Ret (-1)
      else if idx < length (sk_states d) then Ret (sk_states d ! idx) else Fault OutOfBounds)"

definition sk_basewrite :: "(int \<Rightarrow> string \<Rightarrow> int) \<Rightarrow> string \<Rightarrow> nat \<Rightarrow> socket_fio \<Rightarrow> (socket_fio \<times> nat) res" where
  "sk_basewrite sendf buf len d =
     (if len = 0 then Ret (d, 0)
      else
        let d = d\<lparr>sk_buf := sk_buf d @ take len buf\<rparr> in
        res_bind (if length (sk_buf d) > PROTO_IOBUF_LEN then sk_flush sendf d else Ret (d, 1)) (\<lambda>(d, r).
          Ret (d, 1)))"

definition initStates :: "nat \<Rightarrow> socket_fio \<Rightarrow> socket_fio" where
  "initStates n d = d\<lparr>sk_states := replicate n 0\<rparr>"

definition setFds :: "int list \<Rightarrow> socket_fio \<Rightarrow> socket_fio" where
  "setFds fds d = d\<lparr>sk_fds := fds\<rparr>"

text \<open>Up to the size of the I/O buffer nothing is flushed, and the bytes pile up in order.\<close>

interpretation socket_out: out_device "sk_basewrite sendf" sk_buf "\<lambda>d. PROTO_IOBUF_LEN - length (sk_buf d)" for sendf
  by unfold_locales (auto simp: sk_basewrite_def Let_def)

lemma flush_small:
  assumes "sk_buf d \<noteq> []" "length (sk_buf d) \<le> 1024" "send_each sendf (sk_buf d) (sk_fds d) (sk_states d) = (sts, out, n)"
    and "n \<noteq> length (sk_fds d)"
  shows "sk_flush sendf d = Ret (d\<lparr>sk_buf := [], sk_states := sts, sk_sent := sk_sent d @ out,
    sk_pos := sk_pos d + length (sk_buf d)\<rparr>, 1)"
  using assms by (simp add: sk_flush_def flush_loop.simps [of _ _ "sk_buf d"] flush_loop.simps [of _ _ "[]"] Let_def)

lemma flush_large_faults:
  assumes "length (sk_buf d) > 1024" and "length (sk_buf d) mod 1024 \<notin> {0, 1023}"
    and "\<forall>fd bs. sendf fd bs = int (length bs)" and "sk_fds d \<noteq> []" "sk_states d = replicate (length (sk_fds d)) 0"
  shows "sk_flush sendf d = Fault OutOfBounds"
proof -
  have all: "send_loop sendf fd bs = bs" for fd bs
    using assms(3) by (cases "bs = []") (simp_all add: send_loop.simps [of _ _ bs] send_loop.simps [of _ _ "[]"] Let_def)
  have each: "\<exists>out. send_each sendf bs fds (replicate (length fds) 0) = (replicate (length fds) 0, out, 0)" for bs fds
    by (induction fds) (auto simp: all Let_def)
  have "flush_loop sendf (length (sk_buf d)) p 0 e = Fault OutOfBounds"
    if "length p mod 1024 \<notin> {0, 1023}" "sk_fds e = sk_fds d" "sk_states e = sk_states d" for p e
    using that
  proof (induction "length p" arbitrary: p e rule: less_induct)
    case less
    then have ne: "p \<noteq> []" by auto
    show ?case
    proof (cases "1024 > length p + 1")
      case True
      have "sk_buf d \<noteq> []" using assms(1) by auto
      with True show ?thesis using ne assms(1) by (simp add: flush_loop.simps [of _ _ p] Let_def)
    next
      case False
      moreover have "length p \<noteq> 1023" using less.prems(1) by auto
      ultimately have len: "length p \<ge> 1024" by linarith
      obtain out where "send_each sendf (take 1024 p) (sk_fds e) (sk_states e) = (sk_states e, out, 0)"
        using each [of "take 1024 p" "sk_fds d"] less.prems(2,3) assms(5) by auto
      moreover have "flush_loop sendf (length (sk_buf d)) (drop 1024 p) 0 (e\<lparr>sk_states := sk_states e,
          sk_sent := sk_sent e @ out, sk_pos := sk_pos e + 1024\<rparr>) = Fault OutOfBounds"
        using less.prems len by (intro less.hyps) (auto simp: le_mod_geq)
      ultimately show ?thesis
        using False len ne assms(1,4) less.prems
        by (cases "sk_buf d = []") (simp_all add: flush_loop.simps [of _ _ p] Let_def)
    qed
  qed
  then show ?thesis using assms(2) by (simp add: sk_flush_def)
qed

section \<open>Properties\<close>

text \<open>
  On a file with room, a bulk string of less than \<open>2 ^ 31\<close> bytes is written exactly as RESP encodes it, whatever limit is set on
  the size of single writes: the length in decimal, CRLF, the bytes, CRLF.
\<close>

lemma bulk_string_encoding:
  assumes "length (int_dec (int (length s))) + length s + 5 \<le> ff_free (dev f)" and "length s < 2 ^ 31"
  shows "\<exists>f'. writeBulkString file_basewrite s f = Ret (f', length (int_dec (int (length s))) + length s + 5) \<and>
     ff_data (dev f') = ff_data (dev f) @ CHR ''$'' # int_dec (int (length s)) @ CRLF @ s @ CRLF"
  using file_out.bulk_all [OF assms] by blast

text \<open>The narrowing is seen from \<open>2 ^ 31\<close> bytes on: the count that is written is then a negative number.\<close>

lemma bulk_count_negative:
  assumes "length s = 2 ^ 31" and "length (int_dec (- (2 ^ 31))) + 3 \<le> ff_free (dev f)"
  shows "\<exists>f' n. writeBulkCount file_basewrite (CHR ''$'') (int (length s)) f = Ret (f', n) \<and>
     ff_data (dev f') = ff_data (dev f) @ CHR ''$'' # int_dec (- (2 ^ 31)) @ CRLF"
proof -
  have "c_int (int (length s)) = - (2 ^ 31)" unfolding assms(1) by (simp add: c_int_def)
  then show ?thesis using file_out.count_all [of "int (length s)" f "CHR ''$''"] assms(2) by auto
qed

text \<open>
  The memory device loses everything: whatever bulk string is written to a new one, if the write
  does not run over the 16 bytes of the buffer, the string read back is empty.
\<close>

lemma mem_fio_empty:
  assumes "writeBulkString mem_basewrite s (new_fio new_memfio) = Ret (f, n)"
  shows "getStr (dev f) = []"
  using assms by (rule mem_bulk_empty)

end
