(* ===== verification/FioRead.thy ===== *)
theory FioRead imports Fio begin

text \<open>
  Buffered input (src/src/io): \<open>Fio::read\<close> and what the devices put into the caller's buffer. What a
  device must do for a read to deliver its bytes is the locale \<open>in_device\<close>; files are an instance.
  The memory device is not: it terminates every piece with a NUL that takes the place of a byte.
\<close>

section \<open>Fio::read\<close>

definition put_at :: "nat \<Rightarrow> string \<Rightarrow> string \<Rightarrow> string" where
  "put_at k w buf = take k buf @ w @ drop (k + length w) buf"

text \<open>\<open>baseread\<close> yields the device, what it writes to the buffer, and its result. The piece that fails is counted.\<close>

function read_loop ::
  "(nat \<Rightarrow> 'd \<Rightarrow> ('d \<times> string \<times> nat) res) \<Rightarrow> string \<Rightarrow> nat \<Rightarrow> nat \<Rightarrow> 'd fio \<Rightarrow> ('d fio \<times> string \<times> nat) res" where
  "read_loop baseread buf len tot f =
     (if len = 0 then Ret (f, buf, tot)
      else
        let n = chunk_len (maxProcessingChunk f) len in
        res_bind (baseread n (dev f)) (\<lambda>(d, w, r).
          if r = 0 then Ret (f\<lparr>dev := d\<rparr>, put_at tot w buf, tot + n)
          else read_loop baseread (put_at tot w buf) (len - n) (tot + n)
                 (f\<lparr>dev := d, processedBytes := processedBytes f + n\<rparr>)))"
  by pat_completeness auto
termination
  by (relation "measure (\<lambda>(b, buf, len, tot, f). len)") (auto simp: chunk_len_def Let_def)

declare read_loop.simps [simp del]

definition fio_read ::
  "(nat \<Rightarrow> 'd \<Rightarrow> ('d \<times> string \<times> nat) res) \<Rightarrow> string \<Rightarrow> nat \<Rightarrow> 'd fio \<Rightarrow> ('d fio \<times> string \<times> nat) res" where
  "fio_read baseread buf len f = read_loop baseread buf len 0 f"

section \<open>What a device promises\<close>

locale in_device =
  fixes baseread :: "nat \<Rightarrow> 'd \<Rightarrow> ('d \<times> string \<times> nat) res"
    and avail :: "'d \<Rightarrow> string"
  assumes gives: "\<lbrakk>0 < n; n \<le> length (avail d)\<rbrakk> \<Longrightarrow>
    \<exists>d' r. baseread n d = Ret (d', take n (avail d), r) \<and> r \<noteq> 0 \<and> avail d' = drop n (avail d)"
begin

lemma read_loop_all:
  "\<lbrakk>len \<le> length (avail (dev f)); tot + len \<le> length buf\<rbrakk> \<Longrightarrow>
   \<exists>f'. read_loop baseread buf len tot f = Ret (f', put_at tot (take len (avail (dev f))) buf, tot + len) \<and>
     avail (dev f') = drop len (avail (dev f))"
proof (induction len arbitrary: buf f tot rule: less_induct)
  case (less len)
  show ?case
  proof (cases "len = 0")
    case True
    then show ?thesis by (simp add: read_loop.simps put_at_def)
  next
    case False
    let ?n = "chunk_len (maxProcessingChunk f) len"
    have n: "0 < ?n" "?n \<le> len" using False by (auto simp: chunk_len_def)
    define k where "k = len - ?n"
    have k: "k < len" "len = ?n + k" using n by (simp_all add: k_def)
    obtain d' r where d: "baseread ?n (dev f) = Ret (d', take ?n (avail (dev f)), r)" "r \<noteq> 0"
      "avail d' = drop ?n (avail (dev f))"
      using gives [of ?n "dev f"] n less.prems(1) by auto
    let ?f = "f\<lparr>dev := d', processedBytes := processedBytes f + ?n\<rparr>"
    let ?buf = "put_at tot (take ?n (avail (dev f))) buf"
    have "k \<le> length (avail (dev ?f))" "tot + ?n + k \<le> length ?buf"
      using less.prems k(2) d(3) by (simp_all add: put_at_def)
    then obtain f' where f': "read_loop baseread ?buf k (tot + ?n) ?f =
        Ret (f', put_at (tot + ?n) (take k (avail d')) ?buf, tot + ?n + k)" "avail (dev f') = drop k (avail d')"
      using less.IH [OF k(1), of ?f "tot + ?n" ?buf] by auto
    have len: "length (take ?n (avail (dev f))) = ?n" "length (take len (avail (dev f))) = len"
      "length (take k (avail d')) = k"
      using less.prems(1) n(2) d(3) k(2) by simp_all
    have "take len (avail (dev f)) = take ?n (avail (dev f)) @ take k (avail d')"
      using k(2) d(3) by (metis take_add)
    then have "put_at (tot + ?n) (take k (avail d')) ?buf = put_at tot (take len (avail (dev f))) buf"
      using len less.prems(2) k(2) by (simp add: put_at_def take_drop add.assoc add.commute add.left_commute)
    moreover have "read_loop baseread buf len tot f = read_loop baseread ?buf k (tot + ?n) ?f"
      using d(1,2) False by (subst read_loop.simps) (simp add: Let_def k_def)
    moreover have "drop k (avail d') = drop len (avail (dev f))" using d(3) k(2) by (metis add.commute drop_drop)
    ultimately show ?thesis using f' k(2) by (intro exI [of _ f']) (simp add: add.assoc)
  qed
qed

lemma read_all:
  assumes "len \<le> length (avail (dev f))" and "len \<le> length buf"
  shows "\<exists>f'. fio_read baseread buf len f = Ret (f', take len (avail (dev f)) @ drop len buf, len) \<and>
     avail (dev f') = drop len (avail (dev f))"
  using read_loop_all [of len f 0 buf] assms by (simp add: fio_read_def put_at_def)

end

section \<open>Files\<close>

text \<open>
  A file with the position of its next read; \<open>fread(buf, len, 1, fp)\<close> reads one item of \<open>len\<close> bytes, or
  what is left.
\<close>

record in_file =
  if_data :: string
  if_pos :: nat

definition file_rest :: "in_file \<Rightarrow> string" where
  "file_rest d = drop (if_pos d) (if_data d)"

definition file_baseread :: "nat \<Rightarrow> in_file \<Rightarrow> (in_file \<times> string \<times> nat) res" where
  "file_baseread len d =
     (let w = take len (file_rest d)
      in Ret (d\<lparr>if_pos := if_pos d + length w\<rparr>, w, if length w = len then 1 else 0))"

definition file_tell :: "in_file \<Rightarrow> nat" where
  "file_tell d = if_pos d"

interpretation file_in: in_device file_baseread file_rest
  by unfold_locales (auto simp: file_baseread_def file_rest_def Let_def add.commute)

section \<open>Memory and sockets\<close>

definition mem_baseread :: "nat \<Rightarrow> memfio \<Rightarrow> (memfio \<times> string \<times> nat) res" where
  "mem_baseread readLen d =
     (let w = take (readLen - 1) (c_str (mf_str d)) @ [NUL]; len = length (mf_str d)
      in if len > readLen then Ret (d\<lparr>mf_str := drop readLen (mf_str d)\<rparr>, w, readLen)
         else Ret (d\<lparr>mf_str := []\<rparr>, w, len))"

definition sock_baseread :: "nat \<Rightarrow> socket_fio \<Rightarrow> (socket_fio \<times> string \<times> nat) res" where
  "sock_baseread readLen d = Ret (d, [], 0)"

definition mem_tell :: "memfio \<Rightarrow> int" where "mem_tell d = 0"
definition mem_flush :: "memfio \<Rightarrow> int" where "mem_flush d = 0"

text \<open>A string of exactly the length asked for comes back without its last byte.\<close>

lemma mem_read_loses_last:
  assumes "NUL \<notin> set s" and "s \<noteq> []" and "mf_str (dev f) = s" and "maxProcessingChunk f = 0" and "length buf = length s"
  shows "\<exists>f'. fio_read mem_baseread buf (length s) f = Ret (f', butlast s @ [NUL], length s)"
proof -
  have "take (length s - Suc 0) s = butlast s" by (simp add: butlast_conv_take)
  then have "mem_baseread (length s) (dev f) = Ret ((dev f)\<lparr>mf_str := []\<rparr>, butlast s @ [NUL], length s)"
    using assms(1,3) by (simp add: mem_baseread_def no_NUL_c_str)
  then show ?thesis
    using assms(2,4,5) by (simp add: fio_read_def read_loop.simps chunk_len_def Let_def put_at_def)
qed

text \<open>A read from a socket device reads nothing and reports the first piece as read.\<close>

lemma sock_read_nothing:
  "0 < len \<Longrightarrow> fio_read sock_baseread buf len f = Ret (f, buf, chunk_len (maxProcessingChunk f) len)"
  by (simp add: fio_read_def read_loop.simps sock_baseread_def Let_def put_at_def)

section \<open>Writing and reading back\<close>

text \<open>Bulk strings written one after the other, and the RESP encoding of one.\<close>

fun write_bulks :: "string list \<Rightarrow> file_fio fio \<Rightarrow> file_fio fio res" where
  "write_bulks [] f = Ret f"
| "write_bulks (s # ss) f = res_bind (writeBulkString file_basewrite s f) (\<lambda>(f, n). write_bulks ss f)"

definition bulk_code :: "string \<Rightarrow> string" where
  "bulk_code s = CHR ''$'' # int_dec (int (length s)) @ CRLF @ s @ CRLF"

text \<open>An empty file with some room that is written, and a file that is read from a position, with limits on the pieces.\<close>

definition writing :: "nat \<Rightarrow> nat \<Rightarrow> file_fio fio" where
  "writing room chunk =
     \<lparr>dev = \<lparr>ff_data = [], ff_free = room, ff_buffered = 0, ff_autosync = 0\<rparr>, processedBytes = 0, maxProcessingChunk = chunk\<rparr>"

definition reading_from :: "string \<Rightarrow> nat \<Rightarrow> nat \<Rightarrow> in_file fio" where
  "reading_from txt pos chunk = \<lparr>dev = \<lparr>if_data = txt, if_pos = pos\<rparr>, processedBytes = 0, maxProcessingChunk = chunk\<rparr>"

lemma length_bulk_code: "length (bulk_code s) = length (int_dec (int (length s))) + length s + 5"
  by (simp add: bulk_code_def)

lemma write_bulks_all:
  "\<lbrakk>length (concat (map bulk_code ss)) \<le> ff_free (dev f); \<forall>s \<in> set ss. length s < 2 ^ 31\<rbrakk> \<Longrightarrow>
   \<exists>f'. write_bulks ss f = Ret f' \<and> ff_data (dev f') = ff_data (dev f) @ concat (map bulk_code ss)"
proof (induction ss arbitrary: f)
  case (Cons s ss)
  then obtain f1 where f1: "writeBulkString file_basewrite s f = Ret (f1, length (bulk_code s))"
    "ff_data (dev f1) = ff_data (dev f) @ bulk_code s" "ff_free (dev f1) \<ge> ff_free (dev f) - length (bulk_code s)"
    using file_out.bulk_all [of s f] by (auto simp: length_bulk_code) (auto simp: bulk_code_def)
  moreover have "length (concat (map bulk_code ss)) \<le> ff_free (dev f1)" using Cons.prems(1) f1(3) by simp
  ultimately show ?case using Cons.IH [of f1] Cons.prems(2) by auto
qed simp

section \<open>Properties\<close>

text \<open>
  C36 What Fio writes to a file it reads back: bulk strings of less than \<open>2 ^ 31\<close> bytes each (the
  length goes through an int) written one after the other to a file with room, under any limit on the size of a piece, come back when the file is read from where they
  start, under any other limit: the bytes read are the RESP encodings of the strings, in order.
\<close>

theorem file_roundtrip:
  assumes "\<forall>s \<in> set ss. length s < 2 ^ 31"
    and "length (concat (map bulk_code ss)) \<le> ff_free (dev f)" and "length buf = length (concat (map bulk_code ss))"
  shows "\<exists>f' g'. write_bulks ss f = Ret f' \<and>
    fio_read file_baseread buf (length buf) (reading_from (ff_data (dev f')) (length (ff_data (dev f))) chunk) =
      Ret (g', concat (map bulk_code ss), length buf)"
proof -
  obtain f' where f': "write_bulks ss f = Ret f'" "ff_data (dev f') = ff_data (dev f) @ concat (map bulk_code ss)"
    using write_bulks_all [OF assms(2,1)] by blast
  then show ?thesis
    using file_in.read_all [of "length buf" "reading_from (ff_data (dev f')) (length (ff_data (dev f))) chunk" buf] assms(3)
    by (auto simp: file_rest_def reading_from_def)
qed

theorem file_roundtrip_witness:
  "\<exists>f' g'. write_bulks [''a'', ''bc''] (writing 100 3) = Ret f' \<and>
     fio_read file_baseread (replicate 15 NUL) 15 (reading_from (ff_data (dev f')) 0 2) =
       Ret (g', ''$1'' @ CRLF @ ''a'' @ CRLF @ ''$2'' @ CRLF @ ''bc'' @ CRLF, 15)"
proof -
  have "concat (map bulk_code [''a'', ''bc'']) = ''$1'' @ CRLF @ ''a'' @ CRLF @ ''$2'' @ CRLF @ ''bc'' @ CRLF"
    by code_simp
  then show ?thesis
    using file_roundtrip [of "[''a'', ''bc'']" "writing 100 3" "replicate 15 NUL" 2] by (simp add: writing_def)
qed

end
