(* ===== verification/OrdMap.thy ===== *)
theory OrdMap imports Prelude "HOL-Library.List_Lexorder" "HOL-Library.Char_ord" begin

text \<open>
  std::map as the list of its entries in key order, which is the order a range-based for loop
  visits them in. Strings are ordered as std::string compares them, byte by byte.
\<close>

type_synonym ('k, 'v) omap = "('k \<times> 'v) list"

fun omap_put :: "'k::linorder \<Rightarrow> 'v \<Rightarrow> ('k, 'v) omap \<Rightarrow> ('k, 'v) omap" where
  "omap_put k v [] = [(k, v)]"
| "omap_put k v ((k', v') # m) =
     (if k < k' then (k, v) # (k', v') # m
      else if k = k' then (k, v) # m
      else (k', v') # omap_put k v m)"

fun omap_erase :: "'k \<Rightarrow> ('k, 'v) omap \<Rightarrow> ('k, 'v) omap" where
  "omap_erase k [] = []"
| "omap_erase k ((k', v') # m) = (if k = k' then m else (k', v') # omap_erase k m)"

definition omap :: "('k::linorder, 'v) omap \<Rightarrow> bool" where
  "omap m \<longleftrightarrow> sorted_wrt (<) (map fst m)"

lemma omap_Nil [simp]: "omap []"
  by (simp add: omap_def)

lemma omap_distinct: "omap m \<Longrightarrow> distinct (map fst m)"
  by (simp add: omap_def strict_sorted_iff)

lemma omap_put_keys: "fst ` set (omap_put k v m) = insert k (fst ` set m)"
  by (induction k v m rule: omap_put.induct) auto

lemma omap_put_ok: "omap m \<Longrightarrow> omap (omap_put k v m)"
proof (induction k v m rule: omap_put.induct)
  case (2 k v k' v' m)
  have "\<forall>x \<in> fst ` set m. k' < x" using 2(2) by (simp add: omap_def)
  then show ?case
    using 2 omap_put_keys [of k v m] by (auto simp: omap_def)
qed (simp add: omap_def)

lemma map_of_omap_put: "omap m \<Longrightarrow> map_of (omap_put k v m) = (map_of m)(k \<mapsto> v)"
  by (induction k v m rule: omap_put.induct) (auto simp: omap_def fun_eq_iff)

lemma omap_erase_keys: "fst ` set (omap_erase k m) \<subseteq> fst ` set m"
  by (induction k m rule: omap_erase.induct) auto

lemma omap_erase_subset: "set (omap_erase k m) \<subseteq> set m"
  by (induction k m rule: omap_erase.induct) auto

lemma omap_erase_ok: "omap m \<Longrightarrow> omap (omap_erase k m)"
proof (induction k m rule: omap_erase.induct)
  case (2 k k' v' m)
  have "\<forall>x \<in> fst ` set m. k' < x" using 2(2) by (simp add: omap_def)
  then have "\<forall>x \<in> fst ` set (omap_erase k m). k' < x" using omap_erase_keys [of k m] by blast
  with 2 show ?case by (simp add: omap_def)
qed simp

lemma map_of_omap_erase: "omap m \<Longrightarrow> map_of (omap_erase k m) = (map_of m)(k := None)"
proof (induction k m rule: omap_erase.induct)
  case (2 k k' v' m)
  then have "k' \<notin> fst ` set m" by (auto simp: omap_def)
  then have "map_of m k' = None" by (simp add: map_of_eq_None_iff)
  with 2 show ?case by (auto simp: omap_def fun_eq_iff)
qed simp

lemma omap_put_mem:
  "omap m \<Longrightarrow> (x, y) \<in> set (omap_put k v m) \<longleftrightarrow> (if x = k then y = v else (x, y) \<in> set m)"
  by (induction k v m rule: omap_put.induct) (auto simp: omap_def)

end
