(* ===== verification/FlyClient.thy ===== *)
theory FlyClient imports MiscTool Fio OrdMap begin

text \<open>
  The client object of src/src/flyclient/FlyClient.cpp, without the operations that go through the
  server: flags, arguments, the two output buffers and sending from them, subscriptions.

  The fixed output buffer is the list of its first \<open>bufpos\<close> bytes. \<open>argvGen\<close> numbers the argument
  arrays a client has had; it models the identity of the array and of the strings in it.
\<close>

definition CLIENT_MASTER :: flags where "CLIENT_MASTER = 2"
definition CLIENT_CLOSE_AFTER_REPLY :: flags where "CLIENT_CLOSE_AFTER_REPLY = 64"
definition CLIENT_CLOSE_ASAP :: flags where "CLIENT_CLOSE_ASAP = 1024"
definition CLIENT_MASTER_FORCE_REPLY :: flags where "CLIENT_MASTER_FORCE_REPLY = 8192"
definition CLIENT_PUBSUB :: flags where "CLIENT_PUBSUB = 262144"
definition CLIENT_PENDING_WRITE :: flags where "CLIENT_PENDING_WRITE = 2097152"
definition FLY_REPLY_CHUNK_BYTES :: nat where "FLY_REPLY_CHUNK_BYTES = 16 * 1024"
definition PROTO_REPLY_CHUNK_BYTES :: nat where "PROTO_REPLY_CHUNK_BYTES = 16 * 1024"
definition PROTO_REQ_MULTIBULK :: int where "PROTO_REQ_MULTIBULK = 2"
definition PROTO_INLINE_MAX_SIZE :: nat where "PROTO_INLINE_MAX_SIZE = 1024 * 64"
definition PROTO_REQ_MULTIBULK_MAX_LEN :: int where "PROTO_REQ_MULTIBULK_MAX_LEN = 1024 * 1024"
definition PROTO_REQ_BULK_MAX_LEN :: int where "PROTO_REQ_BULK_MAX_LEN = 512 * 1024 * 1024"
definition NET_MAX_WRITES_PER_EVENT :: nat where "NET_MAX_WRITES_PER_EVENT = 1024 * 64"

record fly_client =
  fc_id :: "64 word"
  fc_fd :: int
  fc_flags :: flags
  queryBuf :: string
  argv :: "string list"
  argvCap :: "nat option"
  argvGen :: nat
  fc_buf :: string
  replies :: "string list"
  replyBytes :: "64 word"
  lastInteractionTime :: int
  reqType :: int
  multiBulkLen :: int
  sendLen :: nat
  fc_channels :: "string list"
  fc_patterns :: "string list"

definition new_client :: "int \<Rightarrow> int \<Rightarrow> fly_client" where
  "new_client fd nowt =
     \<lparr>fc_id = 0, fc_fd = fd, fc_flags = 0, queryBuf = [], argv = [], argvCap = None, argvGen = 0, fc_buf = [],
      replies = [], replyBytes = 0, lastInteractionTime = nowt, reqType = 0, multiBulkLen = 0, sendLen = 0,
      fc_channels = [], fc_patterns = []\<rparr>"

section \<open>Flags, arguments, the query buffer\<close>

definition fc_addFlag :: "flags \<Rightarrow> fly_client \<Rightarrow> fly_client" where
  "fc_addFlag f c = c\<lparr>fc_flags := fc_flags c OR f\<rparr>"

definition fc_delFlag :: "flags \<Rightarrow> fly_client \<Rightarrow> fly_client" where
  "fc_delFlag f c = c\<lparr>fc_flags := fc_flags c AND NOT f\<rparr>"

definition freeArgv :: "fly_client \<Rightarrow> fly_client" where
  "freeArgv c = c\<lparr>argv := [], argvCap := None, argvGen := Suc (argvGen c)\<rparr>"

definition allocArgv :: "nat \<Rightarrow> fly_client \<Rightarrow> fly_client" where
  "allocArgv count c = (freeArgv c)\<lparr>argvCap := Some count\<rparr>"

definition addArgv :: "string \<Rightarrow> fly_client \<Rightarrow> fly_client res" where
  "addArgv obj c =
     (case argvCap c of
        None \<Rightarrow> Fault NullDeref
      | Some n \<Rightarrow> if length (argv c) < n then Ret (c\<lparr>argv := argv c @ [obj]\<rparr>) else Fault OutOfBounds)"

fun addArgvs :: "string list \<Rightarrow> fly_client \<Rightarrow> fly_client res" where
  "addArgvs [] c = Ret c"
| "addArgvs (w # ws) c = res_bind (addArgv w c) (addArgvs ws)"

definition addToQueryBuf :: "string \<Rightarrow> fly_client \<Rightarrow> fly_client" where
  "addToQueryBuf str c = c\<lparr>queryBuf := queryBuf c @ str\<rparr>"

text \<open>\<open>substr(begin)\<close> throws when \<open>begin\<close> is behind the end.\<close>

definition trimQueryBuf :: "nat \<Rightarrow> fly_client \<Rightarrow> fly_client res" where
  "trimQueryBuf begin c =
     (if begin > length (queryBuf c) then Fault OutOfBounds else Ret (c\<lparr>queryBuf := drop begin (queryBuf c)\<rparr>))"

section \<open>Output\<close>

definition clearBuf :: "fly_client \<Rightarrow> fly_client" where
  "clearBuf c = c\<lparr>fc_buf := [], sendLen := 0\<rparr>"

definition bufSendOver :: "fly_client \<Rightarrow> bool" where
  "bufSendOver c \<longleftrightarrow> sendLen c = length (fc_buf c)"

definition hasNoPending :: "fly_client \<Rightarrow> bool" where
  "hasNoPending c \<longleftrightarrow> fc_buf c = [] \<and> replies c = []"

definition clearOutputBuffer :: "fly_client \<Rightarrow> fly_client" where
  "clearOutputBuffer c = clearBuf (c\<lparr>replies := []\<rparr>)"

definition replyPopFront :: "fly_client \<Rightarrow> fly_client" where
  "replyPopFront c =
     (let n = replyBytes c - of_nat (length (hd (replies c))); rs = tl (replies c)
      in c\<lparr>replies := rs, replyBytes := (if rs = [] \<and> n \<noteq> 0 then 0 else n)\<rparr>)"

text \<open>The int results are the C++ ones; \<open>s\<close> is the text up to its NUL.\<close>

definition addReplyToBuffer :: "string \<Rightarrow> fly_client \<Rightarrow> fly_client \<times> int" where
  "addReplyToBuffer s c =
     (if has_flag (fc_flags c) CLIENT_CLOSE_AFTER_REPLY then (c, 1)
      else if replies c \<noteq> [] then (c, -1)
      else if FLY_REPLY_CHUNK_BYTES - length (fc_buf c) < length s then (c, -1)
      else (c\<lparr>fc_buf := fc_buf c @ s\<rparr>, 1))"

definition addReplyToReplyList :: "string \<Rightarrow> fly_client \<Rightarrow> fly_client res" where
  "addReplyToReplyList s c =
     (if has_flag (fc_flags c) CLIENT_CLOSE_AFTER_REPLY then Ret c
      else if replies c = [] then Fault EmptyListBack
      else
        let r = last (replies c);
            rs = (if length (c_str r) + length s \<le> PROTO_REPLY_CHUNK_BYTES
                  then butlast (replies c) @ [r @ s] else replies c @ [s])
        in Ret (c\<lparr>replies := rs, replyBytes := replyBytes c + of_nat (length s)\<rparr>))"

text \<open>The bytes still to be sent, in order.\<close>

definition pending_out :: "fly_client \<Rightarrow> string" where
  "pending_out c = drop (sendLen c) (fc_buf c @ concat (replies c))"

text \<open>
  The loop of \<open>writeToClient\<close>: \<open>wr\<close> is what the calls of write return, given their number and the
  bytes offered (a write of no bytes returns 0, and write never returns more than it was offered).
  The results are the client, the bytes written and the last return value.
\<close>

definition write_ret :: "(nat \<Rightarrow> string \<Rightarrow> int) \<Rightarrow> nat \<Rightarrow> string \<Rightarrow> int" where
  "write_ret wr k bs = (if bs = [] then 0 else min (wr k bs) (int (length bs)))"

definition unsent :: "fly_client \<Rightarrow> string" where
  "unsent c = (if fc_buf c \<noteq> [] then drop (sendLen c) (fc_buf c)
     else case replies c of [] \<Rightarrow> [] | r # rs \<Rightarrow> drop (sendLen c) r)"

text \<open>After \<open>n\<close> bytes went out: a buffer or reply that is done is dropped.\<close>

definition advance :: "nat \<Rightarrow> fly_client \<Rightarrow> fly_client" where
  "advance n c =
     (let c = c\<lparr>sendLen := sendLen c + n\<rparr>
      in if fc_buf c \<noteq> [] then (if bufSendOver c then clearBuf c else c)
         else if sendLen c = length (hd (replies c)) then replyPopFront (c\<lparr>sendLen := 0\<rparr>) else c)"

lemma advance_unsent:
  assumes "\<not> hasNoPending c" and "0 < n" and "n \<le> length (unsent c)"
  shows "length (fc_buf (advance n c)) + length (concat (replies (advance n c))) - sendLen (advance n c) <
    length (fc_buf c) + length (concat (replies c)) - sendLen c"
proof (cases "fc_buf c = []")
  case False
  with assms show ?thesis
    by (auto simp: unsent_def advance_def bufSendOver_def clearBuf_def Let_def)
next
  case True
  with assms(1) obtain r rs where r: "replies c = r # rs" by (cases "replies c") (auto simp: hasNoPending_def)
  with True assms show ?thesis
    by (auto simp: unsent_def advance_def replyPopFront_def Let_def)
qed

function send_pending ::
  "(nat \<Rightarrow> string \<Rightarrow> int) \<Rightarrow> nat \<Rightarrow> nat \<Rightarrow> int \<Rightarrow> fly_client \<Rightarrow> fly_client \<times> string \<times> int" where
  "send_pending wr k totalCount onceCount c =
     (if hasNoPending c then (c, [], onceCount)
      else
        let once = write_ret wr k (unsent c) in
        if once \<le> 0 then (c, [], once)
        else
          let n = nat once; out = take n (unsent c); c' = advance n c in
          if totalCount + n > NET_MAX_WRITES_PER_EVENT then (c', out, once)
          else case send_pending wr (Suc k) (totalCount + n) once c' of (c'', out', o') \<Rightarrow> (c'', out @ out', o'))"
  by pat_completeness auto
termination
proof (relation "measure (\<lambda>(wr, k, t, o', c). length (fc_buf c) + length (concat (replies c)) - sendLen c)", goal_cases)
  case (2 wr k t o' c once n out c')
  then have "0 < n" "n \<le> length (unsent c)" by (auto simp: write_ret_def split: if_splits)
  with 2 show ?case using advance_unsent [of c n] by simp
qed simp

declare send_pending.simps [simp del]

lemma send_pending_stop:
  "hasNoPending c \<Longrightarrow> send_pending wr k t o' c = (c, [], o')"
  "\<not> hasNoPending c \<Longrightarrow> write_ret wr k (unsent c) \<le> 0 \<Longrightarrow>
    send_pending wr k t o' c = (c, [], write_ret wr k (unsent c))"
  by (subst send_pending.simps; simp add: Let_def)+

lemma send_pending_go:
  assumes "\<not> hasNoPending c" and "\<not> write_ret wr k (unsent c) \<le> 0" and "n = nat (write_ret wr k (unsent c))"
  shows "t + n > NET_MAX_WRITES_PER_EVENT \<Longrightarrow>
      send_pending wr k t o' c = (advance n c, take n (unsent c), write_ret wr k (unsent c))"
    and "\<not> t + n > NET_MAX_WRITES_PER_EVENT \<Longrightarrow>
      send_pending wr (Suc k) (t + n) (write_ret wr k (unsent c)) (advance n c) = (c2, out2, r2) \<Longrightarrow>
      send_pending wr k t o' c = (c2, take n (unsent c) @ out2, r2)"
  using assms by (subst send_pending.simps; simp add: Let_def)+

section \<open>Subscriptions of a client\<close>

definition getSubscriptionsCount :: "fly_client \<Rightarrow> nat" where
  "getSubscriptionsCount c = length (fc_channels c) + length (fc_patterns c)"

definition addChannel :: "string \<Rightarrow> fly_client \<Rightarrow> fly_client \<times> bool" where
  "addChannel ch c = (if ch \<in> set (fc_channels c) then (c, False) else (c\<lparr>fc_channels := insort ch (fc_channels c)\<rparr>, True))"

definition delChannel :: "string \<Rightarrow> fly_client \<Rightarrow> fly_client \<times> bool" where
  "delChannel ch c =
     (if ch \<in> set (fc_channels c) then (c\<lparr>fc_channels := remove1 ch (fc_channels c)\<rparr>, True) else (c, False))"

definition addPattern :: "string \<Rightarrow> fly_client \<Rightarrow> fly_client" where
  "addPattern p c = c\<lparr>fc_patterns := fc_patterns c @ [p]\<rparr>"

definition delPattern :: "string \<Rightarrow> fly_client \<Rightarrow> fly_client \<times> int" where
  "delPattern p c =
     (if p \<in> set (fc_patterns c) then (c\<lparr>fc_patterns := remove1 p (fc_patterns c)\<rparr>, 1) else (c, 0))"

section \<open>The output side is a queue of bytes\<close>

text \<open>The offset stays within the buffer or reply at the front.\<close>

definition out_inv :: "fly_client \<Rightarrow> bool" where
  "out_inv c \<longleftrightarrow> length (fc_buf c) \<le> FLY_REPLY_CHUNK_BYTES \<and>
     (if fc_buf c \<noteq> [] then sendLen c < length (fc_buf c)
      else case replies c of [] \<Rightarrow> True | r # rs \<Rightarrow> sendLen c \<le> length r \<and> (r \<noteq> [] \<longrightarrow> sendLen c < length r)) \<and>
     (replies c = [] \<and> fc_buf c = [] \<longrightarrow> sendLen c = 0)"

lemma unsent_prefix:
  assumes "out_inv c" and "\<not> hasNoPending c"
  shows "\<exists>rest. pending_out c = unsent c @ rest"
  using assms by (cases "replies c") (auto simp: pending_out_def unsent_def out_inv_def hasNoPending_def)

lemma advance_ok:
  assumes "out_inv c" and "\<not> hasNoPending c" and "0 < n" and "n \<le> length (unsent c)"
  shows "out_inv (advance n c) \<and> pending_out (advance n c) = drop n (pending_out c) \<and>
    fc_flags (advance n c) = fc_flags c \<and> fc_fd (advance n c) = fc_fd c"
proof (cases "fc_buf c = []")
  case False
  then have len: "sendLen c + n \<le> length (fc_buf c)" "sendLen c < length (fc_buf c)"
    using assms(1,4) by (auto simp: unsent_def out_inv_def)
  show ?thesis
  proof (cases "sendLen c + n = length (fc_buf c)")
    case True
    then have "advance n c = c\<lparr>fc_buf := [], sendLen := 0\<rparr>"
      using False by (simp add: advance_def bufSendOver_def clearBuf_def Let_def)
    moreover have "drop n (pending_out c) = concat (replies c)"
      using True by (simp add: pending_out_def add.commute)
    ultimately show ?thesis by (simp add: out_inv_def pending_out_def split: list.split)
  next
    case F: False
    then have "advance n c = c\<lparr>sendLen := sendLen c + n\<rparr>"
      using False by (simp add: advance_def bufSendOver_def Let_def)
    then show ?thesis using F len assms(1) False by (simp add: out_inv_def pending_out_def add.commute)
  qed
next
  case True
  with assms(2) obtain r rs where r: "replies c = r # rs" by (cases "replies c") (auto simp: hasNoPending_def)
  then have len: "sendLen c + n \<le> length r" using assms(3,4) True by (auto simp: unsent_def)
  show ?thesis
  proof (cases "sendLen c + n = length r")
    case fin: True
    then have "fc_buf (advance n c) = []" "replies (advance n c) = rs" "sendLen (advance n c) = 0"
      "fc_flags (advance n c) = fc_flags c" "fc_fd (advance n c) = fc_fd c"
      using True r by (simp_all add: advance_def replyPopFront_def Let_def)
    moreover have "drop n (pending_out c) = concat rs"
      using fin True r by (simp add: pending_out_def add.commute)
    ultimately show ?thesis by (simp add: out_inv_def pending_out_def split: list.split)
  next
    case False
    then have "advance n c = c\<lparr>sendLen := sendLen c + n\<rparr>"
      using True r by (simp add: advance_def Let_def)
    then show ?thesis using False len True r by (auto simp: out_inv_def pending_out_def add.commute)
  qed
qed

lemma send_pending_ok:
  assumes "send_pending wr k t o' c = (c', out, r)" and "out_inv c"
  shows "pending_out c = out @ pending_out c' \<and> out_inv c' \<and> fc_flags c' = fc_flags c \<and> fc_fd c' = fc_fd c"
  using assms
proof (induction wr k t o' c arbitrary: out rule: send_pending.induct)
  case (1 wr k t o' c)
  let ?once = "write_ret wr k (unsent c)"
  show ?case
  proof (cases "hasNoPending c \<or> ?once \<le> 0")
    case True
    then show ?thesis using "1.prems" send_pending_stop [of c wr k t o'] by (cases "hasNoPending c") auto
  next
    case False
    let ?n = "nat ?once"
    have go: "\<not> hasNoPending c" "\<not> ?once \<le> 0" using False by auto
    have n: "0 < ?n" "?n \<le> length (unsent c)" using go by (auto simp: write_ret_def split: if_splits)
    have a: "out_inv (advance ?n c)" "pending_out (advance ?n c) = drop ?n (pending_out c)"
      "fc_flags (advance ?n c) = fc_flags c" "fc_fd (advance ?n c) = fc_fd c"
      using advance_ok [OF "1.prems"(2) go(1) n] by auto
    have split: "pending_out c = take ?n (unsent c) @ drop ?n (pending_out c)"
      using unsent_prefix [OF "1.prems"(2) go(1)] n(2) by auto
    show ?thesis
    proof (cases "t + ?n > NET_MAX_WRITES_PER_EVENT")
      case True
      then have "c' = advance ?n c" "out = take ?n (unsent c)"
        using "1.prems"(1) send_pending_go(1) [OF go HOL.refl True, of o'] by auto
      then show ?thesis using a split by simp
    next
      case F: False
      obtain c2 out2 r2 where s: "send_pending wr (Suc k) (t + ?n) ?once (advance ?n c) = (c2, out2, r2)"
        using prod_cases3 by blast
      then have e: "c' = c2" "out = take ?n (unsent c) @ out2" "r = r2"
        using "1.prems"(1) send_pending_go(2) [OF go HOL.refl F s, of o'] by auto
      have s': "send_pending wr (Suc k) (t + ?n) ?once (advance ?n c) = (c', out2, r)" using s e by simp
      note "1.IH" [OF go(1) HOL.refl go(2) HOL.refl HOL.refl HOL.refl F s' a(1)]
      then show ?thesis using e a split by simp
    qed
  qed
qed

text \<open>A willing peer gets everything that fits one round.\<close>

lemma pending_empty:
  assumes "out_inv c" and "\<forall>r \<in> set (replies c). r \<noteq> []" and "pending_out c = []"
  shows "hasNoPending c"
proof (rule ccontr)
  assume np: "\<not> hasNoPending c"
  then have "unsent c \<noteq> []"
    using assms(1,2) by (cases "replies c") (auto simp: unsent_def out_inv_def hasNoPending_def)
  then show False using unsent_prefix [OF assms(1) np] assms(3) by auto
qed

lemma send_pending_all:
  assumes "out_inv c" and "\<forall>k bs. wr k bs = int (length bs)" and "\<forall>r \<in> set (replies c). r \<noteq> []"
    and "t + length (pending_out c) \<le> NET_MAX_WRITES_PER_EVENT"
  shows "\<exists>c' r. send_pending wr k t o' c = (c', pending_out c, r) \<and> hasNoPending c' \<and> (pending_out c \<noteq> [] \<longrightarrow> r > 0)"
  using assms
proof (induction wr k t o' c rule: send_pending.induct)
  case (1 wr k t o' c)
  let ?once = "write_ret wr k (unsent c)"
  show ?case
  proof (cases "hasNoPending c")
    case True
    then show ?thesis using "1.prems"(1) send_pending_stop(1) [OF True]
      by (auto simp: pending_out_def hasNoPending_def)
  next
    case False
    have ne: "unsent c \<noteq> []"
      using "1.prems"(1,3) False by (cases "replies c") (auto simp: unsent_def out_inv_def hasNoPending_def)
    then have once: "?once = int (length (unsent c))" using "1.prems"(2) by (simp add: write_ret_def)
    then have n: "0 < nat ?once" "nat ?once \<le> length (unsent c)" "nat ?once = length (unsent c)" using ne by simp_all
    have a: "out_inv (advance (nat ?once) c)" "pending_out (advance (nat ?once) c) = drop (nat ?once) (pending_out c)"
      using advance_ok [OF "1.prems"(1) False n(1,2)] by auto
    obtain rest where rest: "pending_out c = unsent c @ rest" using unsent_prefix [OF "1.prems"(1) False] by blast
    have F: "\<not> t + nat ?once > NET_MAX_WRITES_PER_EVENT" using "1.prems"(4) rest n(3) by simp
    have ner: "\<forall>r \<in> set (replies (advance (nat ?once) c)). r \<noteq> []"
      using "1.prems"(3) by (cases "replies c") (auto simp: advance_def replyPopFront_def clearBuf_def Let_def)
    have pos: "\<not> ?once \<le> 0" using n(1) by simp
    have room: "t + nat ?once + length (pending_out (advance (nat ?once) c)) \<le> NET_MAX_WRITES_PER_EVENT"
      using "1.prems"(4) a(2) rest n(3) by simp
    obtain c' r where c': "send_pending wr (Suc k) (t + nat ?once) ?once (advance (nat ?once) c) =
        (c', pending_out (advance (nat ?once) c), r)" "hasNoPending c'"
      "pending_out (advance (nat ?once) c) \<noteq> [] \<longrightarrow> r > 0"
      using "1.IH" [OF False HOL.refl pos HOL.refl HOL.refl HOL.refl F a(1) "1.prems"(2) ner room] by blast
    have "r > 0"
    proof (cases "pending_out (advance (nat ?once) c) = []")
      case False
      then show ?thesis using c'(3) by simp
    next
      case empty: True
      then have "hasNoPending (advance (nat ?once) c)" by (rule pending_empty [OF a(1) ner])
      then show ?thesis using c'(1) n(1) send_pending_stop(1) by fastforce
    qed
    moreover have "send_pending wr k t o' c = (c', take (nat ?once) (unsent c) @ pending_out (advance (nat ?once) c), r)"
      using send_pending_go(2) [OF False pos HOL.refl F c'(1)] .
    ultimately show ?thesis using c'(2) a(2) rest n(3) by auto
  qed
qed

text \<open>A reply joins the end of the queue.\<close>

lemma buffer_append:
  assumes "out_inv c" and "\<not> has_flag (fc_flags c) CLIENT_CLOSE_AFTER_REPLY" and "s \<noteq> []"
    and "addReplyToBuffer s c = (c', 1)"
  shows "pending_out c' = pending_out c @ s \<and> out_inv c'"
proof -
  have "c' = c\<lparr>fc_buf := fc_buf c @ s\<rparr>" "replies c = []" "FLY_REPLY_CHUNK_BYTES - length (fc_buf c) \<ge> length s"
    using assms(2,4) by (auto simp: addReplyToBuffer_def split: if_splits)
  then show ?thesis
    using assms(1,3) by (cases "fc_buf c = []") (auto simp: out_inv_def pending_out_def)
qed

lemma list_append:
  assumes "out_inv c" and "\<not> has_flag (fc_flags c) CLIENT_CLOSE_AFTER_REPLY" and "s \<noteq> []"
    and "addReplyToReplyList s c = Ret c'"
  shows "pending_out c' = pending_out c @ s \<and> out_inv c'"
proof -
  have ne: "replies c \<noteq> []" using assms(2,4) by (auto simp: addReplyToReplyList_def split: if_splits)
  then have len: "sendLen c \<le> length (fc_buf c @ concat (replies c))"
    using assms(1) by (cases "replies c") (auto simp: out_inv_def split: if_splits)
  obtain rs where rs: "fc_buf c' = fc_buf c" "sendLen c' = sendLen c" "replies c' = rs"
    "rs = butlast (replies c) @ [last (replies c) @ s] \<or> rs = replies c @ [s]"
    using assms(2,4) ne by (auto simp: addReplyToReplyList_def Let_def split: if_splits)
  have "concat (butlast (replies c) @ [last (replies c) @ s]) = concat (replies c) @ s"
    using arg_cong [OF append_butlast_last_id [OF ne], of concat] by simp
  then have cs: "concat rs = concat (replies c) @ s" using rs(4) by auto
  have "out_inv c'"
  proof -
    obtain r rest where r: "replies c = r # rest" using ne by (cases "replies c") auto
    then have "\<exists>r' rest'. rs = r' # rest' \<and> (r' = r \<or> (r' = r @ s \<and> rest = []))"
      using rs(4) by (cases rest) auto
    then show ?thesis using assms(1,3) rs r by (auto simp: out_inv_def split: if_splits)
  qed
  moreover have "pending_out c' = pending_out c @ s"
    using rs(1,2,3) cs len by (simp add: pending_out_def)
  ultimately show ?thesis by simp
qed

section \<open>Properties\<close>

text \<open>
  C1 The output side of a client is a queue: a reply accepted by the fixed buffer or by the reply list
  goes behind everything still to be sent, and whatever the peer accepts of each write, in any
  portions, the bytes sent are exactly the front of the queue and the rest stays, in order.
\<close>

theorem client_output_fifo:
  assumes "out_inv c" and "\<not> has_flag (fc_flags c) CLIENT_CLOSE_AFTER_REPLY" and "s \<noteq> []"
    and "addReplyToBuffer s c = (c1, 1) \<or> addReplyToReplyList s c = Ret c1"
    and "send_pending wr k t o' c1 = (c2, out, r)"
  shows "pending_out c @ s = out @ pending_out c2 \<and> out_inv c2"
proof -
  have "pending_out c1 = pending_out c @ s \<and> out_inv c1"
    using assms(4) buffer_append [OF assms(1-3)] list_append [OF assms(1-3)] by blast
  then show ?thesis using send_pending_ok [OF assms(5)] by auto
qed

theorem client_output_fifo_witness:
  "\<exists>c2. send_pending (\<lambda>k bs. if k < 2 then 1 else -1) 0 0 0 ((new_client 7 0)\<lparr>fc_buf := ''+OK''\<rparr>) =
     (c2, ''+O'', -1) \<and> ''+'' @ ''OK'' = ''+O'' @ pending_out c2"
proof -
  let ?c1 = "(new_client 7 0)\<lparr>fc_buf := ''+OK''\<rparr>"
  let ?wr = "\<lambda>k bs. if k < (2::nat) then 1 else - 1 :: int"
  have s: "send_pending ?wr 0 0 0 ?c1 = (?c1\<lparr>sendLen := 2\<rparr>, ''+O'', -1)"
    by (simp add: send_pending.simps new_client_def hasNoPending_def unsent_def write_ret_def advance_def
        bufSendOver_def NET_MAX_WRITES_PER_EVENT_def Let_def)
  have "pending_out ((new_client 7 0)\<lparr>fc_buf := ''+''\<rparr>) @ ''OK'' = ''+O'' @ pending_out (?c1\<lparr>sendLen := 2\<rparr>) \<and>
      out_inv (?c1\<lparr>sendLen := 2\<rparr>)"
    by (rule client_output_fifo [OF _ _ _ _ s])
      (simp_all add: out_inv_def new_client_def addReplyToBuffer_def FLY_REPLY_CHUNK_BYTES_def has_flag_def)
  then show ?thesis using s by (simp add: pending_out_def new_client_def)
qed

end
