(* ===== verification/EventLoop.thy ===== *)
theory EventLoop imports Prelude begin

text \<open>
  The event loop (src/src/event): \<open>FileEvent\<close>, \<open>TimeEvent\<close>, the select wrapper \<open>PollState\<close>
  and \<open>EventLoop\<close>.

  File procs and time procs are known by a value of type \<open>'p\<close>; what running one does is the
  argument \<open>run\<close> of the operations that call it, which takes the loop together with the rest of the
  program (\<open>'w\<close>). A proc pointer that was never set is \<open>None\<close>. Time procs do not touch the loop.
  \<open>select\<close> is an argument: its return value and the two sets it leaves. File descriptors and times
  are ints, event masks are flag words.
\<close>

section \<open>File events\<close>

definition ES_NONE :: flags where "ES_NONE = 0"
definition ES_READABLE :: flags where "ES_READABLE = 1"
definition ES_WRITABLE :: flags where "ES_WRITABLE = 2"
definition EVENT_FILE_EVENTS :: flags where "EVENT_FILE_EVENTS = 1"
definition EVENT_TIME_EVENTS :: flags where "EVENT_TIME_EVENTS = 2"
definition EVENT_ALL_EVENTS :: flags where "EVENT_ALL_EVENTS = EVENT_FILE_EVENTS OR EVENT_TIME_EVENTS"
definition EVENT_DONT_WAIT :: flags where "EVENT_DONT_WAIT = 4"
definition EVENT_CALL_AFTER_SLEEP :: flags where "EVENT_CALL_AFTER_SLEEP = 8"

text \<open>The capacity of an fd_set; a larger descriptor writes behind it.\<close>

definition FD_SETSIZE :: int where "FD_SETSIZE = 1024"

record 'p file_event =
  fe_fd :: int
  fe_mask :: flags
  fe_privdata :: "nat option"
  rfileProc :: "'p option"
  wfileProc :: "'p option"

definition addFileProc :: "flags \<Rightarrow> 'p \<Rightarrow> nat option \<Rightarrow> 'p file_event \<Rightarrow> 'p file_event" where
  "addFileProc m proc privdata e =
     e\<lparr>fe_mask := fe_mask e OR m,
       rfileProc := (if has_flag m ES_READABLE then Some proc else rfileProc e),
       wfileProc := (if has_flag m ES_WRITABLE then Some proc else wfileProc e),
       fe_privdata := privdata\<rparr>"

definition delFileProc :: "flags \<Rightarrow> 'p file_event \<Rightarrow> 'p file_event" where
  "delFileProc m e = e\<lparr>fe_mask := fe_mask e AND NOT m\<rparr>"

definition noneMask :: "'p file_event \<Rightarrow> bool" where
  "noneMask e \<longleftrightarrow> ES_NONE = fe_mask e"

section \<open>Time events\<close>

record 'p time_event =
  te_id :: "64 word"
  te_when :: int
  timeProc :: 'p
  finalizerProc :: "'p option"
  te_clientData :: "nat option"

section \<open>The loop\<close>

record 'p event_loop =
  maxfd :: int
  setSize :: int
  timeEventNextId :: "64 word"
  lastTime :: int
  fileEvents :: "'p file_event list"
  timeEvents :: "'p time_event list"
  stopFlag :: bool
  rfds :: "int set"
  wfds :: "int set"

text \<open>\<open>raw\<close> is the memory a default-constructed \<open>FileEvent\<close> is built in: its mask is not set.\<close>

definition new_loop :: "(nat \<Rightarrow> 'p file_event) \<Rightarrow> int \<Rightarrow> nat \<Rightarrow> 'p event_loop" where
  "new_loop raw nowt n =
     \<lparr>maxfd = -1, setSize = int n, timeEventNextId = 0, lastTime = nowt,
      fileEvents = map (\<lambda>i. (raw i)\<lparr>fe_fd := int i\<rparr>) [0..<n], timeEvents = [], stopFlag = False,
      rfds = {}, wfds = {}\<rparr>"

definition event_at :: "int \<Rightarrow> 'p event_loop \<Rightarrow> 'p file_event res" where
  "event_at fd l =
     (if 0 \<le> fd \<and> nat fd < length (fileEvents l) then Ret (fileEvents l ! nat fd) else Fault OutOfBounds)"

definition set_event :: "int \<Rightarrow> 'p file_event \<Rightarrow> 'p event_loop \<Rightarrow> 'p event_loop" where
  "set_event fd e l = l\<lparr>fileEvents := (fileEvents l)[nat fd := e]\<rparr>"

subsection \<open>PollState\<close>

definition poll_add :: "int \<Rightarrow> flags \<Rightarrow> 'p event_loop \<Rightarrow> 'p event_loop res" where
  "poll_add fd m l =
     (if (has_flag m ES_READABLE \<or> has_flag m ES_WRITABLE) \<and> \<not> (0 \<le> fd \<and> fd < FD_SETSIZE)
      then Fault OutOfBounds
      else Ret (l\<lparr>rfds := (if has_flag m ES_READABLE then insert fd (rfds l) else rfds l),
                  wfds := (if has_flag m ES_WRITABLE then insert fd (wfds l) else wfds l)\<rparr>))"

definition poll_del :: "int \<Rightarrow> flags \<Rightarrow> 'p event_loop \<Rightarrow> 'p event_loop res" where
  "poll_del fd m l =
     (if (has_flag m ES_READABLE \<or> has_flag m ES_WRITABLE) \<and> \<not> (0 \<le> fd \<and> fd < FD_SETSIZE)
      then Fault OutOfBounds
      else Ret (l\<lparr>rfds := (if has_flag m ES_READABLE then rfds l - {fd} else rfds l),
                  wfds := (if has_flag m ES_WRITABLE then wfds l - {fd} else wfds l)\<rparr>))"

subsection \<open>File events of the loop\<close>

definition createFileEvent ::
  "int \<Rightarrow> flags \<Rightarrow> 'p \<Rightarrow> nat option \<Rightarrow> 'p event_loop \<Rightarrow> ('p event_loop \<times> int) res" where
  "createFileEvent fd m proc privdata l =
     (if fd \<ge> setSize l then Ret (l, -1)
      else res_bind (event_at fd l) (\<lambda>e.
           res_bind (poll_add fd m (set_event fd (addFileProc m proc privdata e) l)) (\<lambda>l.
             Ret (if maxfd l < fd then l\<lparr>maxfd := fd\<rparr> else l, 1))))"

text \<open>The largest registered descriptor below a bound.\<close>

fun last_used :: "'p file_event list \<Rightarrow> nat \<Rightarrow> nat option" where
  "last_used es 0 = None"
| "last_used es (Suc i) = (if \<not> noneMask (es ! i) then Some i else last_used es i)"

definition deleteFileEvent :: "int \<Rightarrow> flags \<Rightarrow> 'p event_loop \<Rightarrow> ('p event_loop \<times> int) res" where
  "deleteFileEvent fd m l =
     (if fd > setSize l then Ret (l, -1)
      else res_bind (event_at fd l) (\<lambda>e.
        if ES_NONE = fe_mask e then Ret (l, -1)
        else
          let e = delFileProc m e in
          res_bind (poll_del fd m (set_event fd e l)) (\<lambda>l.
            Ret (if fd = maxfd l \<and> noneMask e
                 then (case last_used (fileEvents l) (nat (maxfd l)) of
                         None \<Rightarrow> l | Some i \<Rightarrow> l\<lparr>maxfd := int i\<rparr>)
                 else l, 1))))"

text \<open>\<open>deleteWriteFileEvent\<close> and \<open>deleteReadFileEvent\<close> have no return.\<close>

definition deleteWriteFileEvent :: "int \<Rightarrow> 'p event_loop \<Rightarrow> ('p event_loop \<times> int) res" where
  "deleteWriteFileEvent fd l = res_bind (deleteFileEvent fd ES_WRITABLE l) (\<lambda>_. Fault MissingReturn)"

definition deleteReadFileEvent :: "int \<Rightarrow> 'p event_loop \<Rightarrow> ('p event_loop \<times> int) res" where
  "deleteReadFileEvent fd l = res_bind (deleteFileEvent fd ES_READABLE l) (\<lambda>_. Fault MissingReturn)"

text \<open>The loop of \<open>resizeSetSize\<close> clears entry 0 once per old entry; new entries are \<open>raw\<close>.\<close>

definition resizeSetSize :: "(nat \<Rightarrow> 'p file_event) \<Rightarrow> nat \<Rightarrow> 'p event_loop \<Rightarrow> ('p event_loop \<times> int) res" where
  "resizeSetSize raw n l =
     (if int n = setSize l then Ret (l, 1)
      else if maxfd l > int n then Ret (l, -1)
      else
        let es = take n (fileEvents l) @ map raw [length (fileEvents l)..<n] in
        if setSize l > 0 \<and> es = [] then Fault OutOfBounds
        else Ret (l\<lparr>fileEvents := (if setSize l > 0 then es[0 := (es ! 0)\<lparr>fe_mask := ES_NONE\<rparr>] else es),
                    setSize := int n\<rparr>, 1))"

definition getFileEvents :: "int \<Rightarrow> 'p event_loop \<Rightarrow> flags res" where
  "getFileEvents fd l =
     (if fd > setSize l then Ret (- 1)
      else res_bind (event_at fd l) (\<lambda>e. Ret (fe_mask e)))"

definition el_stop :: "'p event_loop \<Rightarrow> 'p event_loop" where
  "el_stop l = l\<lparr>stopFlag := True\<rparr>"

subsection \<open>Polling\<close>

definition fired_mask :: "flags \<Rightarrow> bool \<Rightarrow> bool \<Rightarrow> flags" where
  "fired_mask eventMask r w =
     (if has_flag eventMask ES_READABLE \<and> r then ES_READABLE else ES_NONE) OR
     (if has_flag eventMask ES_WRITABLE \<and> w then ES_WRITABLE else ES_NONE)"

fun poll_loop :: "int set \<Rightarrow> int set \<Rightarrow> 'p event_loop \<Rightarrow> int list \<Rightarrow> (int \<times> flags) list res" where
  "poll_loop rs ws l [] = Ret []"
| "poll_loop rs ws l (i # is) =
     res_bind (getFileEvents i l) (\<lambda>em.
     res_bind (poll_loop rs ws l is) (\<lambda>fs.
       let m = fired_mask em (i \<in> rs) (i \<in> ws)
       in Ret (if m = ES_NONE then fs else (i, m) # fs)))"

definition poll :: "int \<times> int set \<times> int set \<Rightarrow> 'p event_loop \<Rightarrow> (int \<times> flags) list res" where
  "poll select l =
     (case select of (retval, rs, ws) \<Rightarrow>
        if retval > 0 then poll_loop rs ws l [0..maxfd l] else Ret [])"

text \<open>
  The timeout passed to select as seconds and microseconds; \<open>None\<close> waits without limit.
\<close>

definition poll_timeout :: "flags \<Rightarrow> int \<Rightarrow> 'p event_loop \<Rightarrow> (int \<times> int) option" where
  "poll_timeout fl nowt l =
     (case timeEvents l of
        e # es \<Rightarrow> Some (if te_when e > nowt then ((te_when e - nowt) div 1000, (te_when e - nowt) mod 1000)
                        else (0, 0))
      | [] \<Rightarrow> if has_flag fl EVENT_DONT_WAIT then Some (0, 0) else None)"

text \<open>A call of a proc through a pointer that may never have been set.\<close>

definition call_proc ::
  "('p \<Rightarrow> int \<Rightarrow> nat option \<Rightarrow> flags \<Rightarrow> 's \<Rightarrow> 's res) \<Rightarrow> 'p option \<Rightarrow> int \<Rightarrow> nat option \<Rightarrow> flags \<Rightarrow> 's \<Rightarrow> 's res" where
  "call_proc run p fd d m s = (case p of None \<Rightarrow> Fault UninitRead | Some f \<Rightarrow> run f fd d m s)"

text \<open>
  \<open>FileEvent::process\<close>. The read proc can change the event; the write proc is read afterwards.
\<close>

definition fe_process ::
  "('p \<Rightarrow> int \<Rightarrow> nat option \<Rightarrow> flags \<Rightarrow> 'p event_loop \<times> 'w \<Rightarrow> ('p event_loop \<times> 'w) res) \<Rightarrow> int \<Rightarrow> flags \<Rightarrow>
   'p event_loop \<times> 'w \<Rightarrow> ('p event_loop \<times> 'w) res" where
  "fe_process run fd m s =
     res_bind (event_at fd (fst s)) (\<lambda>e.
     res_bind (if has_flag m ES_READABLE then call_proc run (rfileProc e) (fe_fd e) (fe_privdata e) m s
               else Ret s) (\<lambda>s.
       if has_flag m ES_WRITABLE then
         res_bind (event_at fd (fst s)) (\<lambda>e.
           if wfileProc e \<noteq> rfileProc e \<or> \<not> has_flag m ES_READABLE
           then call_proc run (wfileProc e) (fe_fd e) (fe_privdata e) m s else Ret s)
       else Ret s))"

fun process_fired ::
  "('p \<Rightarrow> int \<Rightarrow> nat option \<Rightarrow> flags \<Rightarrow> 'p event_loop \<times> 'w \<Rightarrow> ('p event_loop \<times> 'w) res) \<Rightarrow>
   (int \<times> flags) list \<Rightarrow> 'p event_loop \<times> 'w \<Rightarrow> ('p event_loop \<times> 'w) res" where
  "process_fired run [] s = Ret s"
| "process_fired run ((fd, m) # fs) s = res_bind (fe_process run fd m s) (process_fired run fs)"

subsection \<open>Timers\<close>

definition createTimeEvent ::
  "int \<Rightarrow> 'p \<Rightarrow> nat option \<Rightarrow> 'p option \<Rightarrow> 'p event_loop \<Rightarrow> 'p event_loop" where
  "createTimeEvent milliseconds proc clientData finalizer l =
     l\<lparr>timeEvents := sort_key te_when
         (\<lparr>te_id = timeEventNextId l, te_when = milliseconds, timeProc = proc, finalizerProc = finalizer,
           te_clientData = clientData\<rparr> # timeEvents l),
       timeEventNextId := timeEventNextId l + 1\<rparr>"

text \<open>The finalizer of the first event with the id runs, then the event goes.\<close>

fun delete_time ::
  "('p \<Rightarrow> nat option \<Rightarrow> 'w \<Rightarrow> 'w res) \<Rightarrow> 64 word \<Rightarrow> 'p time_event list \<Rightarrow> 'w \<Rightarrow>
   ('p time_event list \<times> 'w \<times> int) res" where
  "delete_time fin i [] w = Ret ([], w, -1)"
| "delete_time fin i (e # es) w =
     (if te_id e = i
      then res_bind (case finalizerProc e of None \<Rightarrow> Ret w | Some f \<Rightarrow> fin f (te_clientData e) w) (\<lambda>w.
             Ret (es, w, 1))
      else res_bind (delete_time fin i es w) (\<lambda>(es, w, r). Ret (e # es, w, r)))"

definition deleteTimeEvent ::
  "('p \<Rightarrow> nat option \<Rightarrow> 'w \<Rightarrow> 'w res) \<Rightarrow> 64 word \<Rightarrow> 'p event_loop \<times> 'w \<Rightarrow> (('p event_loop \<times> 'w) \<times> int) res" where
  "deleteTimeEvent fin i s =
     res_bind (delete_time fin i (timeEvents (fst s)) (snd s)) (\<lambda>(es, w, r).
       Ret (((fst s)\<lparr>timeEvents := es\<rparr>, w), r))"

text \<open>
  One pass over the timers. A timer that is done is deleted while the iterator stands on it, and the
  iterator is advanced afterwards.
\<close>

fun time_loop ::
  "('p \<Rightarrow> 64 word \<Rightarrow> nat option \<Rightarrow> 'w \<Rightarrow> ('w \<times> int) res) \<Rightarrow> int \<Rightarrow> 'p time_event list \<Rightarrow> 'w \<Rightarrow>
   ('p time_event list \<times> 'w \<times> nat \<times> bool) res" where
  "time_loop run nowt [] w = Ret ([], w, 0, False)"
| "time_loop run nowt (e # es) w =
     (if te_when e < nowt then
        res_bind (run (timeProc e) (te_id e) (te_clientData e) w) (\<lambda>(w, ret).
          if ret > 0
          then res_bind (time_loop run nowt es w) (\<lambda>(es, w, n, b).
                 Ret (e\<lparr>te_when := nowt + ret\<rparr> # es, w, Suc n, True))
          else Fault UseAfterFree)
      else res_bind (time_loop run nowt es w) (\<lambda>(es, w, n, b). Ret (e # es, w, n, b)))"

definition processTimeEvents ::
  "('p \<Rightarrow> 64 word \<Rightarrow> nat option \<Rightarrow> 'w \<Rightarrow> ('w \<times> int) res) \<Rightarrow> int \<Rightarrow> 'p event_loop \<times> 'w \<Rightarrow>
   (('p event_loop \<times> 'w) \<times> nat) res" where
  "processTimeEvents run nowt s =
     (case s of (l, w) \<Rightarrow>
        let es = (if nowt < lastTime l then map (\<lambda>e. e\<lparr>te_when := 0\<rparr>) (timeEvents l) else timeEvents l) in
        res_bind (time_loop run nowt es w) (\<lambda>(es, w, n, needSort).
          Ret ((l\<lparr>timeEvents := (if needSort then sort_key te_when es else es)\<rparr>, w), n)))"

subsection \<open>A round of the loop\<close>

definition processEvents ::
  "('p \<Rightarrow> int \<Rightarrow> nat option \<Rightarrow> flags \<Rightarrow> 'p event_loop \<times> 'w \<Rightarrow> ('p event_loop \<times> 'w) res) \<Rightarrow>
   ('p \<Rightarrow> 64 word \<Rightarrow> nat option \<Rightarrow> 'w \<Rightarrow> ('w \<times> int) res) \<Rightarrow>
   int \<times> int set \<times> int set \<Rightarrow> int \<Rightarrow> flags \<Rightarrow> 'p event_loop \<times> 'w \<Rightarrow> (('p event_loop \<times> 'w) \<times> nat) res" where
  "processEvents run runt select nowt fl s =
     (if \<not> has_flag fl EVENT_FILE_EVENTS \<and> \<not> has_flag fl EVENT_TIME_EVENTS then Ret (s, 0)
      else
        res_bind
          (if maxfd (fst s) \<noteq> -1 \<or> has_flag fl EVENT_TIME_EVENTS \<and> \<not> has_flag fl EVENT_DONT_WAIT
           then res_bind (poll select (fst s)) (\<lambda>fs.
                  res_bind (process_fired run fs s) (\<lambda>s. Ret (s, length fs)))
           else Ret (s, 0)) (\<lambda>(s, n).
        if has_flag fl EVENT_TIME_EVENTS
        then res_bind (processTimeEvents runt nowt s) (\<lambda>(s, k). Ret (s, n + k))
        else Ret (s, n)))"

text \<open>
  \<open>eventMain\<close>, for a bounded number of rounds: \<open>before\<close> is the before-sleep proc, \<open>env i\<close> the
  outcome of select and the clock in round \<open>i\<close>. \<open>None\<close> when the rounds run out before the loop is
  stopped.
\<close>

fun event_rounds ::
  "('p \<Rightarrow> int \<Rightarrow> nat option \<Rightarrow> flags \<Rightarrow> 'p event_loop \<times> 'w \<Rightarrow> ('p event_loop \<times> 'w) res) \<Rightarrow>
   ('p \<Rightarrow> 64 word \<Rightarrow> nat option \<Rightarrow> 'w \<Rightarrow> ('w \<times> int) res) \<Rightarrow>
   ('p event_loop \<times> 'w \<Rightarrow> ('p event_loop \<times> 'w) res) \<Rightarrow>
   (nat \<Rightarrow> (int \<times> int set \<times> int set) \<times> int) \<Rightarrow> nat \<Rightarrow> nat \<Rightarrow> 'p event_loop \<times> 'w \<Rightarrow>
   ('p event_loop \<times> 'w) option res" where
  "event_rounds run runt before env i n s =
     (if stopFlag (fst s) then Ret (Some s)
      else case n of
        0 \<Rightarrow> Ret None
      | Suc n \<Rightarrow>
          res_bind (before s) (\<lambda>s.
          res_bind (processEvents run runt (fst (env i)) (snd (env i)) (EVENT_ALL_EVENTS OR EVENT_CALL_AFTER_SLEEP) s)
            (\<lambda>(s, k). event_rounds run runt before env (Suc i) n s)))"

declare event_rounds.simps [simp del]

definition eventMain ::
  "('p \<Rightarrow> int \<Rightarrow> nat option \<Rightarrow> flags \<Rightarrow> 'p event_loop \<times> 'w \<Rightarrow> ('p event_loop \<times> 'w) res) \<Rightarrow>
   ('p \<Rightarrow> 64 word \<Rightarrow> nat option \<Rightarrow> 'w \<Rightarrow> ('w \<times> int) res) \<Rightarrow>
   ('p event_loop \<times> 'w \<Rightarrow> ('p event_loop \<times> 'w) res) \<Rightarrow>
   (nat \<Rightarrow> (int \<times> int set \<times> int set) \<times> int) \<Rightarrow> nat \<Rightarrow> 'p event_loop \<times> 'w \<Rightarrow>
   ('p event_loop \<times> 'w) option res" where
  "eventMain run runt before env n s =
     event_rounds run runt before env 0 n ((fst s)\<lparr>stopFlag := False\<rparr>, snd s)"

section \<open>Event hooks for hiredis contexts\<close>

text \<open>
  src/src/asyncevent: the hooks that hiredis calls on a context's \<open>FlyAsyncEvents\<close>. The procs are
  registered with a null argument.
\<close>

record async_events =
  ae_fd :: int
  ae_reading :: bool
  ae_writing :: bool

datatype async_proc = HandleRead | HandleWrite

definition new_async :: "int \<Rightarrow> async_events" where
  "new_async fd = \<lparr>ae_fd = fd, ae_reading = False, ae_writing = False\<rparr>"

definition addReadEvent :: "async_events \<Rightarrow> async_proc event_loop \<Rightarrow> (async_events \<times> async_proc event_loop) res" where
  "addReadEvent a l =
     (if \<not> ae_reading a
      then res_bind (createFileEvent (ae_fd a) ES_READABLE HandleRead None l) (\<lambda>(l, r).
             Ret (a\<lparr>ae_reading := True\<rparr>, l))
      else Ret (a, l))"

definition deleteReadEvent :: "async_events \<Rightarrow> async_proc event_loop \<Rightarrow> (async_events \<times> async_proc event_loop) res" where
  "deleteReadEvent a l =
     (if ae_reading a
      then res_bind (deleteFileEvent (ae_fd a) ES_READABLE l) (\<lambda>(l, r). Ret (a\<lparr>ae_reading := False\<rparr>, l))
      else Ret (a, l))"

definition addWriteEvent :: "async_events \<Rightarrow> async_proc event_loop \<Rightarrow> (async_events \<times> async_proc event_loop) res" where
  "addWriteEvent a l =
     (if \<not> ae_writing a
      then res_bind (createFileEvent (ae_fd a) ES_WRITABLE HandleWrite None l) (\<lambda>(l, r).
             Ret (a\<lparr>ae_writing := True\<rparr>, l))
      else Ret (a, l))"

definition deleteWriteEvent :: "async_events \<Rightarrow> async_proc event_loop \<Rightarrow> (async_events \<times> async_proc event_loop) res" where
  "deleteWriteEvent a l =
     (if ae_writing a
      then res_bind (deleteFileEvent (ae_fd a) ES_WRITABLE l) (\<lambda>(l, r). Ret (a\<lparr>ae_writing := False\<rparr>, l))
      else Ret (a, l))"

definition ae_cleanup :: "async_events \<Rightarrow> async_proc event_loop \<Rightarrow> (async_events \<times> async_proc event_loop) res" where
  "ae_cleanup a l = res_bind (deleteReadEvent a l) (\<lambda>(a, l). deleteWriteEvent a l)"

text \<open>
  \<open>handleReadEvent\<close> and \<open>handleWriteEvent\<close>: \<open>redis\<close> is hiredis' own reading or writing on a
  context, reached only through a non-null argument.
\<close>

definition run_async ::
  "(async_proc \<Rightarrow> nat \<Rightarrow> async_proc event_loop \<times> 'w \<Rightarrow> (async_proc event_loop \<times> 'w) res) \<Rightarrow>
   async_proc \<Rightarrow> int \<Rightarrow> nat option \<Rightarrow> flags \<Rightarrow> async_proc event_loop \<times> 'w \<Rightarrow> (async_proc event_loop \<times> 'w) res" where
  "run_async redis p fd privdata m s = (case privdata of None \<Rightarrow> Ret s | Some d \<Rightarrow> redis p d s)"

end
