(* ===== verification/InstanceLink.thy ===== *)
theory InstanceLink imports Prelude begin

text \<open>
  The connection record shared by the instances of one sentinel process
  (src/src/instancelink/InstanceLink.cpp) and the address class
  (src/src/flysentinel/SentinelAddr.cpp). A redisAsyncContext is known by a number; freeing
  contexts is hiredis' work, so the operations return which contexts they hand to
  \<open>flyAsyncFree\<close>. Times are 64-bit milliseconds and the clock is an argument.
\<close>

section \<open>Addresses\<close>

record sentinel_addr =
  sa_ip :: string
  sa_port :: int

definition addr_eq :: "sentinel_addr \<Rightarrow> sentinel_addr \<Rightarrow> bool" where
  "addr_eq this sa \<longleftrightarrow> sa_port sa = sa_port this \<and> sa_ip sa = sa_ip this"

definition addr_neq :: "sentinel_addr \<Rightarrow> sentinel_addr \<Rightarrow> bool" where
  "addr_neq this sa \<longleftrightarrow> \<not> addr_eq this sa"

lemma addr_eq_iff: "addr_eq a b \<longleftrightarrow> (a :: sentinel_addr) = b"
  by (auto simp: addr_eq_def)

section \<open>Links\<close>

type_synonym context_id = nat

record instance_link =
  disconnected :: bool
  pendingCommands :: int
  commandContext :: "context_id option"
  pubsubContext :: "context_id option"
  ccConnTime :: "64 word"
  pcConntime :: "64 word"
  pcLastActivity :: "64 word"
  lastAvailTime :: "64 word"
  actPingTime :: "64 word"
  lastPingTime :: "64 word"
  lastPongTime :: "64 word"
  lastReconnTime :: "64 word"

definition new_link :: "64 word \<Rightarrow> instance_link" where
  "new_link nowt =
     \<lparr>disconnected = True, pendingCommands = 0, commandContext = None, pubsubContext = None,
      ccConnTime = 0, pcConntime = 0, pcLastActivity = 0, lastAvailTime = nowt, actPingTime = nowt,
      lastPingTime = 0, lastPongTime = nowt, lastReconnTime = 0\<rparr>"

text \<open>The contexts to free are the second component.\<close>

definition closeConnection ::
  "context_id option \<Rightarrow> instance_link \<Rightarrow> instance_link \<times> context_id list" where
  "closeConnection context l =
     (case context of
        None \<Rightarrow> (l, [])
      | Some c \<Rightarrow>
          let l = (if commandContext l = context
                   then l\<lparr>commandContext := None, pendingCommands := 0\<rparr> else l);
              l = (if pubsubContext l = context then l\<lparr>pubsubContext := None\<rparr> else l)
          in (l\<lparr>disconnected := True\<rparr>, [c]))"

definition il_reset :: "64 word \<Rightarrow> instance_link \<Rightarrow> instance_link \<times> context_id list" where
  "il_reset nowt l =
     (let l = l\<lparr>disconnected := True, pendingCommands := 0, ccConnTime := 0, pcConntime := 0,
               pcLastActivity := 0, lastAvailTime := nowt, actPingTime := nowt, lastPingTime := 0,
               lastPongTime := nowt, lastReconnTime := 0\<rparr>;
          (l, cs) = closeConnection (commandContext l) l;
          (l, ps) = closeConnection (pubsubContext l) l
      in (l, cs @ ps))"

definition decreasePendingCommands :: "instance_link \<Rightarrow> instance_link" where
  "decreasePendingCommands l = l\<lparr>pendingCommands := pendingCommands l - 1\<rparr>"

definition increasePendingCommands :: "instance_link \<Rightarrow> instance_link" where
  "increasePendingCommands l = l\<lparr>pendingCommands := pendingCommands l + 1\<rparr>"

definition connectionError :: "context_id option \<Rightarrow> instance_link \<Rightarrow> instance_link" where
  "connectionError context l =
     (if context = None then l
      else (if commandContext l = context then l\<lparr>commandContext := None\<rparr>
            else l\<lparr>pubsubContext := None\<rparr>)\<lparr>disconnected := True\<rparr>)"

lemma il_reset_ok:
  "fst (il_reset nowt l) = new_link nowt \<and>
   set (snd (il_reset nowt l)) = set_option (commandContext l) \<union> set_option (pubsubContext l) \<and>
   distinct (snd (il_reset nowt l))"
  by (cases "commandContext l"; cases "pubsubContext l")
    (auto simp: il_reset_def closeConnection_def new_link_def Let_def)

section \<open>Properties\<close>

text \<open>
  Resetting a link leaves exactly a new, disconnected link, and frees each of its contexts; a
  context used for both purposes is freed once, since closing it first as the command context also
  forgets it as the publish/subscribe context.
\<close>

lemma link_reset_is_new:
  "fst (il_reset nowt l) = new_link nowt \<and>
   set (snd (il_reset nowt l)) = set_option (commandContext l) \<union> set_option (pubsubContext l) \<and>
   distinct (snd (il_reset nowt l))"
  by (rule il_reset_ok)

end
