(* ===== verification/ScriptJob.thy ===== *)
theory ScriptJob imports Prelude begin

text \<open>
  A notification or reconfiguration script waiting in the queue or running
  (src/src/scriptjob/ScriptJob.cpp). Times are 64-bit milliseconds; the clock is a parameter.
  \<open>argv\<close> is modelled as the strings it stands for: the code stores pointers to std::string
  objects cast to \<open>char*\<close>.
\<close>

definition SENTINEL_SCRIPT_NONE :: flags where "SENTINEL_SCRIPT_NONE = 0"
definition SENTINEL_SCRIPT_RUNNING :: flags where "SENTINEL_SCRIPT_RUNNING = 1"
definition SENTINEL_SCRIPT_RETRY_DELAY :: "64 word" where "SENTINEL_SCRIPT_RETRY_DELAY = 30000"
definition SENTINEL_SCRIPT_MAX_RUNTIME :: "64 word" where "SENTINEL_SCRIPT_MAX_RUNTIME = 60000"

record script_job =
  sj_flags :: flags
  sj_retryCount :: "32 word"
  sj_argv :: "string list"
  sj_startTime :: "64 word"
  sj_pid :: int

definition new_script_job :: "string list \<Rightarrow> script_job" where
  "new_script_job argv =
     \<lparr>sj_flags = SENTINEL_SCRIPT_NONE, sj_retryCount = 0, sj_argv = argv, sj_startTime = 0, sj_pid = 0\<rparr>"

definition isRunning :: "script_job \<Rightarrow> bool" where
  "isRunning j \<longleftrightarrow> has_flag (sj_flags j) SENTINEL_SCRIPT_RUNNING"

definition sj_addFlags :: "flags \<Rightarrow> script_job \<Rightarrow> script_job" where
  "sj_addFlags f j = j\<lparr>sj_flags := sj_flags j OR f\<rparr>"

definition sj_delFlags :: "flags \<Rightarrow> script_job \<Rightarrow> script_job" where
  "sj_delFlags f j = j\<lparr>sj_flags := sj_flags j AND NOT f\<rparr>"

definition addRetryCount :: "script_job \<Rightarrow> script_job" where
  "addRetryCount j = j\<lparr>sj_retryCount := sj_retryCount j + 1\<rparr>"

text \<open>
  The destructor frees the arguments up to the terminating null pointer. They are std::string objects
  from \<open>new\<close>, which \<open>free\<close> must not get, and the slot behind the last one is never written.
\<close>

fun free_args :: "string list \<Rightarrow> unit res" where
  "free_args [] = Fault UninitRead"
| "free_args (a # as) = Fault InvalidFree"

definition destroy_job :: "script_job \<Rightarrow> unit res" where
  "destroy_job j = free_args (sj_argv j)"

text \<open>\<open>while (--count > 0) delay *= 2\<close>: one doubling for every retry after the first.\<close>

fun delay_loop :: "nat \<Rightarrow> 64 word \<Rightarrow> 64 word" where
  "delay_loop 0 delay = delay"
| "delay_loop (Suc n) delay = delay_loop n (delay * 2)"

definition retryDelay :: "script_job \<Rightarrow> 64 word" where
  "retryDelay j = delay_loop (unat (sj_retryCount j) - 1) SENTINEL_SCRIPT_RETRY_DELAY"

definition reschedule :: "64 word \<Rightarrow> script_job \<Rightarrow> script_job" where
  "reschedule mstime j =
     (let j = (sj_delFlags SENTINEL_SCRIPT_RUNNING j)\<lparr>sj_pid := 0\<rparr>
      in j\<lparr>sj_startTime := mstime + retryDelay j\<rparr>)"

lemma destroy_job_faults [simp]: "\<not> is_ret (destroy_job j)"
  by (cases "sj_argv j") (simp_all add: destroy_job_def)

lemma isRunning_new [simp]: "\<not> isRunning (new_script_job argv)"
  by (simp add: isRunning_def new_script_job_def SENTINEL_SCRIPT_NONE_def flag_simps)

lemma isRunning_add [simp]: "isRunning (sj_addFlags SENTINEL_SCRIPT_RUNNING j)"
  by (simp add: isRunning_def sj_addFlags_def flag_simps) (simp add: has_flag_def SENTINEL_SCRIPT_RUNNING_def)

lemma isRunning_del [simp]: "\<not> isRunning (sj_delFlags SENTINEL_SCRIPT_RUNNING j)"
  by (simp add: isRunning_def sj_delFlags_def flag_simps)

lemma isRunning_other [simp]:
  "isRunning (j\<lparr>sj_pid := p\<rparr>) = isRunning j" "isRunning (j\<lparr>sj_startTime := t\<rparr>) = isRunning j"
  "isRunning (addRetryCount j) = isRunning j"
  by (simp_all add: isRunning_def addRetryCount_def)

lemma isRunning_reschedule [simp]: "\<not> isRunning (reschedule t j)"
  by (simp add: reschedule_def Let_def)

lemma delay_loop_mult: "delay_loop n d = d * 2 ^ n"
  by (induction n arbitrary: d) (simp_all add: ac_simps)

lemma retryDelay_unat:
  assumes "0 < sj_retryCount j" and "sj_retryCount j \<le> 40"
  shows "unat (retryDelay j) = 30000 * 2 ^ (unat (sj_retryCount j) - 1)"
proof -
  let ?n = "unat (sj_retryCount j) - 1"
  have "unat (sj_retryCount j) \<le> 40" using assms(2) by (simp add: word_le_nat_alt)
  then have "(2::nat) ^ ?n \<le> 2 ^ 39" by (intro power_increasing) simp_all
  then have "30000 * 2 ^ ?n < (2::nat) ^ 64" by simp
  moreover have "retryDelay j = of_nat (30000 * 2 ^ ?n)"
    by (simp add: retryDelay_def delay_loop_mult SENTINEL_SCRIPT_RETRY_DELAY_def)
  ultimately show ?thesis by (simp only: unat_of_nat take_bit_nat_eq_self) (simp add: take_bit_nat_eq_self)
qed

end
