(* ===== verification/ScriptQueue.thy ===== *)
theory ScriptQueue imports ScriptJob begin

text \<open>
  The script queue of src/src/flysentinel/FlySentinel.cpp: scheduling, starting, collecting,
  killing. Fork results come from a function of the number of forks made so far in the call, the
  results of wait3 from a list of \<open>(returned pid, exit code, signal)\<close>; both are what the
  operating system does. Taking a job off the queue destroys it, which faults: a queue that is full
  refuses the next script that way. The state machine at the end takes the steps in any order.
\<close>

definition SENTINEL_SCRIPT_MAX_ARGS :: nat where "SENTINEL_SCRIPT_MAX_ARGS = 16"
definition SENTINEL_SCRIPT_MAX_QUEUE :: nat where "SENTINEL_SCRIPT_MAX_QUEUE = 256"
definition SENTINEL_SCRIPT_MAX_RUNNING :: int where "SENTINEL_SCRIPT_MAX_RUNNING = 16"
definition SENTINEL_SCRIPT_MAX_RETRY :: "32 word" where "SENTINEL_SCRIPT_MAX_RETRY = 10"

record script_state =
  scriptsQueue :: "script_job list"
  runningScripts :: int

definition script_init :: script_state where
  "script_init = \<lparr>scriptsQueue = [], runningScripts = 0\<rparr>"

text \<open>The first job that is not running leaves a full queue and is destroyed.\<close>

fun drop_first_idle :: "script_job list \<Rightarrow> script_job list res" where
  "drop_first_idle [] = Ret []"
| "drop_first_idle (j # js) =
     (if isRunning j then res_bind (drop_first_idle js) (\<lambda>js'. Ret (j # js'))
      else res_bind (destroy_job j) (\<lambda>_. Ret js))"

definition scheduleScriptExecution ::
  "string \<Rightarrow> string list \<Rightarrow> script_state \<Rightarrow> script_state res" where
  "scheduleScriptExecution path args s =
     (let argv = path # take (SENTINEL_SCRIPT_MAX_ARGS - 1) args;
          q = scriptsQueue s @ [new_script_job argv]
      in res_bind (if length q > SENTINEL_SCRIPT_MAX_QUEUE then drop_first_idle q else Ret q)
           (\<lambda>q'. Ret (s\<lparr>scriptsQueue := q'\<rparr>)))"

fun getScriptListNodeByPid :: "int \<Rightarrow> script_job list \<Rightarrow> script_job option" where
  "getScriptListNodeByPid pid [] = None"
| "getScriptListNodeByPid pid (j # js) =
     (if isRunning j \<and> sj_pid j = pid then Some j else getScriptListNodeByPid pid js)"

text \<open>
  \<open>run_loop n\<close>: \<open>n\<close> forks were made before. In the child (fork returned 0) the loop ends with
  execve or exit; the parent sees -1 or the pid. The events sent here carry no instance, so
  \<open>sendEvent\<close> returns at once.
\<close>

fun run_loop ::
  "64 word \<Rightarrow> (nat \<Rightarrow> int) \<Rightarrow> nat \<Rightarrow> int \<Rightarrow> script_job list \<Rightarrow> script_job list \<times> int" where
  "run_loop nowt fork n running [] = ([], running)"
| "run_loop nowt fork n running (j # js) =
     (if running \<ge> SENTINEL_SCRIPT_MAX_RUNNING then (j # js, running)
      else if isRunning j \<or> sj_startTime j > nowt then
        (let (js', r) = run_loop nowt fork n running js in (j # js', r))
      else
        let j1 = addRetryCount ((sj_addFlags SENTINEL_SCRIPT_RUNNING j)\<lparr>sj_startTime := nowt\<rparr>);
            pid = fork n in
        if pid = -1 then
          (let (js', r) = run_loop nowt fork (Suc n) running js
           in ((sj_delFlags SENTINEL_SCRIPT_RUNNING j1)\<lparr>sj_pid := 0\<rparr> # js', r))
        else if pid = 0 then (j1 # js, running)
        else
          (let (js', r) = run_loop nowt fork (Suc n) (running + 1) js
           in (j1\<lparr>sj_pid := pid\<rparr> # js', r)))"

definition runPendingScripts :: "64 word \<Rightarrow> (nat \<Rightarrow> int) \<Rightarrow> script_state \<Rightarrow> script_state" where
  "runPendingScripts nowt fork s =
     (let (q, r) = run_loop nowt fork 0 (runningScripts s) (scriptsQueue s)
      in s\<lparr>scriptsQueue := q, runningScripts := r\<rparr>)"

fun remove_pid :: "int \<Rightarrow> script_job list \<Rightarrow> script_job list res" where
  "remove_pid pid [] = Ret []"
| "remove_pid pid (j # js) =
     (if sj_pid j = pid then res_bind (destroy_job j) (\<lambda>_. Ret js)
      else res_bind (remove_pid pid js) (\<lambda>js'. Ret (j # js')))"

definition deleteScriptJob :: "int \<Rightarrow> script_state \<Rightarrow> script_state res" where
  "deleteScriptJob pid s =
     res_bind (remove_pid pid (scriptsQueue s)) (\<lambda>q.
       Ret (s\<lparr>scriptsQueue := q, runningScripts := runningScripts s - 1\<rparr>))"

fun reschedule_pid :: "64 word \<Rightarrow> int \<Rightarrow> script_job list \<Rightarrow> script_job list" where
  "reschedule_pid mstime pid [] = []"
| "reschedule_pid mstime pid (j # js) =
     (if isRunning j \<and> sj_pid j = pid then reschedule mstime j # js
      else j # reschedule_pid mstime pid js)"

text \<open>
  \<open>pid = wait3(&statloc, WNOHANG, NULL) > 0\<close> assigns the truth value of the comparison: inside the
  loop \<open>pid\<close> is 1 whatever child ended. (Log messages are not part of the state.)
\<close>

fun collectTerminatedScripts ::
  "64 word \<Rightarrow> (int \<times> nat \<times> nat) list \<Rightarrow> script_state \<Rightarrow> script_state res" where
  "collectTerminatedScripts mstime [] s = Ret s"
| "collectTerminatedScripts mstime ((wait3, exitcode, bysignal) # ws) s =
     (let pid = (if wait3 > 0 then 1 else 0 :: int) in
      if pid = 0 then Ret s
      else res_bind
        (case getScriptListNodeByPid pid (scriptsQueue s) of
           None \<Rightarrow> Ret s
         | Some job \<Rightarrow>
             if (bysignal \<noteq> 0 \<or> exitcode = 1) \<and> sj_retryCount job < SENTINEL_SCRIPT_MAX_RETRY
             then Ret (s\<lparr>scriptsQueue := reschedule_pid mstime pid (scriptsQueue s)\<rparr>)
             else deleteScriptJob pid s)
        (collectTerminatedScripts mstime ws))"

text \<open>The pids that \<open>killTimedoutScripts\<close> sends SIGKILL to; the subtraction is unsigned.\<close>

definition killTimedoutScripts :: "64 word \<Rightarrow> script_state \<Rightarrow> int list" where
  "killTimedoutScripts nowt s =
     map sj_pid (filter (\<lambda>j. isRunning j \<and> nowt - sj_startTime j > SENTINEL_SCRIPT_MAX_RUNTIME)
       (scriptsQueue s))"

section \<open>The state machine and its invariant\<close>

inductive script_step :: "script_state \<Rightarrow> script_state \<Rightarrow> bool" where
  schedule: "scheduleScriptExecution path args s = Ret t \<Longrightarrow> script_step s t"
| run: "(\<forall>i. fork i = -1 \<or> fork i > 1) \<Longrightarrow> script_step s (runPendingScripts nowt fork s)"
| collect: "collectTerminatedScripts mstime ws s = Ret t \<Longrightarrow> script_step s t"

inductive script_reach :: "script_state \<Rightarrow> script_state \<Rightarrow> bool" where
  refl: "script_reach s s"
| step: "script_reach s t \<Longrightarrow> script_step t u \<Longrightarrow> script_reach s u"

inductive_cases script_stepE: "script_step s s'"

definition running_jobs :: "script_state \<Rightarrow> script_job list" where
  "running_jobs s = filter isRunning (scriptsQueue s)"

definition script_inv :: "script_state \<Rightarrow> bool" where
  "script_inv s \<longleftrightarrow>
     runningScripts s = int (length (running_jobs s)) \<and>
     runningScripts s \<le> SENTINEL_SCRIPT_MAX_RUNNING \<and>
     length (scriptsQueue s) \<le> SENTINEL_SCRIPT_MAX_QUEUE \<and>
     (\<forall>j \<in> set (scriptsQueue s). isRunning j \<longrightarrow> sj_pid j > 1)"

lemma script_init_inv: "script_inv script_init"
  by (simp add: script_inv_def script_init_def running_jobs_def SENTINEL_SCRIPT_MAX_RUNNING_def
      SENTINEL_SCRIPT_MAX_QUEUE_def)

lemma drop_first_idle_faults: "\<exists>j \<in> set q. \<not> isRunning j \<Longrightarrow> \<not> is_ret (drop_first_idle q)"
proof (induction q)
  case (Cons j js)
  then show ?case
    using destroy_job_faults [of j] by (auto simp: res_simps simp del: destroy_job_faults)
qed simp

text \<open>The queue grows by one idle job as long as it has room, and a full queue faults.\<close>

lemma schedule_room:
  "length (scriptsQueue s) < SENTINEL_SCRIPT_MAX_QUEUE \<Longrightarrow>
    scheduleScriptExecution path args s = Ret (s\<lparr>scriptsQueue :=
      scriptsQueue s @ [new_script_job (path # take (SENTINEL_SCRIPT_MAX_ARGS - 1) args)]\<rparr>)"
  by (simp add: scheduleScriptExecution_def)

lemma schedule_full:
  "SENTINEL_SCRIPT_MAX_QUEUE \<le> length (scriptsQueue s) \<Longrightarrow> \<not> is_ret (scheduleScriptExecution path args s)"
  using drop_first_idle_faults [of "scriptsQueue s @ [new_script_job (path # take (SENTINEL_SCRIPT_MAX_ARGS - 1) args)]"]
  by (auto simp: scheduleScriptExecution_def Let_def res_simps)

lemma schedule_returns:
  "scheduleScriptExecution path args s = Ret t \<Longrightarrow> length (scriptsQueue s) < SENTINEL_SCRIPT_MAX_QUEUE \<and>
    t = s\<lparr>scriptsQueue := scriptsQueue s @ [new_script_job (path # take (SENTINEL_SCRIPT_MAX_ARGS - 1) args)]\<rparr>"
  using schedule_full [of s path args] schedule_room [of s path args]
  by (cases "length (scriptsQueue s) < SENTINEL_SCRIPT_MAX_QUEUE") auto

lemma schedule_inv: "script_inv s \<Longrightarrow> scheduleScriptExecution path args s = Ret t \<Longrightarrow> script_inv t"
  using schedule_returns [of path args s t] by (auto simp: script_inv_def running_jobs_def)

lemma run_loop_full: "running \<ge> SENTINEL_SCRIPT_MAX_RUNNING \<Longrightarrow> run_loop nowt fork n running q = (q, running)"
  by (cases q) simp_all

lemma run_loop_inv:
  assumes "\<forall>i. fork i = -1 \<or> fork i > 1" and "running \<le> SENTINEL_SCRIPT_MAX_RUNNING"
    and "\<forall>j \<in> set q. isRunning j \<longrightarrow> sj_pid j > 1"
    and "run_loop nowt fork n running q = (q', r)"
  shows "r - running = int (length (filter isRunning q')) - int (length (filter isRunning q)) \<and>
    running \<le> r \<and> r \<le> SENTINEL_SCRIPT_MAX_RUNNING \<and> length q' = length q \<and>
    (\<forall>j \<in> set q'. isRunning j \<longrightarrow> sj_pid j > 1)"
  using assms
proof (induction q arbitrary: n running q' r)
  case (Cons j js)
  consider (full) "running \<ge> SENTINEL_SCRIPT_MAX_RUNNING"
    | (skip) "running < SENTINEL_SCRIPT_MAX_RUNNING" "isRunning j \<or> sj_startTime j > nowt"
    | (fail) "running < SENTINEL_SCRIPT_MAX_RUNNING" "\<not> isRunning j" "\<not> sj_startTime j > nowt" "fork n = -1"
    | (start) "running < SENTINEL_SCRIPT_MAX_RUNNING" "\<not> isRunning j" "\<not> sj_startTime j > nowt" "fork n > 1"
    using Cons.prems(1) by (metis not_le)
  then show ?case
  proof cases
    case full
    with Cons.prems show ?thesis by auto
  next
    case skip
    obtain js' r' where rest: "run_loop nowt fork n running js = (js', r')" by force
    have "q' = j # js'" "r = r'" using Cons.prems(4) skip rest by auto
    with Cons.IH [OF Cons.prems(1,2) _ rest] Cons.prems(3) show ?thesis by auto
  next
    case fail
    obtain js' r' where rest: "run_loop nowt fork (Suc n) running js = (js', r')" by force
    have "\<exists>x. q' = x # js' \<and> \<not> isRunning x" "r = r'"
      using Cons.prems(4) fail rest by (auto simp: Let_def)
    with Cons.IH [OF Cons.prems(1,2) _ rest] Cons.prems(3) fail show ?thesis by auto
  next
    case start
    obtain js' r' where rest: "run_loop nowt fork (Suc n) (running + 1) js = (js', r')" by force
    have "\<exists>x. q' = x # js' \<and> isRunning x \<and> sj_pid x = fork n" "r = r'"
      using Cons.prems(4) start rest by (auto simp: Let_def)
    moreover have "running + 1 \<le> SENTINEL_SCRIPT_MAX_RUNNING" using start by simp
    ultimately show ?thesis
      using Cons.IH [OF Cons.prems(1) _ _ rest] Cons.prems(3) start by auto
  qed
qed simp

lemma run_inv:
  assumes "script_inv s" and "\<forall>i. fork i = -1 \<or> fork i > 1"
  shows "script_inv (runPendingScripts nowt fork s)"
proof -
  obtain q r where l: "run_loop nowt fork 0 (runningScripts s) (scriptsQueue s) = (q, r)" by force
  have "runningScripts s \<le> SENTINEL_SCRIPT_MAX_RUNNING"
    "\<forall>j \<in> set (scriptsQueue s). isRunning j \<longrightarrow> sj_pid j > 1"
    using assms(1) by (simp_all add: script_inv_def)
  from run_loop_inv [OF assms(2) this l] assms(1) l show ?thesis
    by (simp add: script_inv_def runPendingScripts_def running_jobs_def)
qed

lemma getScript_None:
  "\<forall>j \<in> set q. isRunning j \<longrightarrow> sj_pid j \<noteq> pid \<Longrightarrow> getScriptListNodeByPid pid q = None"
  by (induction q) auto

text \<open>With no running job of pid 1 the collector does nothing at all.\<close>

lemma collect_idle:
  "\<forall>j \<in> set (scriptsQueue s). isRunning j \<longrightarrow> sj_pid j > 1 \<Longrightarrow> collectTerminatedScripts mstime ws s = Ret s"
proof (induction mstime ws s rule: collectTerminatedScripts.induct)
  case (2 mstime w code sig ws s)
  have "getScriptListNodeByPid 1 (scriptsQueue s) = None"
    using 2(2) by (intro getScript_None) auto
  with 2 show ?case by (cases "w > 0") simp_all
qed simp

lemma collect_inv: "script_inv s \<Longrightarrow> collectTerminatedScripts mstime ws s = Ret s"
  by (rule collect_idle) (simp add: script_inv_def)

lemma script_step_inv: "script_step s s' \<Longrightarrow> script_inv s \<Longrightarrow> script_inv s'"
  by (erule script_stepE) (auto simp: schedule_inv run_inv collect_inv)

lemma script_reach_inv: "script_reach s s' \<Longrightarrow> script_inv s \<Longrightarrow> script_inv s'"
  by (induction rule: script_reach.induct) (auto intro: script_step_inv)

lemma script_step_full:
  assumes "script_step s s'" and "script_inv s" and "runningScripts s = SENTINEL_SCRIPT_MAX_RUNNING"
  shows "runningScripts s' = runningScripts s \<and> running_jobs s' = running_jobs s"
  using assms
proof (induction rule: script_step.induct)
  case (schedule path args s t)
  then show ?case using schedule_returns [OF schedule(1)] by (simp add: running_jobs_def)
next
  case (run fork s nowt)
  then show ?case
    by (simp add: runPendingScripts_def running_jobs_def run_loop_full)
next
  case (collect mstime ws s t)
  then show ?case by (simp add: collect_inv)
qed

lemma script_reach_full:
  "script_reach s s' \<Longrightarrow> script_inv s \<Longrightarrow> runningScripts s = SENTINEL_SCRIPT_MAX_RUNNING \<Longrightarrow>
    runningScripts s' = runningScripts s \<and> running_jobs s' = running_jobs s"
proof (induction rule: script_reach.induct)
  case (step s t u)
  with script_step_full [OF step(2)] script_reach_inv [OF step(1)] show ?case by auto
qed simp

definition started :: "64 word \<Rightarrow> script_job \<Rightarrow> script_job \<Rightarrow> bool" where
  "started nowt j j' \<longleftrightarrow>
     (if isRunning j \<or> sj_startTime j > nowt then j' = j
      else isRunning j' \<and> sj_startTime j' = nowt \<and> sj_retryCount j' = sj_retryCount j + 1 \<and>
        sj_argv j' = sj_argv j)"

lemma run_loop_starts:
  assumes "\<forall>i. fork i > 1" and "running + int (length q) \<le> SENTINEL_SCRIPT_MAX_RUNNING"
  shows "list_all2 (started nowt) q (fst (run_loop nowt fork n running q))"
  using assms(2)
proof (induction q arbitrary: n running)
  case (Cons j js)
  have f: "fork n \<noteq> -1" "fork n \<noteq> 0" using assms(1) [THEN spec, of n] by auto
  have r: "running < SENTINEL_SCRIPT_MAX_RUNNING" using Cons.prems by simp
  show ?case
  proof (cases "isRunning j \<or> sj_startTime j > nowt")
    case True
    then have "started nowt j j" by (simp add: started_def)
    with True Cons.IH [of running n] Cons.prems r show ?thesis by (auto split: prod.split)
  next
    case False
    then have "started nowt j ((addRetryCount ((sj_addFlags SENTINEL_SCRIPT_RUNNING j)
        \<lparr>sj_startTime := nowt\<rparr>))\<lparr>sj_pid := fork n\<rparr>)"
      by (simp add: started_def) (simp add: addRetryCount_def sj_addFlags_def)
    with False Cons.IH [of "running + 1" "Suc n"] Cons.prems r f show ?thesis
      by (auto simp: Let_def split: prod.split)
  qed
qed simp

text \<open>The unsigned difference of two clock readings, when the clock went back.\<close>

lemma minus_wraps:
  fixes a b :: "64 word"
  assumes "a < b" and "b - a \<le> 2 ^ 63"
  shows "a - b > 60000"
proof -
  have lt: "unat a < unat b" using assms(1) by (simp add: word_less_nat_alt)
  have "unat b - unat a \<le> 2 ^ 63"
    using assms(2) lt by (simp add: word_le_nat_alt unat_sub_if' split: if_splits)
  moreover have "unat (a - b) = unat a + 2 ^ 64 - unat b"
    using lt by (simp add: unat_sub_if' word_size)
  ultimately have "2 ^ 63 \<le> unat (a - b)" using lt by simp
  then show ?thesis by (simp add: word_less_nat_alt)
qed

lemma kill_iff:
  "pid \<in> set (killTimedoutScripts nowt s) \<longleftrightarrow>
    (\<exists>j \<in> set (scriptsQueue s). isRunning j \<and> sj_pid j = pid \<and> nowt - sj_startTime j > 60000)"
  by (auto simp: killTimedoutScripts_def SENTINEL_SCRIPT_MAX_RUNTIME_def)

section \<open>Sample queues\<close>

definition queued :: "nat \<Rightarrow> script_state" where
  "queued n = \<lparr>scriptsQueue = replicate n (new_script_job [''a.sh'']), runningScripts = 0\<rparr>"

lemma queued_schedule: "n < 256 \<Longrightarrow> scheduleScriptExecution ''a.sh'' [] (queued n) = Ret (queued (Suc n))"
  by (simp add: schedule_room queued_def SENTINEL_SCRIPT_MAX_QUEUE_def replicate_append_same)

lemma queued_reach: "n \<le> 256 \<Longrightarrow> script_reach script_init (queued n)"
proof (induction n)
  case 0
  have "script_init = queued 0" by (simp add: script_init_def queued_def)
  then show ?case using script_reach.refl by simp
next
  case (Suc n)
  then show ?case
    by (intro script_reach.step [OF _ script_step.schedule [OF queued_schedule]]) simp_all
qed

definition busy :: script_state where
  "busy = runPendingScripts 5 (\<lambda>i. 100 + int i) (queued 16)"

lemma busy_reach: "script_reach script_init busy"
  unfolding busy_def by (rule script_reach.step [OF queued_reach script_step.run]) simp_all

lemma busy_running: "runningScripts busy = 16" "length (scriptsQueue busy) = 16"
  by code_simp+

section \<open>Properties\<close>

text \<open>
  C15 Whatever the order of scheduling, starting and collecting, the counter of running scripts is
  the number of queued jobs marked running, at most 16 run at a time, and the queue never holds
  more than 256 jobs. Collecting takes no job off, whatever children have ended, so a queue that is
  full stays full, and the next script that is scheduled destroys a job, which frees
  memory that \<open>free\<close> must not get: scheduling returns exactly while there is room.
\<close>

theorem script_queue_invariant:
  assumes "script_reach script_init s"
  shows "runningScripts s = int (length (filter isRunning (scriptsQueue s))) \<and>
    runningScripts s \<le> 16 \<and> length (scriptsQueue s) \<le> 256 \<and>
    collectTerminatedScripts mstime ws s = Ret s \<and>
    is_ret (scheduleScriptExecution path args s) = (length (scriptsQueue s) < 256)"
proof -
  have inv: "script_inv s" by (rule script_reach_inv [OF assms script_init_inv])
  have "is_ret (scheduleScriptExecution path args s) = (length (scriptsQueue s) < 256)"
    using schedule_room [of s path args] schedule_full [of s path args]
    by (cases "length (scriptsQueue s) < 256") (simp_all add: SENTINEL_SCRIPT_MAX_QUEUE_def)
  then show ?thesis
    using inv collect_inv [OF inv]
    by (simp add: script_inv_def running_jobs_def SENTINEL_SCRIPT_MAX_RUNNING_def
        SENTINEL_SCRIPT_MAX_QUEUE_def)
qed

theorem script_queue_invariant_witness:
  "runningScripts busy = int (length (filter isRunning (scriptsQueue busy))) \<and>
   collectTerminatedScripts 9 [(100, 0, 0)] busy = Ret busy \<and>
   \<not> is_ret (scheduleScriptExecution ''b.sh'' [] (queued 256))"
  using script_queue_invariant [OF busy_reach, of 9 "[(100, 0, 0)]" "[]" "[]"]
    script_queue_invariant [OF queued_reach [of 256], of 0 "[]" "''b.sh''" "[]"]
  by (simp add: queued_def)

text \<open>
  C16 Because the pid in the collecting loop is the truth value of a comparison, no finished script
  is ever taken off: once 16 scripts run, the set of running jobs never changes again and no
  further script is started, whatever happens.
\<close>

theorem scripts_never_finish:
  assumes "script_reach script_init s" and "runningScripts s = 16" and "script_reach s s'"
  shows "filter isRunning (scriptsQueue s') = filter isRunning (scriptsQueue s) \<and>
    runningScripts s' = 16"
  using script_reach_full [OF assms(3) script_reach_inv [OF assms(1) script_init_inv]] assms(2)
  by (simp add: running_jobs_def SENTINEL_SCRIPT_MAX_RUNNING_def)

theorem scripts_never_finish_witness:
  "\<exists>t. scheduleScriptExecution ''b.sh'' [] busy = Ret t \<and>
    filter isRunning (scriptsQueue (runPendingScripts 9 (\<lambda>i. 200) t)) = filter isRunning (scriptsQueue busy) \<and>
    runningScripts (runPendingScripts 9 (\<lambda>i. 200) t) = 16"
proof -
  obtain t where t: "scheduleScriptExecution ''b.sh'' [] busy = Ret t"
    using schedule_room [of busy] busy_running by (simp add: SENTINEL_SCRIPT_MAX_QUEUE_def)
  have "script_step t (runPendingScripts 9 (\<lambda>i. 200) t)" by (rule script_step.run) simp
  then have "script_reach busy (runPendingScripts 9 (\<lambda>i. 200) t)"
    by (rule script_reach.step [OF script_reach.step [OF script_reach.refl script_step.schedule [OF t]]])
  with scripts_never_finish [OF busy_reach busy_running(1)] t show ?thesis by blast
qed

text \<open>
  When there is room for every queued job and every fork succeeds, one pass starts exactly the
  jobs that are idle and due, in place, stamps them with the time and counts the attempt.
\<close>

lemma pending_scripts_start:
  assumes "\<forall>i. fork i > 1" and "runningScripts s + int (length (scriptsQueue s)) \<le> 16"
  shows "list_all2 (started nowt) (scriptsQueue s) (scriptsQueue (runPendingScripts nowt fork s))"
  using run_loop_starts [OF assms(1), of "runningScripts s" "scriptsQueue s" nowt 0] assms(2)
  by (cases "run_loop nowt fork 0 (runningScripts s) (scriptsQueue s)")
    (simp add: runPendingScripts_def SENTINEL_SCRIPT_MAX_RUNNING_def)

text \<open>
  The delay before the retry numbered r is 30 s times 2 ^ (r - 1) with no wrap-around for every
  count the collector can meet (at most 10), and rescheduling stops the job.
\<close>

lemma retry_delay_doubles:
  assumes "0 < sj_retryCount j" and "sj_retryCount j \<le> 10"
  shows "unat (retryDelay j) = 30000 * 2 ^ (unat (sj_retryCount j) - 1) \<and>
    \<not> isRunning (reschedule t j) \<and> sj_startTime (reschedule t j) = t + retryDelay j"
proof -
  have "sj_retryCount j \<le> 40" using assms(2) by (simp add: word_le_nat_alt)
  with assms(1) show ?thesis
    by (simp add: retryDelay_unat) (simp add: reschedule_def Let_def retryDelay_def sj_delFlags_def)
qed

text \<open>
  A running script is killed exactly when the unsigned time since its start exceeds 60 s; so
  when the clock has been set back by any amount up to 2 ^ 63 ms, every script running from before
  is killed at once.
\<close>

lemma clock_back_kills:
  assumes "j \<in> set (scriptsQueue s)" and "isRunning j"
    and "nowt < sj_startTime j" and "sj_startTime j - nowt \<le> 2 ^ 63"
  shows "sj_pid j \<in> set (killTimedoutScripts nowt s)"
  using assms minus_wraps by (auto simp: kill_iff)

end
