(* ===== verification/Logging.thy ===== *)
theory Logging imports Prelude begin

text \<open>
  The logger (src/src/log): the threshold test, the line written to the log file, and syslog. Process
  id, time, and whether the log file can be opened are arguments; a message is the text that
  the format yields. What a call writes is a list of effects.
\<close>

datatype log_level = LL_DEBUG | LL_VERBOSE | LL_NOTICE | LL_WARNING | LL_RAW

fun level_num :: "log_level \<Rightarrow> flags" where
  "level_num LL_DEBUG = 0"
| "level_num LL_VERBOSE = 1"
| "level_num LL_NOTICE = 2"
| "level_num LL_WARNING = 3"
| "level_num LL_RAW = 1024"

definition LOG_MAX_LEN :: nat where "LOG_MAX_LEN = 1024"

text \<open>The static members; \<open>logfile\<close> is null until \<open>init\<close> has run.\<close>

record log_handler =
  lh_logfile :: "string option"
  lh_syslogEnabled :: int
  lh_verbosity :: flags

definition uninit_logger :: log_handler where
  "uninit_logger = \<lparr>lh_logfile = None, lh_syslogEnabled = 0, lh_verbosity = 0\<rparr>"

definition log_init :: "string \<Rightarrow> int \<Rightarrow> flags \<Rightarrow> log_handler" where
  "log_init logfile enabled verbosity =
     \<lparr>lh_logfile = Some logfile, lh_syslogEnabled = enabled, lh_verbosity = verbosity\<rparr>"

record log_env =
  le_pid :: int
  le_time :: string
  le_usec :: nat
  le_opens :: "string \<Rightarrow> bool"

datatype log_out = Stdout string | Logfile string string | Syslog int string

definition syslogLevelMap :: "int list" where
  "syslogLevelMap = [7, 6, 5, 4]"

text \<open>\<open>"%03d"\<close>.\<close>

definition dec3 :: "nat \<Rightarrow> string" where
  "dec3 n = replicate (3 - length (nat_dec n)) (CHR ''0'') @ nat_dec n"

text \<open>The characters \<open>".-*#"\<close> with their NUL, indexed by the level.\<close>

definition level_char :: "flags \<Rightarrow> char res" where
  "level_char l = (let s = ''.-*#'' @ [NUL] in if unat l < length s then Ret (s ! unat l) else Fault OutOfBounds)"

definition time_stamp :: "log_env \<Rightarrow> string" where
  "time_stamp env = take 63 (le_time env @ dec3 (le_usec env div 1000))"

definition logRaw :: "log_env \<Rightarrow> log_handler \<Rightarrow> flags \<Rightarrow> string \<Rightarrow> log_out list res" where
  "logRaw env h level msg =
     (case lh_logfile h of
        None \<Rightarrow> Fault NullDeref
      | Some f \<Rightarrow>
          if f \<noteq> [] \<and> \<not> le_opens env f then Ret []
          else
            res_bind
              (if has_flag level (level_num LL_RAW) then Ret msg
               else res_bind (level_char level) (\<lambda>c.
                 Ret (int_dec (le_pid env) @ '':S '' @ time_stamp env @ '' '' @ [c] @ '' '' @ msg @ [CHR 0x0A])))
              (\<lambda>line.
                let out = (if f = [] then Stdout line else Logfile f line) in
                if lh_syslogEnabled h = 0 then Ret [out]
                else if unat level < length syslogLevelMap then Ret [out, Syslog (syslogLevelMap ! unat level) msg]
                else Fault OutOfBounds))"

text \<open>\<open>level & 0xff < verbosity\<close> is \<open>level & (0xff < verbosity)\<close>.\<close>

definition filtered :: "log_handler \<Rightarrow> flags \<Rightarrow> bool" where
  "filtered h level \<longleftrightarrow> level AND (if sint (0xff :: flags) < sint (lh_verbosity h) then 1 else 0) \<noteq> 0"

definition log_msg :: "log_env \<Rightarrow> log_handler \<Rightarrow> flags \<Rightarrow> string \<Rightarrow> log_out list res" where
  "log_msg env h level msg =
     (if filtered h level then Ret []
      else logRaw env h level (take (LOG_MAX_LEN - 1) msg))"

definition logDebug :: "log_env \<Rightarrow> log_handler \<Rightarrow> string \<Rightarrow> log_out list res" where
  "logDebug env h msg = log_msg env h (level_num LL_DEBUG) msg"

definition logVerbose :: "log_env \<Rightarrow> log_handler \<Rightarrow> string \<Rightarrow> log_out list res" where
  "logVerbose env h msg = log_msg env h (level_num LL_VERBOSE) msg"

definition logNotice :: "log_env \<Rightarrow> log_handler \<Rightarrow> string \<Rightarrow> log_out list res" where
  "logNotice env h msg = log_msg env h (level_num LL_NOTICE) msg"

definition logWarning :: "log_env \<Rightarrow> log_handler \<Rightarrow> string \<Rightarrow> log_out list res" where
  "logWarning env h msg = log_msg env h (level_num LL_WARNING) msg"

text \<open>With one of the four levels as verbosity nothing is ever filtered.\<close>

lemma nothing_filtered: "sint (lh_verbosity h) \<le> 255 \<Longrightarrow> \<not> filtered h level"
  by (simp add: filtered_def)

lemma debug_is_logged:
  assumes "sint v \<le> 255" and "f \<noteq> [] \<Longrightarrow> le_opens env f"
  shows "\<exists>out. logDebug env (log_init f enabled v) msg = Ret out \<and> out \<noteq> []"
  using assms nothing_filtered [of "log_init f enabled v"]
  by (auto simp: logDebug_def log_msg_def logRaw_def log_init_def has_flag_def
      level_char_def syslogLevelMap_def Let_def)

lemma log_before_init: "logRaw env uninit_logger level msg = Fault NullDeref"
  by (simp add: logRaw_def uninit_logger_def)

end
