(* ===== verification/SentinelState.thy ===== *)
theory SentinelState imports OrdMap InstanceLink ScriptQueue MiscTool Logging begin

text \<open>
  The state of the sentinel: the monitored instances (src/src/flyinstance/FlyInstance.h), their
  links, and the server's own fields (src/src/flysentinel/FlySentinel.h).

  Instances and links live in heaps, lists indexed by address; a deleted instance leaves
  \<open>None\<close> behind, and using it is a fault. Fields that a constructor leaves uninitialised keep the
  value of the memory \<open>raw\<close> the object is built in.
\<close>

section \<open>Constants of FlySentinelDef.h, FlyInstanceDef.h and def.h\<close>

definition FSI_MASTER :: flags where "FSI_MASTER = 1"
definition FSI_SLAVE :: flags where "FSI_SLAVE = 2"
definition FSI_SENTINEL :: flags where "FSI_SENTINEL = 4"
definition FSI_S_DOWN :: flags where "FSI_S_DOWN = 8"
definition FSI_O_DOWN :: flags where "FSI_O_DOWN = 16"
definition FSI_MASTER_DOWN :: flags where "FSI_MASTER_DOWN = 32"
definition FSI_FAILOVER_IN_PROGRESS :: flags where "FSI_FAILOVER_IN_PROGRESS = 64"
definition FSI_PROMOTED :: flags where "FSI_PROMOTED = 128"
definition FSI_RECONF_SENT :: flags where "FSI_RECONF_SENT = 256"
definition FSI_RECONF_INPROG :: flags where "FSI_RECONF_INPROG = 512"
definition FSI_RECONF_DONE :: flags where "FSI_RECONF_DONE = 1024"
definition FSI_FORCE_FAILOVER :: flags where "FSI_FORCE_FAILOVER = 2048"
definition FSI_SCRIPT_KILL_SENT :: flags where "FSI_SCRIPT_KILL_SENT = 4096"

definition SENTINEL_GENERATE_EVENT :: flags where "SENTINEL_GENERATE_EVENT = 65536"
definition SENTINEL_RESET_SENTINELS :: flags where "SENTINEL_RESET_SENTINELS = 1"
definition SENTINEL_LEADER :: flags where "SENTINEL_LEADER = 131072"
definition SENTINEL_OBSERVER :: flags where "SENTINEL_OBSERVER = 262144"

definition FSQS_OK :: int where "FSQS_OK = 0"
definition FSQS_NOQUORUM :: int where "FSQS_NOQUORUM = 1"
definition FSQS_NOVOTER :: int where "FSQS_NOVOTER = 2"

definition HELLO_SIZE :: nat where "HELLO_SIZE = 8"
definition SENTINEL_MASTER_LINK_STATUS_UP :: int where "SENTINEL_MASTER_LINK_STATUS_UP = 0"
definition SENTINEL_MASTER_LINK_STATUS_DOWN :: int where "SENTINEL_MASTER_LINK_STATUS_DOWN = 1"
definition SENTINEL_PING_PERIOD :: "64 word" where "SENTINEL_PING_PERIOD = 1000"
definition SENTINEL_TILT_TRIGGER :: "64 word" where "SENTINEL_TILT_TRIGGER = 2000"
definition SENTINEL_TILT_PERIOD :: "64 word" where "SENTINEL_TILT_PERIOD = SENTINEL_PING_PERIOD * 30"
definition SENTINEL_PUBLISH_PERIOD :: "64 word" where "SENTINEL_PUBLISH_PERIOD = 2000"
definition SENTINEL_INFO_PERIOD :: "64 word" where "SENTINEL_INFO_PERIOD = 10 * 0"
definition SENTINEL_MAX_PENDING_COMMANDS :: int where "SENTINEL_MAX_PENDING_COMMANDS = 100"
definition SENTINEL_DEFAULT_DOWN_AFTER :: "64 word" where "SENTINEL_DEFAULT_DOWN_AFTER = 30 * 1000"
definition SENTINEL_DEFAULT_FAILOVER_TIMEOUT :: "64 word" where
  "SENTINEL_DEFAULT_FAILOVER_TIMEOUT = 60 * 3 * 1000"
definition SENTINEL_MAX_DESYNC :: nat where "SENTINEL_MAX_DESYNC = 1000"

lemmas fsi_defs [flag_simps] = FSI_MASTER_def FSI_SLAVE_def FSI_SENTINEL_def FSI_S_DOWN_def
  FSI_O_DOWN_def FSI_MASTER_DOWN_def FSI_FAILOVER_IN_PROGRESS_def FSI_PROMOTED_def
  FSI_RECONF_SENT_def FSI_RECONF_INPROG_def FSI_RECONF_DONE_def FSI_FORCE_FAILOVER_def
  FSI_SCRIPT_KILL_SENT_def

datatype failover_state =
    SENTINEL_FAILOVER_STATE_NONE
  | SENTINEL_FAILOVER_STATE_WAIT_START
  | SENTINEL_FAILOVER_STATE_SELECT_SLAVE
  | SENTINEL_FAILOVER_STATE_SEND_SLAVEOF_NOONE
  | SENTINEL_FAILOVER_STATE_WAIT_PROMOTION
  | SENTINEL_FAILOVER_STATE_RECONF_SLAVES
  | SENTINEL_FAILOVER_STATE_UPDATE_CONFIG

fun fo_num :: "failover_state \<Rightarrow> nat" where
  "fo_num SENTINEL_FAILOVER_STATE_NONE = 0"
| "fo_num SENTINEL_FAILOVER_STATE_WAIT_START = 1"
| "fo_num SENTINEL_FAILOVER_STATE_SELECT_SLAVE = 2"
| "fo_num SENTINEL_FAILOVER_STATE_SEND_SLAVEOF_NOONE = 3"
| "fo_num SENTINEL_FAILOVER_STATE_WAIT_PROMOTION = 4"
| "fo_num SENTINEL_FAILOVER_STATE_RECONF_SLAVES = 5"
| "fo_num SENTINEL_FAILOVER_STATE_UPDATE_CONFIG = 6"

text \<open>The enumeration is compared as the integers the source gives it.\<close>

instantiation failover_state :: linorder
begin

definition less_eq_failover_state :: "failover_state \<Rightarrow> failover_state \<Rightarrow> bool" where
  "less_eq_failover_state a b \<longleftrightarrow> fo_num a \<le> fo_num b"

definition less_failover_state :: "failover_state \<Rightarrow> failover_state \<Rightarrow> bool" where
  "less_failover_state a b \<longleftrightarrow> fo_num a < fo_num b"

instance
proof
  fix x y :: failover_state
  show "x \<le> y \<Longrightarrow> y \<le> x \<Longrightarrow> x = y"
    by (cases x; cases y) (simp_all add: less_eq_failover_state_def)
qed (auto simp: less_eq_failover_state_def less_failover_state_def)

end

section \<open>Instances\<close>

type_synonym iid = nat
type_synonym lid = nat

record fly_instance =
  fi_flags :: flags
  fi_name :: string
  fi_runid :: string
  configEpoch :: "64 word"
  lastPubTime :: "64 word"
  lastHelloTime :: "64 word"
  fi_addr :: sentinel_addr
  fi_master :: "iid option"
  notificationScript :: "string option"
  clientReconfigScript :: "string option"
  fi_link :: "lid option"
  sentinels :: "(string, iid) omap"
  slaves :: "(string, iid) omap"
  quorum :: "32 word"
  sDownSinceTime :: "64 word"
  oDownSinceTime :: "64 word"
  downAfterPeriod :: "64 word"
  masterLinkDownTime :: "64 word"
  promotedSlave :: "iid option"
  failoverState :: failover_state
  failoverStateChangeTime :: "64 word"
  failoverEpoch :: "64 word"
  failoverTimeout :: "64 word"
  failoverStartTime :: "64 word"
  roleReported :: flags
  roleReportedTime :: "64 word"
  infoRefresh :: "64 word"
  slaveMasterHost :: string
  slaveMasterPort :: int
  slavePriority :: int
  slaveReplOffset :: "64 word"
  slaveConfChangeTime :: "64 word"
  slaveMasterLinkStatus :: int

text \<open>The constructor; \<open>master_down\<close> is the master's \<open>downAfterPeriod\<close> when there is one.\<close>

definition new_instance ::
  "fly_instance \<Rightarrow> 64 word \<Rightarrow> string \<Rightarrow> flags \<Rightarrow> string \<Rightarrow> int \<Rightarrow> 32 word \<Rightarrow> iid option \<Rightarrow> 64 word \<Rightarrow>
   fly_instance" where
  "new_instance raw nowt name flags hostname port q master master_down =
     raw\<lparr>fi_name := name, fi_flags := flags, fi_runid := [],
         fi_addr := \<lparr>sa_ip = hostname, sa_port = port\<rparr>, quorum := q, fi_master := master,
         downAfterPeriod := (if master = None then SENTINEL_DEFAULT_DOWN_AFTER else master_down),
         roleReported := flags AND (FSI_MASTER OR FSI_SLAVE), roleReportedTime := nowt,
         notificationScript := None, clientReconfigScript := None, fi_link := None,
         sentinels := [], slaves := [], sDownSinceTime := 0, oDownSinceTime := 0,
         promotedSlave := None, failoverState := SENTINEL_FAILOVER_STATE_NONE,
         failoverStateChangeTime := 0, failoverTimeout := SENTINEL_DEFAULT_FAILOVER_TIMEOUT,
         failoverStartTime := 0, infoRefresh := 0, slaveMasterHost := [],
         slaveConfChangeTime := 0, slaveMasterLinkStatus := 0\<rparr>"

section \<open>The server\<close>

text \<open>A command handed to hiredis, with the instance it is for; an event that was logged.\<close>

type_synonym sent_command = "iid \<times> string list"
type_synonym event = "log_level \<times> string \<times> string"

record sentinel =
  instances :: "fly_instance option list"
  links :: "instance_link list"
  masters :: "(string, iid) omap"
  myid :: string
  currentEpoch :: "64 word"
  tilt :: bool
  tiltStartTime :: "64 word"
  previousTime :: "64 word"
  announceIP :: string
  announcePort :: int
  sv_port :: int
  sv_hz :: int
  scripts :: script_state
  events :: "event list"
  published :: "(string \<times> string) list"
  sent :: "sent_command list"

section \<open>Heap access\<close>

definition get_inst :: "sentinel \<Rightarrow> iid \<Rightarrow> fly_instance res" where
  "get_inst s i =
     (if i < length (instances s)
      then (case instances s ! i of None \<Rightarrow> Fault UseAfterFree | Some x \<Rightarrow> Ret x)
      else Fault OutOfBounds)"

definition upd_inst :: "iid \<Rightarrow> (fly_instance \<Rightarrow> fly_instance) \<Rightarrow> sentinel \<Rightarrow> sentinel" where
  "upd_inst i f s =
     (if i < length (instances s)
      then s\<lparr>instances := (instances s)[i := map_option f (instances s ! i)]\<rparr> else s)"

text \<open>A dereference of a pointer that can be null.\<close>

definition deref :: "sentinel \<Rightarrow> iid option \<Rightarrow> fly_instance res" where
  "deref s p = (case p of None \<Rightarrow> Fault NullDeref | Some i \<Rightarrow> get_inst s i)"

definition get_link :: "sentinel \<Rightarrow> fly_instance \<Rightarrow> instance_link res" where
  "get_link s x =
     (case fi_link x of
        None \<Rightarrow> Fault NullDeref
      | Some l \<Rightarrow> if l < length (links s) then Ret (links s ! l) else Fault OutOfBounds)"

definition upd_link :: "fly_instance \<Rightarrow> (instance_link \<Rightarrow> instance_link) \<Rightarrow> sentinel \<Rightarrow> sentinel" where
  "upd_link x f s =
     (case fi_link x of
        None \<Rightarrow> s
      | Some l \<Rightarrow> if l < length (links s) then s\<lparr>links := (links s)[l := f (links s ! l)]\<rparr> else s)"

text \<open>The reference count of a link: the instances that hold it.\<close>

definition use_count :: "sentinel \<Rightarrow> lid option \<Rightarrow> nat" where
  "use_count s l =
     (case l of
        None \<Rightarrow> 0
      | Some k \<Rightarrow> length (filter (\<lambda>x. case x of None \<Rightarrow> False | Some y \<Rightarrow> fi_link y = Some k) (instances s)))"

lemma get_inst_less: "get_inst s i = Ret x \<Longrightarrow> i < length (instances s) \<and> instances s ! i = Some x"
  by (auto simp: get_inst_def split: if_splits option.splits)

lemma get_inst_iff: "get_inst s i = Ret x \<longleftrightarrow> i < length (instances s) \<and> instances s ! i = Some x"
  by (auto simp: get_inst_def split: if_splits option.splits)

lemma get_inst_upd:
  "get_inst s i = Ret x \<Longrightarrow>
    get_inst (upd_inst j f s) i = Ret (if i = j then f x else x)"
  by (auto simp: get_inst_iff upd_inst_def)

lemma upd_inst_length [simp]: "length (instances (upd_inst i f s)) = length (instances s)"
  by (simp add: upd_inst_def)

lemma upd_inst_sel [simp]:
  "masters (upd_inst i f s) = masters s" "currentEpoch (upd_inst i f s) = currentEpoch s"
  "links (upd_inst i f s) = links s" "tilt (upd_inst i f s) = tilt s" "sent (upd_inst i f s) = sent s"
  "events (upd_inst i f s) = events s" "scripts (upd_inst i f s) = scripts s"
  "published (upd_inst i f s) = published s"
  by (simp_all add: upd_inst_def)

lemma deref_Some [simp]: "deref s (Some i) = get_inst s i"
  by (simp add: deref_def)

lemma deref_None [simp]: "deref s None = Fault NullDeref"
  by (simp add: deref_def)

end
