(* ===== verification/FlyInstance.thy ===== *)
theory FlyInstance imports SentinelState begin

text \<open>
  The operations of src/src/flyinstance/FlyInstance.cpp that do not send events: flags, addresses,
  links, the slave and sentinel maps, quorum, failover bookkeeping, and the status report.
  Operations that follow pointers take the whole state.
\<close>

section \<open>Fields and flags\<close>

definition fi_addFlags :: "flags \<Rightarrow> fly_instance \<Rightarrow> fly_instance" where
  "fi_addFlags f x = x\<lparr>fi_flags := fi_flags x OR f\<rparr>"

definition fi_delFlags :: "flags \<Rightarrow> fly_instance \<Rightarrow> fly_instance" where
  "fi_delFlags f x = x\<lparr>fi_flags := fi_flags x AND NOT f\<rparr>"

definition dupAddr :: "sentinel_addr \<Rightarrow> fly_instance \<Rightarrow> fly_instance" where
  "dupAddr a x = x\<lparr>fi_addr := \<lparr>sa_ip = sa_ip a, sa_port = sa_port a\<rparr>\<rparr>"

definition setPort :: "int \<Rightarrow> fly_instance \<Rightarrow> fly_instance" where
  "setPort p x = x\<lparr>fi_addr := (fi_addr x)\<lparr>sa_port := p\<rparr>\<rparr>"

text \<open>\<open>0 != this->flags & FSI_MASTER\<close>, which C++ groups as \<open>(0 != flags) & FSI_MASTER\<close>.\<close>

definition haveMaster :: "fly_instance \<Rightarrow> bool" where
  "haveMaster x \<longleftrightarrow> ne0_and (fi_flags x) FSI_MASTER"

definition noDownFor :: "64 word \<Rightarrow> 64 word \<Rightarrow> fly_instance \<Rightarrow> bool" where
  "noDownFor now ms x =
     (let mostRecent = (if oDownSinceTime x > sDownSinceTime x then oDownSinceTime x
                        else sDownSinceTime x)
      in mostRecent = 0 \<or> now - ms > mostRecent)"

definition setFailoverState :: "64 word \<Rightarrow> failover_state \<Rightarrow> fly_instance \<Rightarrow> fly_instance" where
  "setFailoverState now st x = x\<lparr>failoverState := st, failoverStateChangeTime := now\<rparr>"

definition setSlaveMasterHost :: "64 word \<Rightarrow> string \<Rightarrow> fly_instance \<Rightarrow> fly_instance" where
  "setSlaveMasterHost now h x = x\<lparr>slaveMasterHost := h, slaveConfChangeTime := now\<rparr>"

definition setSlaveMasterPort :: "64 word \<Rightarrow> int \<Rightarrow> fly_instance \<Rightarrow> fly_instance" where
  "setSlaveMasterPort now p x = x\<lparr>slaveMasterPort := p, slaveConfChangeTime := now\<rparr>"

lemma del_flags_gone: "\<not> has_flag (fi_flags (fi_delFlags f x)) f"
  by (simp add: fi_delFlags_def has_flag_del)

lemma haveMaster_iff [flag_simps]: "haveMaster x \<longleftrightarrow> fi_flags x \<noteq> 0"
  by (simp add: haveMaster_def flag_simps)

section \<open>The slave and sentinel maps\<close>

definition addSlave :: "string \<Rightarrow> iid \<Rightarrow> fly_instance \<Rightarrow> fly_instance \<times> bool" where
  "addSlave name i x =
     (if map_of (slaves x) name \<noteq> None then (x, False)
      else (x\<lparr>slaves := omap_put name i (slaves x)\<rparr>, True))"

definition addSentinel :: "string \<Rightarrow> iid \<Rightarrow> fly_instance \<Rightarrow> fly_instance \<times> bool" where
  "addSentinel name i x =
     (if map_of (sentinels x) name \<noteq> None then (x, False)
      else (x\<lparr>sentinels := omap_put name i (sentinels x)\<rparr>, True))"

definition lookupSlave :: "string \<Rightarrow> int \<Rightarrow> fly_instance \<Rightarrow> iid option" where
  "lookupSlave ip port x = map_of (slaves x) (formatAddr ip port)"

text \<open>
  The loop of \<open>removeMatchingSentinel\<close>: \<open>erase\<close> returns the next position and the loop header
  advances once more, past the end when the last entry was erased.
\<close>

fun remove_sentinels ::
  "sentinel \<Rightarrow> string \<Rightarrow> (string, iid) omap \<Rightarrow> ((string, iid) omap \<times> nat) res" where
  "remove_sentinels s runid [] = Ret ([], 0)"
| "remove_sentinels s runid ((k, i) # m) =
     res_bind (get_inst s i) (\<lambda>x.
       if fi_runid x = runid then
         (case m of
            [] \<Rightarrow> Fault OutOfBounds
          | e # m' \<Rightarrow> res_bind (remove_sentinels s runid m') (\<lambda>(m'', n). Ret (e # m'', Suc n)))
       else res_bind (remove_sentinels s runid m) (\<lambda>(m', n). Ret ((k, i) # m', n)))"

definition removeMatchingSentinel :: "string \<Rightarrow> iid \<Rightarrow> sentinel \<Rightarrow> (sentinel \<times> nat) res" where
  "removeMatchingSentinel runid i s =
     res_bind (get_inst s i) (\<lambda>x.
       res_bind (remove_sentinels s runid (sentinels x)) (\<lambda>(m, n).
         Ret (upd_inst i (\<lambda>x. x\<lparr>sentinels := m\<rparr>) s, n)))"

section \<open>Links\<close>

text \<open>
  A pending hiredis callback: which function, and the instance it will be called with. Giving a
  shared link up redirects this instance's callbacks to the discarding one.
\<close>

datatype callback_fn = DiscardReply | PingReply | InfoReply | PublishReply

definition redirect_callbacks ::
  "iid \<Rightarrow> (callback_fn \<times> iid option) list \<Rightarrow> (callback_fn \<times> iid option) list" where
  "redirect_callbacks i cbs = map (\<lambda>(f, p). if p = Some i then (DiscardReply, None) else (f, p)) cbs"

definition releaseLink ::
  "iid \<Rightarrow> (callback_fn \<times> iid option) list \<Rightarrow> sentinel \<Rightarrow>
   (sentinel \<times> (callback_fn \<times> iid option) list) res" where
  "releaseLink i replies s =
     res_bind (get_inst s i) (\<lambda>x.
       res_bind (if use_count s (fi_link x) > 1
                 then res_bind (get_link s x) (\<lambda>l.
                        Ret (if commandContext l \<noteq> None then redirect_callbacks i replies else replies))
                 else Ret replies)
         (\<lambda>cbs. Ret (upd_inst i (\<lambda>x. x\<lparr>fi_link := None\<rparr>) s, cbs)))"

definition setLink :: "iid \<Rightarrow> lid option \<Rightarrow> sentinel \<Rightarrow> sentinel" where
  "setLink i l s = upd_inst i (\<lambda>x. x\<lparr>fi_link := l\<rparr>) s"

section \<open>Reset\<close>

definition delete_inst :: "iid \<Rightarrow> sentinel \<Rightarrow> sentinel res" where
  "delete_inst i s =
     res_bind (get_inst s i) (\<lambda>_. Ret (s\<lparr>instances := (instances s)[i := None]\<rparr>))"

fun delete_all :: "(string, iid) omap \<Rightarrow> sentinel \<Rightarrow> sentinel res" where
  "delete_all [] s = Ret s"
| "delete_all ((k, i) # m) s = res_bind (delete_inst i s) (delete_all m)"

definition fi_reset :: "64 word \<Rightarrow> flags \<Rightarrow> iid \<Rightarrow> sentinel \<Rightarrow> sentinel res" where
  "fi_reset nowt flags i s =
     res_bind (get_inst s i) (\<lambda>x.
     res_bind (delete_all (slaves x) s) (\<lambda>s.
     res_bind (if has_flag flags SENTINEL_RESET_SENTINELS then delete_all (sentinels x) s else Ret s) (\<lambda>s.
       Ret (upd_inst i (\<lambda>x.
         let fl = fi_flags x AND (FSI_MASTER OR FSI_SLAVE OR FSI_SENTINEL) in
         x\<lparr>slaves := [],
           sentinels := (if has_flag flags SENTINEL_RESET_SENTINELS then [] else sentinels x),
           fi_flags := fl, fi_runid := [], fi_master := None, fi_link := None,
           oDownSinceTime := 0, sDownSinceTime := 0, promotedSlave := None,
           failoverState := SENTINEL_FAILOVER_STATE_NONE,
           roleReported := fl AND (FSI_MASTER OR FSI_SLAVE), roleReportedTime := nowt\<rparr>) s))))"

section \<open>Quorum\<close>

fun count_usable :: "sentinel \<Rightarrow> (string, iid) omap \<Rightarrow> nat res" where
  "count_usable s [] = Ret 0"
| "count_usable s ((k, i) # m) =
     res_bind (get_inst s i) (\<lambda>x.
       res_bind (count_usable s m) (\<lambda>n.
         Ret (if has_flag (fi_flags x) (FSI_O_DOWN OR FSI_S_DOWN) then n else Suc n)))"

text \<open>The result code and the number of usable voters, this sentinel included.\<close>

definition sentinelIsQuorumReachable :: "iid \<Rightarrow> sentinel \<Rightarrow> (int \<times> nat) res" where
  "sentinelIsQuorumReachable i s =
     res_bind (get_inst s i) (\<lambda>x.
       if \<not> has_flag (fi_flags x) FSI_MASTER then Fault AssertFailed
       else res_bind (count_usable s (sentinels x)) (\<lambda>n.
         let usable = n + 1;
             totalVoters = length (sentinels x) + 1;
             noquorum = (if usable < unat (quorum x) then FSQS_NOQUORUM else 0);
             novoter = (if usable < totalVoters div 2 + 1 then FSQS_NOVOTER else 0)
         in Ret (FSQS_OK OR noquorum OR novoter, usable)))"

section \<open>Failover bookkeeping\<close>

definition isPromotedSlave :: "iid \<Rightarrow> sentinel \<Rightarrow> bool res" where
  "isPromotedSlave i s =
     res_bind (get_inst s i) (\<lambda>x.
       if \<not> has_flag (fi_flags x) FSI_PROMOTED then Ret False
       else res_bind (deref s (fi_master x)) (\<lambda>m.
         Ret (has_flag (fi_flags m) FSI_FAILOVER_IN_PROGRESS \<and>
              failoverState m = SENTINEL_FAILOVER_STATE_WAIT_PROMOTION)))"

definition abortFailover :: "64 word \<Rightarrow> iid \<Rightarrow> sentinel \<Rightarrow> sentinel res" where
  "abortFailover now i s =
     res_bind (get_inst s i) (\<lambda>x.
       if \<not> has_flag (fi_flags x) FSI_FAILOVER_IN_PROGRESS then Fault AssertFailed
       else if \<not> failoverState x < SENTINEL_FAILOVER_STATE_WAIT_PROMOTION then Fault AssertFailed
       else
         let s = upd_inst i (\<lambda>x.
               (fi_delFlags (FSI_FAILOVER_IN_PROGRESS OR FSI_FORCE_FAILOVER) x)
                 \<lparr>failoverState := SENTINEL_FAILOVER_STATE_NONE, failoverStateChangeTime := now\<rparr>) s
         in case promotedSlave x of
              None \<Rightarrow> Ret s
            | Some p \<Rightarrow> res_bind (get_inst s p) (\<lambda>_.
                Ret (upd_inst i (\<lambda>x. x\<lparr>promotedSlave := None\<rparr>)
                      (upd_inst p (fi_delFlags FSI_PROMOTED) s))))"

section \<open>Forcing hello messages\<close>

definition age_pub_time :: "fly_instance \<Rightarrow> fly_instance" where
  "age_pub_time x =
     (if lastPubTime x \<ge> SENTINEL_PUBLISH_PERIOD + 1
      then x\<lparr>lastPubTime := lastPubTime x - (SENTINEL_PUBLISH_PERIOD + 1)\<rparr> else x)"

fun forceHelloUpdateFlyInstances :: "(string, iid) omap \<Rightarrow> sentinel \<Rightarrow> sentinel res" where
  "forceHelloUpdateFlyInstances [] s = Ret s"
| "forceHelloUpdateFlyInstances ((k, i) # m) s =
     res_bind (get_inst s i) (\<lambda>_. forceHelloUpdateFlyInstances m (upd_inst i age_pub_time s))"

definition forceHelloUpdate :: "iid \<Rightarrow> sentinel \<Rightarrow> (sentinel \<times> int) res" where
  "forceHelloUpdate i s =
     res_bind (get_inst s i) (\<lambda>x.
       if eq0_and (fi_flags x) FSI_MASTER then Ret (s, -1)
       else
         res_bind (forceHelloUpdateFlyInstances (sentinels x) (upd_inst i age_pub_time s)) (\<lambda>s.
         res_bind (forceHelloUpdateFlyInstances (slaves x) s) (\<lambda>s. Ret (s, 1))))"

section \<open>The status report of an instance\<close>

definition flag_word :: "fly_instance \<Rightarrow> flags \<Rightarrow> string \<Rightarrow> string" where
  "flag_word x f w = (if has_flag (fi_flags x) f then w else [])"

definition getFlagsString :: "sentinel \<Rightarrow> fly_instance \<Rightarrow> string res" where
  "getFlagsString s x =
     res_bind (get_link s x) (\<lambda>l.
       let fl = flag_word x FSI_S_DOWN ''s_down,'' @ flag_word x FSI_O_DOWN ''o_down,'' @
                flag_word x FSI_MASTER ''master,'' @ flag_word x FSI_SLAVE ''slave,'' @
                flag_word x FSI_SENTINEL ''sentinel,'' @
                (if disconnected l then ''disconnected,'' else []) @
                flag_word x FSI_MASTER_DOWN ''master_down,'' @
                flag_word x FSI_FAILOVER_IN_PROGRESS ''failover_in_progress,'' @
                flag_word x FSI_PROMOTED ''promoted,'' @ flag_word x FSI_RECONF_SENT ''reconf_sent,'' @
                flag_word x FSI_RECONF_INPROG ''reconf_inprog,'' @
                flag_word x FSI_RECONF_DONE ''reconf_done,''
       in Ret (if fl \<noteq> [] then substr fl 0 (length fl - 1) else fl))"

datatype reply_item = BulkString string | LongLong int | BulkLongLong int

definition addReplySentinelRedisInstance :: "sentinel \<Rightarrow> iid \<Rightarrow> reply_item list res" where
  "addReplySentinelRedisInstance s i =
     res_bind (get_inst s i) (\<lambda>x.
     res_bind (getFlagsString s x) (\<lambda>fl.
     res_bind (get_link s x) (\<lambda>l.
       Ret [BulkString ''name'', BulkString (fi_name x),
            BulkString ''ip'', BulkString (sa_ip (fi_addr x)),
            BulkString ''port'', LongLong (sa_port (fi_addr x)),
            BulkString ''runid'', BulkString (fi_runid x),
            BulkString ''flags'', BulkString fl,
            BulkString ''link-pending-commands'', BulkLongLong (pendingCommands l),
            BulkString ''link-refcount'', BulkLongLong (int (use_count s (fi_link x)))])))"

section \<open>Replies from hiredis\<close>

text \<open>
  The reply callbacks: the link is the context's \<open>data\<close> (null once the connection is closed), the
  instance the callback's \<open>privdata\<close>. \<open>rv\<close> is what hiredis returns for a command sent from
  the callback.
\<close>

datatype redis_reply = RStatus string | RError string | RString string
  | RArray "redis_reply list" | RInteger int

definition upd_lid :: "lid \<Rightarrow> (instance_link \<Rightarrow> instance_link) \<Rightarrow> sentinel \<Rightarrow> sentinel" where
  "upd_lid l f s = (if l < length (links s) then s\<lparr>links := (links s)[l := f (links s ! l)]\<rparr> else s)"

definition send_cmd :: "iid \<Rightarrow> string list \<Rightarrow> sentinel \<Rightarrow> sentinel" where
  "send_cmd i cmd s = s\<lparr>sent := sent s @ [(i, cmd)]\<rparr>"

definition sentinelDiscardReplyCallback :: "lid option \<Rightarrow> sentinel \<Rightarrow> sentinel" where
  "sentinelDiscardReplyCallback data s =
     (case data of None \<Rightarrow> s | Some l \<Rightarrow> upd_lid l decreasePendingCommands s)"

definition strncmp_eq :: "string \<Rightarrow> string \<Rightarrow> bool" where
  "strncmp_eq str w \<longleftrightarrow> is_prefix w (c_str str)"

definition ping_ok :: "string \<Rightarrow> bool" where
  "ping_ok str \<longleftrightarrow> strncmp_eq str ''PONG'' \<or> strncmp_eq str ''LOADING'' \<or> strncmp_eq str ''MASTERDOWN''"

fun reply_text :: "redis_reply \<Rightarrow> string option" where
  "reply_text (RStatus t) = Some t"
| "reply_text (RError t) = Some t"
| "reply_text (RString t) = None"
| "reply_text (RArray rs) = None"
| "reply_text (RInteger n) = None"

definition sentinelPingReplyCallback ::
  "64 word \<Rightarrow> int \<Rightarrow> lid option \<Rightarrow> redis_reply option \<Rightarrow> iid \<Rightarrow> sentinel \<Rightarrow> sentinel res" where
  "sentinelPingReplyCallback now rv data reply i s =
     (case (reply, data) of
        (Some r, Some l) \<Rightarrow>
          let s = upd_lid l decreasePendingCommands s in
          res_bind
            (case reply_text r of
               None \<Rightarrow> Ret s
             | Some str \<Rightarrow>
                 if ping_ok str
                 then Ret (upd_lid l (\<lambda>k. k\<lparr>lastAvailTime := now, actPingTime := 0\<rparr>) s)
                 else if strncmp_eq str ''BUSY'' then
                   res_bind (get_inst s i) (\<lambda>x.
                     if has_flag (fi_flags x) FSI_S_DOWN \<and> eq0_and (fi_flags x) FSI_SCRIPT_KILL_SENT
                     then
                       let s = send_cmd i [''SCRIPT'', ''KILL''] s;
                           s = (if rv \<noteq> 0 then upd_link x increasePendingCommands s else s)
                       in Ret (upd_inst i (fi_addFlags FSI_SCRIPT_KILL_SENT) s)
                     else Ret s)
                 else Ret s)
            (\<lambda>s. Ret (upd_lid l (\<lambda>k. k\<lparr>lastPongTime := now\<rparr>) s))
      | _ \<Rightarrow> Ret s)"

definition sentinelPublishReplyCallback ::
  "64 word \<Rightarrow> lid option \<Rightarrow> redis_reply option \<Rightarrow> iid \<Rightarrow> sentinel \<Rightarrow> sentinel res" where
  "sentinelPublishReplyCallback now data reply i s =
     (case (reply, data) of
        (Some r, Some l) \<Rightarrow>
          let s = upd_lid l increasePendingCommands s in
          (case r of
             RError t \<Rightarrow> Ret s
           | _ \<Rightarrow> res_bind (get_inst s i) (\<lambda>_. Ret (upd_inst i (\<lambda>x. x\<lparr>lastPubTime := now\<rparr>) s)))
      | _ \<Rightarrow> Ret s)"

section \<open>Lemmas\<close>

lemma count_usable_ok:
  assumes "\<forall>(k, i) \<in> set m. \<exists>x. get_inst s i = Ret x"
  shows "count_usable s m = Ret (length (filter (\<lambda>(k, i). \<exists>x. get_inst s i = Ret x \<and>
    \<not> has_flag (fi_flags x) (FSI_O_DOWN OR FSI_S_DOWN)) m))"
  using assms by (induction m) auto

lemma quorum_code: "(FSQS_OK OR (if a then FSQS_NOQUORUM else 0) OR (if b then FSQS_NOVOTER else 0)) =
    (if a then 1 else 0) + (if b then 2 else 0)"
  by (simp add: FSQS_OK_def FSQS_NOQUORUM_def FSQS_NOVOTER_def)

lemma remove_sentinels_none:
  assumes "\<forall>(k, i) \<in> set m. \<exists>x. get_inst s i = Ret x \<and> fi_runid x \<noteq> runid"
  shows "remove_sentinels s runid m = Ret (m, 0)"
  using assms by (induction m) auto

lemma remove_sentinels_last:
  assumes "\<forall>(k, i) \<in> set m. \<exists>x. get_inst s i = Ret x \<and> fi_runid x \<noteq> runid"
    and "get_inst s j = Ret y" and "fi_runid y = runid"
  shows "remove_sentinels s runid (m @ [(k, j)]) = Fault OutOfBounds"
  using assms by (induction m) auto

lemma remove_sentinels_one:
  assumes "\<forall>(k, i) \<in> set (m @ m'). \<exists>x. get_inst s i = Ret x \<and> fi_runid x \<noteq> runid"
    and "get_inst s j = Ret y" and "fi_runid y = runid" and "m' \<noteq> []"
  shows "remove_sentinels s runid (m @ (k, j) # m') = Ret (m @ m', 1)"
  using assms
proof (induction m)
  case Nil
  then obtain e m'' where m': "m' = e # m''" by (cases m') auto
  then have "remove_sentinels s runid m'' = Ret (m'', 0)"
    using Nil by (intro remove_sentinels_none) auto
  then show ?case using Nil m' by simp
qed auto

lemma upd_lid_sel [simp]:
  "instances (upd_lid l f s) = instances s" "sent (upd_lid l f s) = sent s"
  by (simp_all add: upd_lid_def)

lemma get_inst_upd_lid [simp]: "get_inst (upd_lid l f s) i = get_inst s i"
  by (simp add: get_inst_def)

lemma script_kill_never: "eq0_and f FSI_SCRIPT_KILL_SENT \<longleftrightarrow> False"
  by (simp add: eq0_and_even FSI_SCRIPT_KILL_SENT_def)

section \<open>A sample state\<close>

definition blank_instance :: fly_instance where
  "blank_instance =
     \<lparr>fi_flags = 0, fi_name = [], fi_runid = [], configEpoch = 0, lastPubTime = 0, lastHelloTime = 0,
      fi_addr = \<lparr>sa_ip = [], sa_port = 0\<rparr>, fi_master = None, notificationScript = None,
      clientReconfigScript = None, fi_link = None, sentinels = [], slaves = [], quorum = 0,
      sDownSinceTime = 0, oDownSinceTime = 0, downAfterPeriod = 0, masterLinkDownTime = 0,
      promotedSlave = None, failoverState = SENTINEL_FAILOVER_STATE_NONE,
      failoverStateChangeTime = 0, failoverEpoch = 0, failoverTimeout = 0, failoverStartTime = 0,
      roleReported = 0, roleReportedTime = 0, infoRefresh = 0, slaveMasterHost = [],
      slaveMasterPort = 0, slavePriority = 0, slaveReplOffset = 0, slaveConfChangeTime = 0,
      slaveMasterLinkStatus = 0\<rparr>"

definition empty_sentinel :: sentinel where
  "empty_sentinel =
     \<lparr>instances = [], links = [], masters = [], myid = [], currentEpoch = 0, tilt = False,
      tiltStartTime = 0, previousTime = 0, announceIP = [], announcePort = 0, sv_port = 26379,
      sv_hz = 10, scripts = script_init, events = [], published = [], sent = []\<rparr>"

text \<open>A master (0) with two sentinels (1, 2), the second subjectively down, and a slave (3).\<close>

definition sample_master :: fly_instance where
  "sample_master = (new_instance blank_instance 0 ''mymaster'' FSI_MASTER ''10.0.0.1'' 6379 2 None 0)
     \<lparr>sentinels := [(''aa'', 1), (''bb'', 2)], slaves := [([], 3)]\<rparr>"

definition sample_child :: "flags \<Rightarrow> string \<Rightarrow> string \<Rightarrow> int \<Rightarrow> fly_instance" where
  "sample_child f runid ip port =
     (new_instance blank_instance 0 runid f ip port 2 (Some 0) 30000)\<lparr>fi_runid := runid\<rparr>"

definition sample :: sentinel where
  "sample = empty_sentinel\<lparr>masters := [(''mymaster'', 0)],
     instances := [Some sample_master, Some (sample_child FSI_SENTINEL ''aa'' ''10.0.0.2'' 26379),
       Some (fi_addFlags FSI_S_DOWN (sample_child FSI_SENTINEL ''bb'' ''10.0.0.3'' 26379)),
       Some (sample_child FSI_SLAVE ''ss'' ''10.0.0.4'' 6379)]\<rparr>"

lemma sample_get:
  "get_inst sample 0 = Ret sample_master"
  "get_inst sample 1 = Ret (sample_child FSI_SENTINEL ''aa'' ''10.0.0.2'' 26379)"
  "get_inst sample 2 = Ret (fi_addFlags FSI_S_DOWN (sample_child FSI_SENTINEL ''bb'' ''10.0.0.3'' 26379))"
  "get_inst sample 3 = Ret (sample_child FSI_SLAVE ''ss'' ''10.0.0.4'' 6379)"
  by (simp_all add: get_inst_def sample_def)

lemmas sample_gets = sample_get sample_get(2) [unfolded One_nat_def]

lemma sample_fields [simp]:
  "fi_flags sample_master = FSI_MASTER" "fi_master sample_master = None"
  "sentinels sample_master = [(''aa'', 1), (''bb'', 2)]" "slaves sample_master = [([], 3)]"
  "quorum sample_master = 2" "fi_runid (sample_child f r ip p) = r"
  "fi_flags (sample_child f r ip p) = f" "sa_port (fi_addr (sample_child f r ip p)) = p"
  "sa_ip (fi_addr (sample_child f r ip p)) = ip" "fi_link (sample_child f r ip p) = None"
  "fi_master (sample_child f r ip p) = Some 0" "fi_link sample_master = None"
  by (simp_all add: sample_master_def sample_child_def new_instance_def)

section \<open>Properties\<close>

text \<open>
  C29 When every known sentinel is alive, the quorum check of a master counts this sentinel and the
  known ones that are not marked down, and reports 0 exactly when they reach the configured quorum
  and are more than half of all voters.
\<close>

theorem quorum_check_correct:
  assumes "get_inst s i = Ret x" and "has_flag (fi_flags x) FSI_MASTER"
    and "\<forall>(k, j) \<in> set (sentinels x). \<exists>y. get_inst s j = Ret y"
    and "up = length (filter (\<lambda>(k, j). \<exists>y. get_inst s j = Ret y \<and>
      \<not> has_flag (fi_flags y) (FSI_O_DOWN OR FSI_S_DOWN)) (sentinels x))"
  shows "\<exists>code. sentinelIsQuorumReachable i s = Ret (code, up + 1) \<and>
    (code = 0 \<longleftrightarrow> unat (quorum x) \<le> up + 1 \<and> length (sentinels x) + 1 < 2 * (up + 1))"
proof -
  have "count_usable s (sentinels x) = Ret up"
    using count_usable_ok [OF assms(3)] assms(4) by simp
  then have "sentinelIsQuorumReachable i s = Ret ((if up + 1 < unat (quorum x) then 1 else 0) +
      (if up + 1 < (length (sentinels x) + 1) div 2 + 1 then 2 else 0), up + 1)"
    using assms(1,2) by (simp add: sentinelIsQuorumReachable_def Let_def quorum_code)
  then show ?thesis by (auto simp: not_less)
qed

theorem quorum_check_correct_witness:
  "\<exists>code. sentinelIsQuorumReachable 0 sample = Ret (code, 2) \<and> code = 0"
proof -
  have "has_flag (fi_flags sample_master) FSI_MASTER"
    by (simp add: has_flag_def FSI_MASTER_def)
  moreover have "\<not> has_flag FSI_SENTINEL (FSI_O_DOWN OR FSI_S_DOWN)"
    "has_flag (FSI_SENTINEL OR FSI_S_DOWN) (FSI_O_DOWN OR FSI_S_DOWN)"
    by code_simp+
  ultimately show ?thesis
    using quorum_check_correct [OF sample_get(1), of 1] by (simp add: sample_gets fi_addFlags_def)
qed

text \<open>
  Removing the sentinel with a given runid works when that sentinel is not the last one of the
  map: exactly its entry goes. When it is the last one, the loop advances an iterator that is
  already at the end.
\<close>

lemma remove_sentinel_by_runid:
  assumes "get_inst s i = Ret x" and "sentinels x = m @ (k, j) # m'"
    and "get_inst s j = Ret y" and "fi_runid y = runid"
    and "\<forall>(k, n) \<in> set (m @ m'). \<exists>z. get_inst s n = Ret z \<and> fi_runid z \<noteq> runid"
  shows "removeMatchingSentinel runid i s =
    (if m' = [] then Fault OutOfBounds
     else Ret (upd_inst i (\<lambda>x. x\<lparr>sentinels := m @ m'\<rparr>) s, 1))"
proof (cases "m' = []")
  case True
  with remove_sentinels_last [of m s runid j y k] assms show ?thesis
    by (simp add: removeMatchingSentinel_def)
next
  case False
  with remove_sentinels_one [OF assms(5,3,4)] assms(1,2) show ?thesis
    by (simp add: removeMatchingSentinel_def)
qed

text \<open>
  The reply to a ping marks the link available exactly for PONG, LOADING and MASTERDOWN, always
  counts one command less and stamps the pong time; SCRIPT KILL is never sent, whatever the reply
  and the flags, because the test of the already-sent flag is false for every flag word.
\<close>

lemma ping_reply_effect:
  assumes "l < length (links s)" and "reply_text r = Some str" and "get_inst s i = Ret x"
  shows "\<exists>s'. sentinelPingReplyCallback now rv (Some l) (Some r) i s = Ret s' \<and> sent s' = sent s \<and>
    instances s' = instances s \<and>
    links s' ! l = (if ping_ok str
       then (links s ! l)\<lparr>pendingCommands := pendingCommands (links s ! l) - 1,
              lastAvailTime := now, actPingTime := 0, lastPongTime := now\<rparr>
       else (links s ! l)\<lparr>pendingCommands := pendingCommands (links s ! l) - 1, lastPongTime := now\<rparr>)"
  using assms
  by (simp add: sentinelPingReplyCallback_def script_kill_never Let_def)
    (auto simp: upd_lid_def decreasePendingCommands_def)

text \<open>
  Aborting a failover that has not reached the promotion wait puts the instance back to the idle
  failover state, clears both failover flags, and withdraws the promotion mark of the slave that had
  been chosen; outside those states the assertions stop the program.
\<close>

lemma abort_failover_effect:
  assumes "get_inst s i = Ret x" and "has_flag (fi_flags x) FSI_FAILOVER_IN_PROGRESS"
    and "failoverState x < SENTINEL_FAILOVER_STATE_WAIT_PROMOTION"
    and "promotedSlave x = Some p" and "p \<noteq> i" and "get_inst s p = Ret y"
  shows "\<exists>s' x' y'. abortFailover now i s = Ret s' \<and> get_inst s' i = Ret x' \<and> get_inst s' p = Ret y' \<and>
    failoverState x' = SENTINEL_FAILOVER_STATE_NONE \<and> promotedSlave x' = None \<and>
    \<not> has_flag (fi_flags x') (FSI_FAILOVER_IN_PROGRESS OR FSI_FORCE_FAILOVER) \<and>
    \<not> has_flag (fi_flags y') FSI_PROMOTED"
proof -
  let ?f = "\<lambda>x. (fi_delFlags (FSI_FAILOVER_IN_PROGRESS OR FSI_FORCE_FAILOVER) x)
      \<lparr>failoverState := SENTINEL_FAILOVER_STATE_NONE, failoverStateChangeTime := now\<rparr>"
  let ?s1 = "upd_inst i ?f s"
  let ?s2 = "upd_inst p (fi_delFlags FSI_PROMOTED) ?s1"
  let ?s3 = "upd_inst i (\<lambda>x. x\<lparr>promotedSlave := None\<rparr>) ?s2"
  have p1: "get_inst ?s1 p = Ret y" using get_inst_upd [OF assms(6)] assms(5) by simp
  have "get_inst ?s1 i = Ret (?f x)" using get_inst_upd [OF assms(1)] by simp
  then have "get_inst ?s2 i = Ret (?f x)" using get_inst_upd assms(5) by fastforce
  then have i3: "get_inst ?s3 i = Ret ((?f x)\<lparr>promotedSlave := None\<rparr>)" using get_inst_upd by fastforce
  have "get_inst ?s2 p = Ret (fi_delFlags FSI_PROMOTED y)" using get_inst_upd [OF p1] by simp
  then have p3: "get_inst ?s3 p = Ret (fi_delFlags FSI_PROMOTED y)" using get_inst_upd assms(5) by fastforce
  have "abortFailover now i s = Ret ?s3"
    using assms(1-4) p1 by (simp add: abortFailover_def Let_def)
  with i3 p3 del_flags_gone [of "FSI_FAILOVER_IN_PROGRESS OR FSI_FORCE_FAILOVER" x]
    del_flags_gone [of FSI_PROMOTED y]
  show ?thesis by simp
qed

end
