(* ===== verification/Sentinel.thy ===== *)
theory Sentinel imports FlyInstance begin

text \<open>
  The operations of src/src/flysentinel/FlySentinel.cpp on the monitored instances: events,
  creation, lookups, resets, and the start of a failover.

  Within one operation the clock shows one value, \<open>now\<close>. A format string that starts with
  \<open>%@\<close> is the argument \<open>at = True\<close> of \<open>sendEvent\<close>; \<open>rest\<close> is the text the remaining
  format and arguments produce.
\<close>

section \<open>Events\<close>

definition event_prefix :: "sentinel \<Rightarrow> fly_instance \<Rightarrow> string res" where
  "event_prefix s x =
     (let me = c_str (fi_name x) @ '' '' @ c_str (sa_ip (fi_addr x)) @ '' '' @ int_dec (sa_port (fi_addr x))
      in if haveMaster x then
           res_bind (deref s (fi_master x)) (\<lambda>m.
             Ret (me @ '' @ '' @ c_str (fi_name m) @ '' '' @ c_str (sa_ip (fi_addr m)) @ '' '' @
                  int_dec (sa_port (fi_addr m))))
         else Ret me)"

text \<open>The log line and, unless it is a debug event, the publication on the channel \<open>type\<close>.\<close>

definition log_event :: "log_level \<Rightarrow> string \<Rightarrow> string \<Rightarrow> sentinel \<Rightarrow> sentinel" where
  "log_event level type msg s =
     (let s = s\<lparr>events := events s @ [(level, type, msg)]\<rparr>
      in if level \<noteq> LL_DEBUG then s\<lparr>published := published s @ [(type, msg)]\<rparr> else s)"

definition notify_script :: "string \<Rightarrow> string \<Rightarrow> iid option \<Rightarrow> sentinel \<Rightarrow> sentinel res" where
  "notify_script type msg master s =
     (case master of
        None \<Rightarrow> Ret s
      | Some m \<Rightarrow>
          res_bind (get_inst s m) (\<lambda>y.
            case notificationScript y of
              None \<Rightarrow> Ret s
            | Some path \<Rightarrow>
                res_bind (scheduleScriptExecution path [type, msg] (scripts s)) (\<lambda>q.
                  Ret (s\<lparr>scripts := q\<rparr>))))"

definition sendEvent ::
  "log_level \<Rightarrow> string \<Rightarrow> iid option \<Rightarrow> bool \<Rightarrow> string \<Rightarrow> sentinel \<Rightarrow> sentinel res" where
  "sendEvent level type inst at rest s =
     (case inst of
        None \<Rightarrow> Ret s
      | Some i \<Rightarrow>
          res_bind (get_inst s i) (\<lambda>x.
          res_bind (if at then event_prefix s x else Ret []) (\<lambda>pre.
            let msg = take (LOG_MAX_LEN - 1) (pre @ rest); s = log_event level type msg s
            in if level = LL_WARNING
               then notify_script type msg (if haveMaster x then fi_master x else Some i) s
               else Ret s)))"

fun init_events :: "(string, iid) omap \<Rightarrow> sentinel \<Rightarrow> sentinel res" where
  "init_events [] s = Ret s"
| "init_events ((k, i) # m) s =
     res_bind (get_inst s i) (\<lambda>x.
     res_bind (sendEvent LL_WARNING ''+monitor'' (Some i) True ('' quorum '' @ nat_dec (unat (quorum x))) s)
       (init_events m))"

definition generateInitMonitorEvents :: "sentinel \<Rightarrow> sentinel res" where
  "generateInitMonitorEvents s = init_events (masters s) s"

definition callClientReconfScript ::
  "iid \<Rightarrow> flags \<Rightarrow> string \<Rightarrow> sentinel_addr \<Rightarrow> sentinel_addr \<Rightarrow> sentinel \<Rightarrow> sentinel res" where
  "callClientReconfScript m role state from to s =
     res_bind (get_inst s m) (\<lambda>x.
       case clientReconfigScript x of
         None \<Rightarrow> Ret s
       | Some path \<Rightarrow>
           res_bind (scheduleScriptExecution path
             [fi_name x, if role = SENTINEL_OBSERVER then ''leader'' else ''observer'', state,
              sa_ip from, int_dec (sa_port from), sa_ip to, int_dec (sa_port to)] (scripts s)) (\<lambda>q.
           Ret (s\<lparr>scripts := q\<rparr>)))"

section \<open>Creation and lookup\<close>

definition alloc_inst :: "fly_instance \<Rightarrow> sentinel \<Rightarrow> sentinel \<times> iid" where
  "alloc_inst x s = (s\<lparr>instances := instances s @ [Some x]\<rparr>, length (instances s))"

definition createFlyInstance ::
  "fly_instance \<Rightarrow> 64 word \<Rightarrow> string \<Rightarrow> flags \<Rightarrow> string \<Rightarrow> int \<Rightarrow> 32 word \<Rightarrow> iid option \<Rightarrow> sentinel \<Rightarrow>
   (sentinel \<times> iid) res" where
  "createFlyInstance raw now name flags hostname port q master s =
     res_bind (case master of None \<Rightarrow> Ret 0
               | Some m \<Rightarrow> res_bind (get_inst s m) (\<lambda>y. Ret (downAfterPeriod y))) (\<lambda>down.
       let (s, i) = alloc_inst (new_instance raw now name flags hostname port q master down) s in
       if has_flag flags FSI_MASTER then Ret (s\<lparr>masters := omap_put name i (masters s)\<rparr>, i)
       else if has_flag flags FSI_SLAVE then
         (case master of None \<Rightarrow> Fault NullDeref
          | Some m \<Rightarrow> Ret (upd_inst m (\<lambda>y. fst (addSlave name i y)) s, i))
       else if has_flag flags FSI_SENTINEL then
         (case master of None \<Rightarrow> Fault NullDeref
          | Some m \<Rightarrow> Ret (upd_inst m (\<lambda>y. fst (addSentinel name i y)) s, i))
       else Ret (s, i))"

text \<open>\<open>None\<close> for a null \<open>ip\<close> or \<open>runid\<close>; the port is compared in every case.\<close>

fun find_instance ::
  "sentinel \<Rightarrow> string option \<Rightarrow> int \<Rightarrow> string option \<Rightarrow> (string, iid) omap \<Rightarrow> iid option res" where
  "find_instance s ip port runid [] = Ret None"
| "find_instance s ip port runid ((k, i) # m) =
     res_bind (get_inst s i) (\<lambda>x.
       if (case runid of None \<Rightarrow> True | Some r \<Rightarrow> fi_runid x = r)
          \<and> (case ip of None \<Rightarrow> True | Some a \<Rightarrow> sa_ip (fi_addr x) = a)
          \<and> port = sa_port (fi_addr x)
       then Ret (Some i) else find_instance s ip port runid m)"

definition getFlyInstanceByAddrAndRunID ::
  "sentinel \<Rightarrow> (string, iid) omap \<Rightarrow> string option \<Rightarrow> int \<Rightarrow> string option \<Rightarrow> iid option res" where
  "getFlyInstanceByAddrAndRunID s m ip port runid =
     (if ip = None \<and> runid = None then Ret None else find_instance s ip port runid m)"

definition getMasterByName :: "string \<Rightarrow> sentinel \<Rightarrow> iid option" where
  "getMasterByName name s = map_of (masters s) name"

section \<open>Sharing links and updating addresses\<close>

text \<open>
  \<open>share_loop\<close> runs over the masters; the callbacks pending on the instance's own shared link are
  not used here because the link is released only when it is not shared.
\<close>

fun share_loop :: "iid \<Rightarrow> fly_instance \<Rightarrow> (string, iid) omap \<Rightarrow> sentinel \<Rightarrow> (sentinel \<times> int) res" where
  "share_loop i x [] s = Ret (s, -1)"
| "share_loop i x ((k, m) # ms) s =
     (if fi_master x = Some m then share_loop i x ms s
      else res_bind (get_inst s m) (\<lambda>y.
        res_bind (getFlyInstanceByAddrAndRunID s (sentinels y) None 0 (Some (c_str (fi_runid x)))) (\<lambda>r.
          case r of
            None \<Rightarrow> share_loop i x ms s
          | Some j \<Rightarrow>
              if j = i then share_loop i x ms s
              else res_bind (releaseLink i [] s) (\<lambda>(s, _).
                     res_bind (get_inst s j) (\<lambda>z. Ret (setLink i (fi_link z) s, 1))))))"

definition tryConnectionSharing :: "iid \<Rightarrow> sentinel \<Rightarrow> (sentinel \<times> int) res" where
  "tryConnectionSharing i s =
     res_bind (get_inst s i) (\<lambda>x.
       if \<not> has_flag (fi_flags x) FSI_SENTINEL then Fault AssertFailed
       else if fi_runid x = [] then Ret (s, -1)
       else if use_count s (fi_link x) > 1 then Ret (s, -1)
       else share_loop i x (masters s) s)"

fun update_loop :: "iid \<Rightarrow> fly_instance \<Rightarrow> (string, iid) omap \<Rightarrow> sentinel \<Rightarrow> nat \<Rightarrow> (sentinel \<times> nat) res" where
  "update_loop i x [] s n = Ret (s, n)"
| "update_loop i x ((k, m) # ms) s n =
     res_bind (get_inst s m) (\<lambda>y.
     res_bind (getFlyInstanceByAddrAndRunID s (sentinels y) None 0 (Some (c_str (fi_runid x)))) (\<lambda>r.
       case r of
         None \<Rightarrow> update_loop i x ms s n
       | Some j \<Rightarrow>
           res_bind (get_inst s j) (\<lambda>z.
           res_bind (get_link s z) (\<lambda>l.
             let s = upd_link z (\<lambda>l. fst (closeConnection (commandContext l) l)) s;
                 s = upd_link z (\<lambda>l. fst (closeConnection (pubsubContext l) l)) s in
             if j = i then update_loop i x ms s n
             else res_bind (get_inst s i) (\<lambda>w.
                    update_loop i x ms (upd_inst j (dupAddr (fi_addr w)) s) (Suc n))))))"

definition updateSentinelAddrInAllMasters :: "iid \<Rightarrow> sentinel \<Rightarrow> (sentinel \<times> nat) res" where
  "updateSentinelAddrInAllMasters i s =
     res_bind (get_inst s i) (\<lambda>x.
       if \<not> has_flag (fi_flags x) FSI_SENTINEL then Fault AssertFailed
       else res_bind (update_loop i x (masters s) s 0) (\<lambda>(s, n).
         if n > 0 then
           res_bind (sendEvent LL_NOTICE ''+sentinel-address-update'' (Some i) True
             ('' '' @ nat_dec n @ '' additional matching instances'') s) (\<lambda>s. Ret (s, n))
         else Ret (s, n)))"

section \<open>Resets\<close>

definition resetMaster :: "64 word \<Rightarrow> iid \<Rightarrow> flags \<Rightarrow> sentinel \<Rightarrow> sentinel res" where
  "resetMaster now m flags s =
     res_bind (get_inst s m) (\<lambda>x.
       if \<not> has_flag (fi_flags x) FSI_MASTER then Fault AssertFailed
       else res_bind (fi_reset now flags m s) (\<lambda>s.
         if has_flag flags SENTINEL_GENERATE_EVENT
         then sendEvent LL_WARNING ''+reset-master'' (Some m) True [] s else Ret s))"

fun reset_loop ::
  "64 word \<Rightarrow> string \<Rightarrow> flags \<Rightarrow> (string, iid) omap \<Rightarrow> sentinel \<Rightarrow> nat \<Rightarrow> (sentinel \<times> nat) res" where
  "reset_loop now pattern flags [] s n = Ret (s, n)"
| "reset_loop now pattern flags ((k, i) # m) s n =
     (if stringmatch pattern k False
      then res_bind (resetMaster now i flags s) (\<lambda>s. reset_loop now pattern flags m s (Suc n))
      else reset_loop now pattern flags m s n)"

definition resetMasterByPattern ::
  "64 word \<Rightarrow> string \<Rightarrow> flags \<Rightarrow> sentinel \<Rightarrow> (sentinel \<times> nat) res" where
  "resetMasterByPattern now pattern flags s = reset_loop now pattern flags (masters s) s 0"

text \<open>
  The addresses of the slaves other than the new master's, then the old address when it differs.
  They are pointers into objects that \<open>resetMaster\<close> and \<open>setAddr\<close> have deleted by the time the
  slaves are added back; the name handed to \<open>createFlyInstance\<close> is a std::string made from a null
  pointer, and the old address is deleted a second time at the end.
\<close>

fun slave_addrs :: "sentinel \<Rightarrow> sentinel_addr \<Rightarrow> (string, iid) omap \<Rightarrow> sentinel_addr list res" where
  "slave_addrs s newaddr [] = Ret []"
| "slave_addrs s newaddr ((k, i) # m) =
     res_bind (get_inst s i) (\<lambda>x.
     res_bind (slave_addrs s newaddr m) (\<lambda>as.
       Ret (if addr_eq (fi_addr x) newaddr then as else fi_addr x # as)))"

definition resetMasterAndChangeAddress ::
  "64 word \<Rightarrow> iid \<Rightarrow> string \<Rightarrow> int \<Rightarrow> sentinel \<Rightarrow> sentinel res" where
  "resetMasterAndChangeAddress now m ip port s =
     (let newaddr = \<lparr>sa_ip = ip, sa_port = port\<rparr> in
      res_bind (get_inst s m) (\<lambda>x.
      res_bind (slave_addrs s newaddr (slaves x)) (\<lambda>as.
        let slaveAddrs = (if addr_neq newaddr (fi_addr x) then as @ [fi_addr x] else as) in
        res_bind (resetMaster now m SENTINEL_RESET_SENTINELS s) (\<lambda>s.
          let s = upd_inst m (\<lambda>x. x\<lparr>fi_addr := newaddr\<rparr>) s in
          if slaveAddrs \<noteq> [] then Fault NullDeref
          else Fault UseAfterFree))))"

fun set_down :: "64 word \<Rightarrow> (string, iid) omap \<Rightarrow> sentinel \<Rightarrow> sentinel res" where
  "set_down d [] s = Ret s"
| "set_down d ((k, i) # m) s =
     res_bind (get_inst s i) (\<lambda>_. set_down d m (upd_inst i (\<lambda>x. x\<lparr>downAfterPeriod := d\<rparr>) s))"

definition propagateDownAfterPeriod :: "iid \<Rightarrow> sentinel \<Rightarrow> sentinel res" where
  "propagateDownAfterPeriod m s =
     res_bind (get_inst s m) (\<lambda>x.
     res_bind (set_down (downAfterPeriod x) (slaves x) s)
       (set_down (downAfterPeriod x) (sentinels x)))"

section \<open>Failover\<close>

definition startFailover :: "64 word \<Rightarrow> nat \<Rightarrow> iid \<Rightarrow> sentinel \<Rightarrow> sentinel res" where
  "startFailover now rand i s =
     res_bind (get_inst s i) (\<lambda>x.
       if \<not> has_flag (fi_flags x) FSI_MASTER then Fault AssertFailed
       else
         let s = upd_inst i (\<lambda>x. (fi_addFlags FSI_FAILOVER_IN_PROGRESS x)
               \<lparr>failoverState := SENTINEL_FAILOVER_STATE_WAIT_START,
                failoverEpoch := currentEpoch s + 1\<rparr>) s in
         res_bind (sendEvent LL_NOTICE ''+new-epoch'' (Some i) False (nat_dec (unat (currentEpoch s))) s) (\<lambda>s.
         res_bind (sendEvent LL_WARNING ''+try-failover'' (Some i) True [] s) (\<lambda>s.
           Ret (upd_inst i (\<lambda>x. x\<lparr>failoverStartTime := now + of_nat (rand mod SENTINEL_MAX_DESYNC),
                                 failoverStateChangeTime := now\<rparr>) s))))"

text \<open>
  \<open>0 == this->flags & FSI_O_DOWN\<close> and \<open>0 == this->flags & FSI_FAILOVER_IN_PROGRESS\<close> are
  \<open>(0 == flags) & mask\<close>.
\<close>

definition startFailoverIfNeeded :: "64 word \<Rightarrow> nat \<Rightarrow> iid \<Rightarrow> sentinel \<Rightarrow> (sentinel \<times> bool) res" where
  "startFailoverIfNeeded now rand i s =
     res_bind (get_inst s i) (\<lambda>x.
       if eq0_and (fi_flags x) FSI_O_DOWN then Ret (s, False)
       else if eq0_and (fi_flags x) FSI_FAILOVER_IN_PROGRESS then Ret (s, False)
       else if now - failoverStartTime x < failoverTimeout x * 2 then Ret (s, False)
       else res_bind (startFailover now rand i s) (\<lambda>s. Ret (s, True)))"

definition masterLookSane :: "64 word \<Rightarrow> fly_instance \<Rightarrow> bool" where
  "masterLookSane now m \<longleftrightarrow>
     has_flag (fi_flags m) FSI_MASTER \<and> has_flag (roleReported m) FSI_MASTER \<and>
     eq0_and (fi_flags m) (FSI_O_DOWN OR FSI_S_DOWN) \<and>
     infoRefresh m > now - 2 * SENTINEL_INFO_PERIOD"

text \<open>The else branch of \<open>getCurrentMasterAddress\<close> has no return.\<close>

definition getCurrentMasterAddress :: "iid \<Rightarrow> sentinel \<Rightarrow> sentinel_addr res" where
  "getCurrentMasterAddress m s =
     res_bind (get_inst s m) (\<lambda>x.
       if has_flag (fi_flags x) FSI_FAILOVER_IN_PROGRESS \<and> promotedSlave x \<noteq> None
          \<and> failoverState x > SENTINEL_FAILOVER_STATE_RECONF_SLAVES
       then res_bind (deref s (promotedSlave x)) (\<lambda>p. Ret (fi_addr p))
       else Fault MissingReturn)"

end
