(* ===== verification/SentinelFacts.thy ===== *)
theory SentinelFacts imports Sentinel begin

text \<open>
  What the sentinel's instance operations guarantee, and the operations that cannot succeed as they
  are written: events on masters, failover, address changes, connection sharing.
\<close>

section \<open>Events\<close>

lemma sendEvent_master_faults:
  assumes "get_inst s i = Ret x" and "fi_flags x \<noteq> 0" and "fi_master x = None"
  shows "sendEvent level type (Some i) True rest s = Fault NullDeref"
  using assms by (simp add: sendEvent_def event_prefix_def Let_def haveMaster_iff)

lemma sendEvent_null [simp]: "sendEvent level type None at rest s = Ret s"
  by (simp add: sendEvent_def)

text \<open>Events change only the logs and the script queue.\<close>

definition same_heap :: "sentinel \<Rightarrow> sentinel \<Rightarrow> bool" where
  "same_heap s t \<longleftrightarrow> instances t = instances s \<and> links t = links s \<and> masters t = masters s \<and>
     currentEpoch t = currentEpoch s \<and> tilt t = tilt s \<and> tiltStartTime t = tiltStartTime s \<and>
     previousTime t = previousTime s \<and> sent t = sent s \<and> myid t = myid s"

lemma same_heap_refl [simp]: "same_heap s s"
  by (simp add: same_heap_def)

lemma same_heap_trans: "same_heap s t \<Longrightarrow> same_heap t u \<Longrightarrow> same_heap s u"
  by (simp add: same_heap_def)

lemma same_heap_get: "same_heap s t \<Longrightarrow> get_inst t i = get_inst s i"
  by (simp add: same_heap_def get_inst_def)

lemma log_event_same_heap: "same_heap s (log_event level type msg s)"
  by (simp add: log_event_def same_heap_def Let_def)

lemma notify_script_same_heap: "notify_script type msg m s = Ret t \<Longrightarrow> same_heap s t"
  by (auto simp: notify_script_def same_heap_def res_bind_eq_Ret split: option.splits)

lemma sendEvent_same_heap: "sendEvent level type inst at rest s = Ret t \<Longrightarrow> same_heap s t"
  by (auto simp: sendEvent_def Let_def res_bind_eq_Ret split: option.splits if_splits
      intro: log_event_same_heap same_heap_trans [OF log_event_same_heap notify_script_same_heap])

lemma sendEvent_plain:
  assumes "get_inst s i = Ret x" and "level \<noteq> LL_WARNING"
  shows "\<exists>t. sendEvent level type (Some i) False rest s = Ret t \<and> same_heap s t"
  using assms by (simp add: sendEvent_def log_event_same_heap)

section \<open>Creation\<close>

lemma alloc_get:
  "get_inst s i = Ret x \<Longrightarrow> get_inst (fst (alloc_inst y s)) i = Ret x"
  "get_inst (fst (alloc_inst y s)) (length (instances s)) = Ret y"
  by (auto simp: alloc_inst_def get_inst_iff nth_append)

lemma flag_parts:
  "has_flag FSI_SENTINEL FSI_MASTER \<longleftrightarrow> False" "has_flag FSI_SENTINEL FSI_SLAVE \<longleftrightarrow> False"
  "has_flag FSI_SENTINEL FSI_SENTINEL \<longleftrightarrow> True" "has_flag FSI_SLAVE FSI_MASTER \<longleftrightarrow> False"
  "has_flag FSI_SLAVE FSI_SLAVE \<longleftrightarrow> True" "has_flag FSI_MASTER FSI_MASTER \<longleftrightarrow> True"
  by code_simp+

lemma create_sentinel:
  assumes m: "get_inst s m = Ret y"
  shows "\<exists>t i. createFlyInstance raw now name FSI_SENTINEL ip port q (Some m) s = Ret (t, i) \<and>
    i = length (instances s) \<and>
    get_inst t i = Ret (new_instance raw now name FSI_SENTINEL ip port q (Some m) (downAfterPeriod y)) \<and>
    get_inst t m = Ret (fst (addSentinel name i y)) \<and>
    (\<forall>j z. j \<noteq> m \<longrightarrow> get_inst s j = Ret z \<longrightarrow> get_inst t j = Ret z) \<and>
    masters t = masters s \<and> links t = links s \<and> currentEpoch t = currentEpoch s"
proof -
  let ?i = "length (instances s)"
  let ?x = "new_instance raw now name FSI_SENTINEL ip port q (Some m) (downAfterPeriod y)"
  let ?a = "fst (alloc_inst ?x s)"
  let ?t = "upd_inst m (\<lambda>y. fst (addSentinel name ?i y)) ?a"
  have ne: "m \<noteq> ?i" using get_inst_less [OF m] by simp
  have "createFlyInstance raw now name FSI_SENTINEL ip port q (Some m) s = Ret (?t, ?i)"
    using m by (simp add: createFlyInstance_def flag_parts alloc_inst_def)
  moreover have "get_inst ?t ?i = Ret ?x" using get_inst_upd [OF alloc_get(2)] ne by simp
  moreover have "get_inst ?t m = Ret (fst (addSentinel name ?i y))"
    using get_inst_upd [OF alloc_get(1) [OF m]] by simp
  moreover have "\<forall>j z. j \<noteq> m \<longrightarrow> get_inst s j = Ret z \<longrightarrow> get_inst ?t j = Ret z"
    using get_inst_upd [OF alloc_get(1)] by simp
  moreover have "masters ?t = masters s" "links ?t = links s" "currentEpoch ?t = currentEpoch s"
    by (simp_all add: alloc_inst_def)
  ultimately show ?thesis by blast
qed

section \<open>Lookup by address and runid\<close>

lemma find_instance_none:
  assumes "\<forall>(k, i) \<in> set m. \<exists>x. get_inst s i = Ret x \<and> sa_port (fi_addr x) \<noteq> port"
  shows "find_instance s ip port runid m = Ret None"
  using assms by (induction m) auto

definition alive_ports :: "sentinel \<Rightarrow> bool" where
  "alive_ports s \<longleftrightarrow> (\<forall>(k, m) \<in> set (masters s). \<exists>y. get_inst s m = Ret y \<and>
     (\<forall>(k, i) \<in> set (sentinels y). \<exists>x. get_inst s i = Ret x \<and> sa_port (fi_addr x) \<noteq> 0))"

lemma share_loop_none:
  assumes "\<forall>(k, m) \<in> set ms. \<exists>y. get_inst s m = Ret y \<and>
     (\<forall>(k, i) \<in> set (sentinels y). \<exists>x. get_inst s i = Ret x \<and> sa_port (fi_addr x) \<noteq> 0)"
  shows "share_loop i x ms s = Ret (s, -1)"
  using assms
proof (induction ms)
  case (Cons km ms)
  obtain k m where km: "km = (k, m)" by force
  obtain y where y: "get_inst s m = Ret y"
    "\<forall>(k, i) \<in> set (sentinels y). \<exists>x. get_inst s i = Ret x \<and> sa_port (fi_addr x) \<noteq> 0"
    using Cons.prems km by auto
  then have "find_instance s None 0 r (sentinels y) = Ret None" for r
    by (intro find_instance_none) auto
  then show ?case using Cons km y by (simp add: getFlyInstanceByAddrAndRunID_def)
qed simp

section \<open>Sanity of masters\<close>

lemma masterLookSane_False: "masterLookSane now m \<longleftrightarrow> False"
proof -
  have "even (FSI_O_DOWN OR FSI_S_DOWN)" by (simp add: FSI_O_DOWN_def FSI_S_DOWN_def)
  then show ?thesis by (simp add: masterLookSane_def eq0_and_even)
qed

section \<open>Properties\<close>

text \<open>
  For an instance with the master flag and no master of its own, as every configured master is,
  the failover start is decided by the clock alone: neither the objectively-down flag nor a failover
  in progress is looked at. When the time guard passes, the program dereferences the null master
  pointer while it sends +try-failover.
\<close>

lemma start_failover_decision:
  assumes "get_inst s i = Ret x" and "has_flag (fi_flags x) FSI_MASTER" and "fi_master x = None"
  shows "startFailoverIfNeeded now rand i s =
    (if now - failoverStartTime x < failoverTimeout x * 2 then Ret (s, False) else Fault NullDeref)"
proof -
  have never: "\<not> eq0_and f FSI_O_DOWN" "\<not> eq0_and f FSI_FAILOVER_IN_PROGRESS" for f
    by (simp_all add: eq0_and_even FSI_O_DOWN_def FSI_FAILOVER_IN_PROGRESS_def)
  let ?f = "\<lambda>x. (fi_addFlags FSI_FAILOVER_IN_PROGRESS x)
      \<lparr>failoverState := SENTINEL_FAILOVER_STATE_WAIT_START, failoverEpoch := currentEpoch s + 1\<rparr>"
  have g: "get_inst (upd_inst i ?f s) i = Ret (?f x)" using get_inst_upd [OF assms(1)] by simp
  obtain t where t: "sendEvent LL_NOTICE ''+new-epoch'' (Some i) False
      (nat_dec (unat (currentEpoch s))) (upd_inst i ?f s) = Ret t" "same_heap (upd_inst i ?f s) t"
    using sendEvent_plain [OF g] by blast
  have "has_flag (fi_flags (?f x)) FSI_MASTER"
    using assms(2) by (simp add: fi_addFlags_def has_flag_or)
  then have "fi_flags (?f x) \<noteq> 0" by (auto simp: has_flag_zero)
  then have "sendEvent LL_WARNING ''+try-failover'' (Some i) True [] t = Fault NullDeref"
    using sendEvent_master_faults [of t i "?f x"] g same_heap_get [OF t(2)] assms(3)
    by (simp add: fi_addFlags_def)
  then show ?thesis
    using assms(1,2) never t(1) by (simp add: startFailoverIfNeeded_def startFailover_def Let_def)
qed

text \<open>
  Every event whose format begins with the instance description faults on a master without a
  master of its own, at every level; in particular the +monitor events sent at start do so as soon
  as one master is configured.
\<close>

lemma master_event_faults:
  assumes "get_inst s i = Ret x" and "has_flag (fi_flags x) FSI_MASTER" and "fi_master x = None"
  shows "sendEvent level type (Some i) True rest s = Fault NullDeref \<and>
    (\<forall>k ms. masters s = (k, i) # ms \<longrightarrow> generateInitMonitorEvents s = Fault NullDeref)"
proof -
  have "fi_flags x \<noteq> 0" using assms(2) by (auto simp: has_flag_zero)
  with sendEvent_master_faults [OF assms(1) _ assms(3)] show ?thesis
    by (simp add: generateInitMonitorEvents_def assms(1))
qed

text \<open>
  Applying a changed master address never completes: with any slave address or a changed
  address there is a slave to add back, whose name is a null pointer, and otherwise the old address,
  already deleted by \<open>setAddr\<close>, is deleted again.
\<close>

lemma change_address_never_returns:
  "\<not> is_ret (resetMasterAndChangeAddress now m ip port s)"
proof (cases "get_inst s m")
  case (Ret x)
  show ?thesis
  proof (cases "slave_addrs s \<lparr>sa_ip = ip, sa_port = port\<rparr> (slaves x)")
    case (Ret as)
    with \<open>get_inst s m = Ret x\<close> show ?thesis
      by (cases "resetMaster now m SENTINEL_RESET_SENTINELS s")
        (auto simp: resetMasterAndChangeAddress_def Let_def)
  qed (simp add: resetMasterAndChangeAddress_def \<open>get_inst s m = Ret x\<close>)
qed (simp add: resetMasterAndChangeAddress_def)

text \<open>
  Connections are never shared between the instances that stand for one sentinel process: the
  lookup is made with port 0, which no live address has, so the state is left alone and the result
  is -1.
\<close>

lemma connection_sharing_never_happens:
  assumes "get_inst s i = Ret x" and "has_flag (fi_flags x) FSI_SENTINEL" and "alive_ports s"
  shows "tryConnectionSharing i s = Ret (s, -1)"
  using assms share_loop_none [of "masters s" s i x]
  by (simp add: tryConnectionSharing_def alive_ports_def)

text \<open>
  The sanity check of a master fails for every master: its test for not being down is
  \<open>(0 == flags) & mask\<close> with an even mask. So no slave is ever converted back or repointed.
\<close>

lemma master_never_looks_sane: "masterLookSane now m = False"
  by (simp add: masterLookSane_False)

text \<open>
  Creating a sentinel instance under a live master puts a new object on the heap with the given
  address and the master's down-after period, registers it in the master's map unless the name is
  taken, and leaves every other instance as it was.
\<close>

lemma create_sentinel_registers:
  assumes "get_inst s m = Ret y" and "map_of (sentinels y) name = None" and "omap (sentinels y)"
  shows "\<exists>t i x y'. createFlyInstance raw now name FSI_SENTINEL ip port q (Some m) s = Ret (t, i) \<and>
    get_inst s i = Fault OutOfBounds \<and> get_inst t i = Ret x \<and> get_inst t m = Ret y' \<and>
    fi_addr x = \<lparr>sa_ip = ip, sa_port = port\<rparr> \<and> fi_master x = Some m \<and> fi_link x = None \<and>
    downAfterPeriod x = downAfterPeriod y \<and>
    map_of (sentinels y') = (map_of (sentinels y))(name \<mapsto> i) \<and>
    (\<forall>j z. j \<noteq> m \<longrightarrow> get_inst s j = Ret z \<longrightarrow> get_inst t j = Ret z)"
proof -
  obtain t where t: "createFlyInstance raw now name FSI_SENTINEL ip port q (Some m) s
      = Ret (t, length (instances s))"
    "get_inst t (length (instances s)) =
      Ret (new_instance raw now name FSI_SENTINEL ip port q (Some m) (downAfterPeriod y))"
    "get_inst t m = Ret (fst (addSentinel name (length (instances s)) y))"
    "\<forall>j z. j \<noteq> m \<longrightarrow> get_inst s j = Ret z \<longrightarrow> get_inst t j = Ret z"
    using create_sentinel [OF assms(1), of raw now name ip port q] by blast
  moreover have "get_inst s (length (instances s)) = Fault OutOfBounds" by (simp add: get_inst_def)
  ultimately show ?thesis
    using assms(2,3) by (simp add: addSentinel_def map_of_omap_put new_instance_def)
qed

end
