(* ===== verification/SentinelHello.thy ===== *)
theory SentinelHello imports SentinelFacts begin

text \<open>
  The gossip between sentinels: \<open>processHelloMessage\<close>, \<open>receiveHelloMessage\<close> and \<open>sendHello\<close> of
  src/src/flysentinel/FlySentinel.cpp, the periodic commands, tilt mode and the timer.

  The instance created for an unknown sentinel is held in an inner variable that shadows the outer
  \<open>sentinel\<close>: after the block the outer one is still null, and the configuration part is skipped.
\<close>

definition NET_IP_STR_LEN :: nat where "NET_IP_STR_LEN = 46"

section \<open>Receiving\<close>

record hello =
  h_ip :: string
  h_port :: int
  h_runid :: string
  h_epoch :: "64 word"
  h_master :: string
  h_masterIP :: string
  h_masterPort :: int
  h_masterEpoch :: "64 word"

definition parse_hello :: "string \<Rightarrow> hello option" where
  "parse_hello msg =
     (case spiltString msg '','' of
        Some [a, b, c, d, e, f, g, h] \<Rightarrow>
          Some \<lparr>h_ip = a, h_port = atoi b, h_runid = c, h_epoch = strtoull d, h_master = e,
                h_masterIP = f, h_masterPort = atoi g, h_masterEpoch = strtoull h\<rparr>
      | _ \<Rightarrow> None)"

text \<open>The block for a sentinel that was not found by address and runid.\<close>

definition hello_new_sentinel ::
  "fly_instance \<Rightarrow> 64 word \<Rightarrow> hello \<Rightarrow> iid \<Rightarrow> sentinel \<Rightarrow> sentinel res" where
  "hello_new_sentinel raw now h m s =
     res_bind (removeMatchingSentinel (h_runid h) m s) (\<lambda>(s, removed).
     res_bind
       (if removed > 0 then
          sendEvent LL_NOTICE ''+sentinel-address-switch'' (Some m) True
            ('' ip '' @ c_str (h_ip h) @ '' port '' @ int_dec (h_port h) @ '' for '' @ c_str (h_runid h)) s
        else
          res_bind (get_inst s m) (\<lambda>y.
          res_bind (getFlyInstanceByAddrAndRunID s (sentinels y) (Some (c_str (h_ip h))) (h_port h) None)
            (\<lambda>another.
              case another of
                None \<Rightarrow> Ret s
              | Some a \<Rightarrow>
                  res_bind (sendEvent LL_NOTICE ''+sentinel-invalid-addr'' (Some a) True [] s) (\<lambda>s.
                  res_bind (updateSentinelAddrInAllMasters a (upd_inst a (setPort 0) s)) (\<lambda>(s, n).
                    Ret s)))))
       (\<lambda>s.
     res_bind (get_inst s m) (\<lambda>y.
     res_bind (createFlyInstance raw now (h_runid h) FSI_SENTINEL (h_ip h) (h_port h) (quorum y) (Some m) s)
       (\<lambda>(s, i).
     res_bind
       (if removed > 0 then
          res_bind (sendEvent LL_NOTICE ''+sentinel'' (Some i) True [] s) (\<lambda>s.
          res_bind (updateSentinelAddrInAllMasters i s) (\<lambda>(s, n). Ret s))
        else Ret s) (\<lambda>s.
     res_bind (tryConnectionSharing i (upd_inst i (\<lambda>x. x\<lparr>fi_runid := h_runid h\<rparr>) s)) (\<lambda>(s, r).
       Ret s))))))"

definition hello_epoch :: "hello \<Rightarrow> iid \<Rightarrow> sentinel \<Rightarrow> sentinel res" where
  "hello_epoch h m s =
     (if h_epoch h > currentEpoch s then
        sendEvent LL_WARNING ''+new-epoch'' (Some m) False (nat_dec (unat (h_epoch h)))
          (s\<lparr>currentEpoch := h_epoch h\<rparr>)
      else Ret s)"

definition hello_config :: "64 word \<Rightarrow> hello \<Rightarrow> iid \<Rightarrow> iid \<Rightarrow> sentinel \<Rightarrow> sentinel res" where
  "hello_config now h m i s =
     res_bind (get_inst s m) (\<lambda>y.
       if configEpoch y < h_masterEpoch h then
         let s = upd_inst m (\<lambda>y. y\<lparr>configEpoch := h_masterEpoch h\<rparr>) s in
         if h_masterPort h \<noteq> sa_port (fi_addr y) \<or> sa_ip (fi_addr y) \<noteq> h_masterIP h then
           res_bind (sendEvent LL_WARNING ''+config-update-from'' (Some i) True [] s) (\<lambda>s.
           res_bind (sendEvent LL_WARNING ''+switch-master'' (Some m) False
             (c_str (fi_name y) @ '' '' @ c_str (sa_ip (fi_addr y)) @ '' '' @ int_dec (sa_port (fi_addr y)) @
              '' '' @ c_str (h_masterIP h) @ '' '' @ int_dec (h_masterPort h)) s) (\<lambda>s.
           res_bind (resetMasterAndChangeAddress now m (c_str (h_masterIP h)) (h_masterPort h) s) (\<lambda>s.
           res_bind (get_inst s m) (\<lambda>z.
             callClientReconfScript m SENTINEL_OBSERVER ''start'' (fi_addr y) (fi_addr z) s))))
         else Ret s
       else Ret s)"

definition processHelloMessage :: "fly_instance \<Rightarrow> 64 word \<Rightarrow> string \<Rightarrow> sentinel \<Rightarrow> sentinel res" where
  "processHelloMessage raw now msg s =
     (case parse_hello msg of
        None \<Rightarrow> Ret s
      | Some h \<Rightarrow>
          (case getMasterByName (h_master h) s of
             None \<Rightarrow> Ret s
           | Some m \<Rightarrow>
               res_bind (get_inst s m) (\<lambda>y.
               res_bind (getFlyInstanceByAddrAndRunID s (sentinels y) (Some (c_str (h_ip h))) (h_port h)
                           (Some (c_str (h_runid h)))) (\<lambda>found.
               res_bind (if found = None then hello_new_sentinel raw now h m s else Ret s) (\<lambda>s.
               res_bind (hello_epoch h m s) (\<lambda>s.
                 case found of
                   None \<Rightarrow> Ret s
                 | Some i \<Rightarrow>
                     res_bind (hello_config now h m i s) (\<lambda>s.
                     res_bind (get_inst s i) (\<lambda>_.
                       Ret (upd_inst i (\<lambda>x. x\<lparr>lastHelloTime := now\<rparr>) s)))))))))"

text \<open>
  The reply of a subscribed connection: three strings, the first of which is \<open>message\<close>. A message
  that contains this sentinel's own id is ignored.
\<close>

definition receiveHelloMessage ::
  "fly_instance \<Rightarrow> 64 word \<Rightarrow> redis_reply option \<Rightarrow> iid option \<Rightarrow> sentinel \<Rightarrow> sentinel res" where
  "receiveHelloMessage raw now reply inst s =
     (case (reply, inst) of
        (Some r, Some i) \<Rightarrow>
          res_bind (get_inst s i) (\<lambda>x.
          res_bind (get_link s x) (\<lambda>_.
            let s = upd_link x (\<lambda>l. l\<lparr>pcLastActivity := now\<rparr>) s in
            case r of
              RArray [RString a, RString b, RString c] \<Rightarrow>
                if c_str a \<noteq> ''message'' then Ret s
                else if find_sub (c_str (myid s)) (c_str c) \<noteq> None then Ret s
                else processHelloMessage raw now (c_str c) s
            | _ \<Rightarrow> Ret s))
      | _ \<Rightarrow> Ret s)"

section \<open>Sending\<close>

definition hello_payload :: "string \<Rightarrow> int \<Rightarrow> fly_instance \<Rightarrow> sentinel \<Rightarrow> string" where
  "hello_payload ip port m s =
     take (NET_IP_STR_LEN + 1024 - 1)
       (c_str ip @ '','' @ int_dec port @ '','' @ c_str (myid s) @ '','' @ nat_dec (unat (currentEpoch s)) @ '','' @
        c_str (fi_name m) @ '','' @ c_str (sa_ip (fi_addr m)) @ '','' @ int_dec (sa_port (fi_addr m)) @ '','' @
        nat_dec (unat (configEpoch m)))"

text \<open>
  \<open>sockName\<close> is the result of getsockname (\<open>None\<close>: -1). It is written over the buffer of an empty
  std::string, which has room for 15 characters. \<open>rv\<close> is what hiredis returns.
\<close>

definition hello_announce_ip :: "string option \<Rightarrow> instance_link \<Rightarrow> sentinel \<Rightarrow> string option res" where
  "hello_announce_ip sockName l s =
     (if announceIP s \<noteq> [] then Ret (Some (announceIP s))
      else if commandContext l = None then Fault NullDeref
      else (case sockName of
              None \<Rightarrow> Ret None
            | Some a \<Rightarrow> if length a > 15 then Fault OutOfBounds else Ret (Some a)))"

definition sendHello :: "string option \<Rightarrow> (string list \<Rightarrow> int) \<Rightarrow> iid \<Rightarrow> sentinel \<Rightarrow> (sentinel \<times> int) res" where
  "sendHello sockName rv i s =
     res_bind (get_inst s i) (\<lambda>x.
     res_bind (if has_flag (fi_flags x) FSI_MASTER then Ret x else deref s (fi_master x)) (\<lambda>m.
     res_bind (get_link s x) (\<lambda>l.
       if disconnected l then Ret (s, -1)
       else
         res_bind (hello_announce_ip sockName l s) (\<lambda>ip.
           case ip of
             None \<Rightarrow> Ret (s, -1)
           | Some ip \<Rightarrow>
               let port = (if announcePort s = 0 then sv_port s else announcePort s);
                   cmd = [''PUBLISH'', ''__sentinel__:hello'', hello_payload ip port m s]
               in if rv cmd = -1 then Ret (send_cmd i cmd s, -1)
                  else Ret (upd_link x increasePendingCommands (send_cmd i cmd s), 1)))))"

definition sendPing :: "64 word \<Rightarrow> (string list \<Rightarrow> int) \<Rightarrow> iid \<Rightarrow> sentinel \<Rightarrow> (sentinel \<times> bool) res" where
  "sendPing now rv i s =
     res_bind (get_inst s i) (\<lambda>x.
     res_bind (get_link s x) (\<lambda>l.
       let s = send_cmd i [''PING''] s in
       if rv [''PING''] > 0 then
         Ret (upd_link x (\<lambda>l. let l = (increasePendingCommands l)\<lparr>lastPingTime := now\<rparr>
                in if actPingTime l = 0 then l\<lparr>actPingTime := lastPingTime l\<rparr> else l) s, True)
       else Ret (s, False)))"

definition info_due :: "64 word \<Rightarrow> fly_instance \<Rightarrow> bool \<Rightarrow> bool" where
  "info_due now x urgent \<longleftrightarrow>
     eq0_and (fi_flags x) FSI_SENTINEL \<and>
     (infoRefresh x = 0 \<or> now - infoRefresh x > (if urgent then 1000 else SENTINEL_INFO_PERIOD))"

definition ping_due :: "64 word \<Rightarrow> fly_instance \<Rightarrow> instance_link \<Rightarrow> bool" where
  "ping_due now x l \<longleftrightarrow>
     (let period = (if downAfterPeriod x > SENTINEL_PING_PERIOD then SENTINEL_PING_PERIOD
                    else downAfterPeriod x)
      in now - lastPongTime l > period \<and> now - lastPingTime l > period div 2)"

text \<open>The condition for asking for INFO every second instead of every period.\<close>

definition info_urgent :: "sentinel \<Rightarrow> fly_instance \<Rightarrow> bool res" where
  "info_urgent s x =
     (if has_flag (fi_flags x) FSI_SLAVE
      then res_bind (deref s (fi_master x)) (\<lambda>m.
             Ret (has_flag (fi_flags m) (FSI_O_DOWN OR FSI_FAILOVER_IN_PROGRESS)
                  \<or> masterLinkDownTime x \<noteq> 0))
      else Ret (masterLinkDownTime x \<noteq> 0))"

definition sendPeriodicCommands ::
  "64 word \<Rightarrow> string option \<Rightarrow> (string list \<Rightarrow> int) \<Rightarrow> iid \<Rightarrow> sentinel \<Rightarrow> sentinel res" where
  "sendPeriodicCommands now sockName rv i s =
     res_bind (get_inst s i) (\<lambda>x.
     res_bind (get_link s x) (\<lambda>l.
       if disconnected l then Ret s
       else if pendingCommands l > SENTINEL_MAX_PENDING_COMMANDS * int (use_count s (fi_link x)) then Ret s
       else
         res_bind (info_urgent s x) (\<lambda>urgent.
         let s = (if info_due now x urgent then
                    let s = send_cmd i [''INFO''] s in
                    if rv [''INFO''] \<ge> 0 then upd_link x increasePendingCommands s else s
                  else s) in
         res_bind (if ping_due now x l then res_bind (sendPing now rv i s) (\<lambda>(s, b). Ret s)
                   else Ret s) (\<lambda>s.
           if now - lastPubTime x > SENTINEL_PUBLISH_PERIOD
           then res_bind (sendHello sockName rv i s) (\<lambda>(s, r). Ret s) else Ret s))))"

section \<open>Tilt mode, the timer and the cron\<close>

definition checkTiltCondition :: "64 word \<Rightarrow> sentinel \<Rightarrow> sentinel res" where
  "checkTiltCondition now s =
     (let delta = now - previousTime s in
      res_bind
        (if delta < 0 \<or> delta > SENTINEL_TILT_TRIGGER
         then sendEvent LL_WARNING ''+tilt'' None False ''#tilt mode entered''
                (s\<lparr>tilt := True, tiltStartTime := now\<rparr>)
         else Ret s)
        (\<lambda>s. Ret (s\<lparr>previousTime := now\<rparr>)))"

text \<open>
  The checks for subjective and objective down, the questions to other sentinels and the failover
  state machine have empty bodies in the source.
\<close>

definition handleFlyInstance ::
  "64 word \<Rightarrow> nat \<Rightarrow> string option \<Rightarrow> (string list \<Rightarrow> int) \<Rightarrow> iid \<Rightarrow> sentinel \<Rightarrow> sentinel res" where
  "handleFlyInstance now rand sockName rv i s =
     res_bind (sendPeriodicCommands now sockName rv i s) (\<lambda>s.
       if tilt s \<and> now - tiltStartTime s < SENTINEL_TILT_PERIOD then Ret s
       else
         res_bind (if tilt s then sendEvent LL_WARNING ''-tilt'' None False ''#tilt mode exited''
                     (s\<lparr>tilt := False\<rparr>) else Ret s) (\<lambda>s.
         res_bind (get_inst s i) (\<lambda>x.
           if has_flag (fi_flags x) FSI_MASTER
           then res_bind (startFailoverIfNeeded now rand i s) (\<lambda>(s, b). Ret s)
           else Ret s)))"

definition sentinel_timer ::
  "64 word \<Rightarrow> (nat \<Rightarrow> int) \<Rightarrow> (int \<times> nat \<times> nat) list \<Rightarrow> nat \<Rightarrow> sentinel \<Rightarrow> (sentinel \<times> int list) res" where
  "sentinel_timer now fork ws rand s =
     res_bind (checkTiltCondition now s) (\<lambda>s.
     res_bind (collectTerminatedScripts now ws (runPendingScripts now fork (scripts s))) (\<lambda>sc.
       let killed = killTimedoutScripts now sc
       in Ret (s\<lparr>scripts := sc, sv_hz := 10 + int (rand mod 10)\<rparr>, killed)))"

text \<open>The value \<open>serverCron\<close> returns: the milliseconds until it runs again.\<close>

definition cron_delay :: "sentinel \<Rightarrow> int" where
  "cron_delay s = 1000 div sv_hz s"

end
