(* ===== verification/KeyStore.thy ===== *)
theory KeyStore imports Prelude begin

text \<open>
  The interface of a keyed store, as the command table and the configuration reader use one:
  \<open>add\<close> refuses a key that is present, \<open>find\<close> may reorganise the store but never changes what it
  means, \<open>del\<close> forgets a key. \<open>cap\<close> bounds the number of entries the provider can count. None of
  the operations faults on a well-formed store. The client lemmas say what a registration loop over
  a table of distinct keys leaves behind, whatever lookups come in between.
\<close>

locale key_store =
  fixes invar :: "'s \<Rightarrow> bool"
    and abs :: "'s \<Rightarrow> 'k \<Rightarrow> 'v option"
    and count :: "'s \<Rightarrow> nat"
    and cap :: nat
    and add :: "'s \<Rightarrow> 'k \<Rightarrow> 'v \<Rightarrow> ('s \<times> int) res"
    and find :: "'s \<Rightarrow> 'k \<Rightarrow> ('s \<times> 'v option) res"
    and del :: "'s \<Rightarrow> 'k \<Rightarrow> ('s \<times> int) res"
  assumes add_new: "invar s \<Longrightarrow> abs s k = None \<Longrightarrow> count s < cap \<Longrightarrow>
      \<exists>s'. add s k v = Ret (s', 1) \<and> invar s' \<and> abs s' = (abs s)(k \<mapsto> v) \<and> count s' = Suc (count s)"
    and find_ok: "invar s \<Longrightarrow>
      \<exists>s'. find s k = Ret (s', abs s k) \<and> invar s' \<and> abs s' = abs s \<and> count s' = count s"
    and del_ok: "invar s \<Longrightarrow>
      \<exists>s'. del s k = Ret (s', if abs s k = None then -1 else 1) \<and> invar s' \<and>
        abs s' = (abs s)(k := None)"
begin

fun add_all :: "'s \<Rightarrow> ('k \<times> 'v) list \<Rightarrow> 's res" where
  "add_all s [] = Ret s"
| "add_all s ((k, v) # kvs) = res_bind (add s k v) (\<lambda>(s', r). add_all s' kvs)"

fun find_all :: "'s \<Rightarrow> 'k list \<Rightarrow> 's res" where
  "find_all s [] = Ret s"
| "find_all s (k # ks) = res_bind (find s k) (\<lambda>(s', x). find_all s' ks)"

lemma add_all_ok:
  assumes "invar s" and "distinct (map fst kvs)" and "\<forall>k \<in> fst ` set kvs. abs s k = None"
    and "count s + length kvs \<le> cap"
  shows "\<exists>s'. add_all s kvs = Ret s' \<and> invar s' \<and> abs s' = abs s ++ map_of kvs"
  using assms
proof (induction kvs arbitrary: s)
  case Nil
  then show ?case by simp
next
  case (Cons kv kvs)
  obtain k v where kv: "kv = (k, v)" by force
  obtain s1 where s1: "add s k v = Ret (s1, 1)" "invar s1" "abs s1 = (abs s)(k \<mapsto> v)"
    "count s1 = Suc (count s)"
    using add_new [OF Cons.prems(1), of k v] Cons.prems kv by auto
  have "\<forall>k' \<in> fst ` set kvs. abs s1 k' = None"
    using Cons.prems kv s1 by auto
  then obtain s' where IH: "add_all s1 kvs = Ret s'" "invar s'" "abs s' = abs s1 ++ map_of kvs"
    using Cons.IH [OF s1(2)] Cons.prems s1(4) by auto
  have "k \<notin> dom (map_of kvs)"
    using Cons.prems kv by (simp add: dom_map_of_conv_image_fst)
  then have "abs s1 ++ map_of kvs = abs s ++ map_of (kv # kvs)"
    by (simp only: s1(3) kv map_add_upd_left not_False_eq_True map_of.simps map_add_upd fst_conv
        snd_conv)
  then have "abs s' = abs s ++ map_of (kv # kvs)"
    by (simp only: IH(3))
  moreover have "add_all s (kv # kvs) = Ret s'"
    by (simp add: kv s1(1) IH(1))
  ultimately show ?case
    using IH(2) by blast
qed

lemma find_all_ok:
  "invar s \<Longrightarrow> \<exists>s'. find_all s ks = Ret s' \<and> invar s' \<and> abs s' = abs s"
proof (induction ks arbitrary: s)
  case (Cons k ks)
  obtain s1 where s1: "find s k = Ret (s1, abs s k)" "invar s1" "abs s1 = abs s"
    using find_ok [OF Cons.prems, of k] by auto
  with Cons.IH [of s1] show ?case by simp
qed simp

lemma registered_lookup:
  assumes "invar s" and "abs s = Map.empty" and "distinct (map fst kvs)"
    and "count s + length kvs \<le> cap"
  shows "\<exists>s1 s2 s3. add_all s kvs = Ret s1 \<and> find_all s1 ks = Ret s2 \<and>
    find s2 k = Ret (s3, map_of kvs k)"
proof -
  obtain s1 where s1: "add_all s kvs = Ret s1" "invar s1" "abs s1 = map_of kvs"
    using add_all_ok [OF assms(1,3) _ assms(4)] assms(2) by auto
  obtain s2 where s2: "find_all s1 ks = Ret s2" "invar s2" "abs s2 = map_of kvs"
    using find_all_ok [OF s1(2), of ks] s1(3) by auto
  then show ?thesis
    using s1 find_ok [OF s2(2), of k] by auto
qed

end

end
