(* ===== verification/HashTable.thy ===== *)
theory HashTable imports KeyStore begin

text \<open>
  The chained hash table of src/src/datastructure/dict/HashTable.cpp. A bucket is the list of its
  entries in chain order. The 32-bit counters are natural numbers with the wrap-around written out;
  the standard library's hash is the parameter \<open>hash\<close>. The index of a key is the hash masked
  with \<open>size - 1\<close>, which stays below the size whether or not the size is a power of two.
\<close>

record ('k, 'v) hash_table =
  ht_table :: "('k \<times> 'v) list list"
  ht_size :: nat
  ht_used :: nat
  ht_mask :: nat

definition HASH_TABLE_INITIAL_SIZE :: nat where "HASH_TABLE_INITIAL_SIZE = 20"
definition NEED_FORCE_REHASH_RATIO :: nat where "NEED_FORCE_REHASH_RATIO = 5"
definition HASHTABLE_MIN_FILL :: nat where "HASHTABLE_MIN_FILL = 10"

abbreviation u32_mod :: "nat \<Rightarrow> nat" where
  "u32_mod n \<equiv> n mod 2 ^ 32"

definition new_table :: "nat \<Rightarrow> ('k, 'v) hash_table" where
  "new_table n =
     \<lparr>ht_table = replicate n [], ht_size = n, ht_used = 0,
      ht_mask = u32_mod (n + (2 ^ 32 - 1))\<rparr>"

definition getIndexWithKey :: "('k \<Rightarrow> nat) \<Rightarrow> ('k, 'v) hash_table \<Rightarrow> 'k \<Rightarrow> nat" where
  "getIndexWithKey hash h key = hash key AND ht_mask h"

definition getIndex :: "('k, 'v) hash_table \<Rightarrow> nat \<Rightarrow> nat" where
  "getIndex h cursor = cursor AND ht_mask h"

text \<open>\<open>getEntryBy\<close> is an array read without a bounds check: outside the table it is a fault.\<close>

definition getEntryBy :: "('k, 'v) hash_table \<Rightarrow> nat \<Rightarrow> ('k \<times> 'v) list res" where
  "getEntryBy h index =
     (if index < length (ht_table h) then Ret (ht_table h ! index) else Fault OutOfBounds)"

fun chain_find :: "'k \<Rightarrow> ('k \<times> 'v) list \<Rightarrow> 'v option" where
  "chain_find key [] = None"
| "chain_find key ((k, v) # node) = (if k = key then Some v else chain_find key node)"

definition ht_findEntry :: "('k \<Rightarrow> nat) \<Rightarrow> ('k, 'v) hash_table \<Rightarrow> 'k \<Rightarrow> 'v option" where
  "ht_findEntry hash h key = chain_find key (ht_table h ! getIndexWithKey hash h key)"

definition ht_hasKey :: "('k \<Rightarrow> nat) \<Rightarrow> ('k, 'v) hash_table \<Rightarrow> 'k \<Rightarrow> bool" where
  "ht_hasKey hash h key \<longleftrightarrow> ht_findEntry hash h key \<noteq> None"

definition ht_addEntry ::
  "('k \<Rightarrow> nat) \<Rightarrow> ('k, 'v) hash_table \<Rightarrow> 'k \<Rightarrow> 'v \<Rightarrow> ('k, 'v) hash_table \<times> int" where
  "ht_addEntry hash h key val =
     (let index = getIndexWithKey hash h key in
      if ht_hasKey hash h key then (h, -1)
      else (h\<lparr>ht_table := (ht_table h)[index := (key, val) # ht_table h ! index],
              ht_used := u32_mod (ht_used h + 1)\<rparr>, 1))"

text \<open>
  Removal from a chain: the head node, or the first later node with the key; \<open>None\<close> when the
  chain has no such node. Writing through the pointer \<open>findEntry\<close> returns changes the value
  of that node.
\<close>

fun chain_del :: "'k \<Rightarrow> ('k \<times> 'v) list \<Rightarrow> ('k \<times> 'v) list option" where
  "chain_del key [] = None"
| "chain_del key ((k, v) # node) =
     (if k = key then Some node else map_option ((#) (k, v)) (chain_del key node))"

fun chain_set :: "'k \<Rightarrow> 'v \<Rightarrow> ('k \<times> 'v) list \<Rightarrow> ('k \<times> 'v) list" where
  "chain_set key val [] = []"
| "chain_set key val ((k, v) # node) =
     (if k = key then (k, val) # node else (k, v) # chain_set key val node)"

definition ht_deleteEntry ::
  "('k \<Rightarrow> nat) \<Rightarrow> ('k, 'v) hash_table \<Rightarrow> 'k \<Rightarrow> ('k, 'v) hash_table \<times> int" where
  "ht_deleteEntry hash h key =
     (let index = getIndexWithKey hash h key in
      case chain_del key (ht_table h ! index) of
        None \<Rightarrow> (h, -1)
      | Some chain \<Rightarrow>
          (h\<lparr>ht_table := (ht_table h)[index := chain],
             ht_used := u32_mod (ht_used h + (2 ^ 32 - 1))\<rparr>, 1))"

definition ht_setVal ::
  "('k \<Rightarrow> nat) \<Rightarrow> ('k, 'v) hash_table \<Rightarrow> 'k \<Rightarrow> 'v \<Rightarrow> ('k, 'v) hash_table" where
  "ht_setVal hash h key val =
     (let index = getIndexWithKey hash h key in
      h\<lparr>ht_table := (ht_table h)[index := chain_set key val (ht_table h ! index)]\<rparr>)"

definition needExpand :: "('k, 'v) hash_table \<Rightarrow> bool \<Rightarrow> bool" where
  "needExpand h canResize =
     (if canResize \<and> ht_used h > ht_size h then True
      else if \<not> canResize \<and> ht_used h > u32_mod (ht_size h * NEED_FORCE_REHASH_RATIO) then True
      else False)"

definition needShrink :: "('k, 'v) hash_table \<Rightarrow> bool \<Rightarrow> bool" where
  "needShrink h canResize \<longleftrightarrow>
     canResize \<and> ht_size h > HASH_TABLE_INITIAL_SIZE \<and>
     u32_mod (ht_used h * 100) div ht_size h < HASHTABLE_MIN_FILL"

definition ht_isEmpty :: "('k, 'v) hash_table \<Rightarrow> bool" where
  "ht_isEmpty h \<longleftrightarrow> ht_used h = 0"

text \<open>The scan callback updates a private state and may ask to stop by returning -1.\<close>

fun scan_chain ::
  "('p \<Rightarrow> 'k \<Rightarrow> 'v \<Rightarrow> 'p \<times> int) \<Rightarrow> 'p \<Rightarrow> ('k \<times> 'v) list \<Rightarrow> 'p \<times> int" where
  "scan_chain proc priv [] = (priv, 0)"
| "scan_chain proc priv ((k, v) # es) =
     (let (priv', r) = proc priv k v in
      if r = -1 then (priv', -1) else scan_chain proc priv' es)"

definition scanEntries ::
  "('k, 'v) hash_table \<Rightarrow> nat \<Rightarrow> ('p \<Rightarrow> 'k \<Rightarrow> 'v \<Rightarrow> 'p \<times> int) \<Rightarrow> 'p \<Rightarrow> ('p \<times> int) res" where
  "scanEntries h index proc priv =
     res_bind (getEntryBy h index) (\<lambda>chain. Ret (scan_chain proc priv chain))"

section \<open>Well-formed tables and the map they stand for\<close>

definition ht_abs :: "('k, 'v) hash_table \<Rightarrow> 'k \<Rightarrow> 'v option" where
  "ht_abs h = map_of (concat (ht_table h))"

definition ht_inv :: "('k \<Rightarrow> nat) \<Rightarrow> ('k, 'v) hash_table \<Rightarrow> bool" where
  "ht_inv hash h \<longleftrightarrow>
     0 < ht_size h \<and> ht_size h < 2 ^ 32 \<and> length (ht_table h) = ht_size h \<and>
     ht_mask h = ht_size h - 1 \<and>
     (\<forall>i < ht_size h. \<forall>e \<in> set (ht_table h ! i). getIndexWithKey hash h (fst e) = i) \<and>
     distinct (map fst (concat (ht_table h))) \<and>
     ht_used h = length (concat (ht_table h)) \<and> ht_used h < 2 ^ 32"

lemma and_nat_le: "(a AND b :: nat) \<le> b"
  by (metis AND_upper2 and_nat_def nat_int nat_mono of_nat_0_le_iff)

lemma getIndexWithKey_less: "ht_inv hash h \<Longrightarrow> getIndexWithKey hash h k < length (ht_table h)"
  using and_nat_le [of "hash k" "ht_mask h"] by (auto simp: ht_inv_def getIndexWithKey_def)

lemma concat_update:
  assumes "i < length tab"
  shows "\<exists>pre post. concat tab = pre @ tab ! i @ post \<and>
    (\<forall>x. concat (tab[i := x]) = pre @ x @ post)"
proof (intro exI conjI allI)
  show "concat tab = concat (take i tab) @ tab ! i @ concat (drop (Suc i) tab)"
    using assms by (metis concat.simps(2) concat_append id_take_nth_drop)
  show "concat (tab[i := x]) = concat (take i tab) @ x @ concat (drop (Suc i) tab)" for x
    using assms by (simp add: upd_conv_take_nth_drop)
qed

lemma map_of_insert_mid:
  "k \<notin> fst ` set pre \<Longrightarrow> map_of (pre @ (k, v) # post) = (map_of (pre @ post))(k \<mapsto> v)"
  by (induction pre) (auto simp: fun_eq_iff)

lemma map_of_delete_mid:
  "k \<notin> fst ` set pre \<Longrightarrow> k \<notin> fst ` set post \<Longrightarrow>
    map_of (pre @ post) = (map_of (pre @ (k, v) # post))(k := None)"
  by (induction pre) (auto simp: fun_eq_iff map_of_eq_None_iff)

lemma chain_find_map_of: "chain_find key ch = map_of ch key"
  by (induction key ch rule: chain_find.induct) auto

lemma ht_inv_key_bucket:
  assumes inv: "ht_inv hash h" and mem: "e \<in> set (concat (ht_table h))"
  shows "e \<in> set (ht_table h ! getIndexWithKey hash h (fst e))"
proof -
  from mem obtain b where b: "b \<in> set (ht_table h)" "e \<in> set b" by auto
  then obtain i where "i < length (ht_table h)" "e \<in> set (ht_table h ! i)"
    by (metis in_set_conv_nth)
  with inv show ?thesis by (auto simp: ht_inv_def)
qed

lemma ht_findEntry_abs:
  assumes inv: "ht_inv hash h"
  shows "ht_findEntry hash h k = ht_abs h k"
proof -
  let ?i = "getIndexWithKey hash h k"
  have i: "?i < length (ht_table h)" by (rule getIndexWithKey_less [OF inv])
  then obtain pre post where c: "concat (ht_table h) = pre @ ht_table h ! ?i @ post"
    by (auto dest: concat_update)
  have d: "distinct (map fst (concat (ht_table h)))" using inv by (simp add: ht_inv_def)
  have db: "distinct (map fst (ht_table h ! ?i))" using d unfolding c by simp
  have "map_of (ht_table h ! ?i) k = Some v \<longleftrightarrow> map_of (concat (ht_table h)) k = Some v" for v
  proof -
    have "(k, v) \<in> set (ht_table h ! ?i) \<longleftrightarrow> (k, v) \<in> set (concat (ht_table h))"
      using ht_inv_key_bucket [OF inv, of "(k, v)"] i by (auto simp: c)
    then show ?thesis using d db by (simp only: map_of_eq_Some_iff)
  qed
  then have "map_of (ht_table h ! ?i) k = map_of (concat (ht_table h)) k"
    by (metis not_None_eq)
  then show ?thesis by (simp add: ht_findEntry_def chain_find_map_of ht_abs_def)
qed

lemma ht_hasKey_abs: "ht_inv hash h \<Longrightarrow> ht_hasKey hash h k \<longleftrightarrow> ht_abs h k \<noteq> None"
  by (simp add: ht_hasKey_def ht_findEntry_abs)

lemma ht_used_zero: "ht_inv hash h \<Longrightarrow> ht_isEmpty h \<longleftrightarrow> ht_abs h = Map.empty"
  by (auto simp: ht_isEmpty_def ht_inv_def ht_abs_def)

lemma new_table_inv: "0 < n \<Longrightarrow> n < 2 ^ 32 \<Longrightarrow> ht_inv hash (new_table n)"
  by (auto simp: ht_inv_def new_table_def concat_replicate_trivial mod_if)

lemma new_table_abs [simp]: "ht_abs (new_table n) = Map.empty"
  by (simp add: ht_abs_def new_table_def concat_replicate_trivial)

lemma new_table_sel [simp]:
  "ht_used (new_table n) = 0" "ht_size (new_table n) = n" "ht_table (new_table n) = replicate n []"
  by (simp_all add: new_table_def)

text \<open>Replacing one bucket: what is left to check.\<close>

lemma ht_inv_bucket:
  assumes inv: "ht_inv hash h" and i: "i < ht_size h"
    and c: "concat (ht_table h) = pre @ ht_table h ! i @ post"
    and u: "concat ((ht_table h)[i := b]) = pre @ b @ post"
    and idx: "\<forall>e \<in> set b. getIndexWithKey hash h (fst e) = i"
    and d: "distinct (map fst (pre @ b @ post))"
    and n: "n = length (pre @ b @ post)" "n < 2 ^ 32"
  shows "ht_inv hash (h\<lparr>ht_table := (ht_table h)[i := b], ht_used := n\<rparr>)"
proof -
  have "\<forall>j < ht_size h. \<forall>e \<in> set ((ht_table h)[i := b] ! j). hash (fst e) AND ht_mask h = j"
  proof (intro allI impI ballI)
    fix j e
    assume "j < ht_size h" "e \<in> set ((ht_table h)[i := b] ! j)"
    with inv i idx show "hash (fst e) AND ht_mask h = j"
      unfolding ht_inv_def getIndexWithKey_def
      by (cases "j = i") (metis nth_list_update_eq, metis nth_list_update_neq)
  qed
  with inv d n show ?thesis by (simp add: ht_inv_def getIndexWithKey_def u)
qed

lemma ht_addEntry_new:
  assumes inv: "ht_inv hash h" and new: "ht_abs h k = None" and room: "ht_used h + 1 < 2 ^ 32"
    and add: "ht_addEntry hash h k v = (h', r)"
  shows "r = 1 \<and> ht_inv hash h' \<and> ht_abs h' = (ht_abs h)(k \<mapsto> v) \<and>
    ht_used h' = ht_used h + 1 \<and> ht_size h' = ht_size h"
proof -
  let ?i = "getIndexWithKey hash h k"
  let ?b = "(k, v) # ht_table h ! ?i"
  have i: "?i < length (ht_table h)" by (rule getIndexWithKey_less [OF inv])
  then obtain pre post where c: "concat (ht_table h) = pre @ ht_table h ! ?i @ post"
    and u: "\<And>x. concat ((ht_table h)[?i := x]) = pre @ x @ post"
    using concat_update by blast
  have k: "k \<notin> fst ` set (concat (ht_table h))"
    using new by (auto simp: ht_abs_def map_of_eq_None_iff)
  have h': "h' = h\<lparr>ht_table := (ht_table h)[?i := ?b], ht_used := ht_used h + 1\<rparr>" and r: "r = 1"
    using add new room by (simp_all add: ht_addEntry_def ht_hasKey_abs [OF inv] Let_def)
  have d: "distinct (map fst (pre @ ?b @ post))"
    using inv k by (auto simp: ht_inv_def c)
  have "ht_inv hash h'"
    unfolding h'
    using inv i c u k room d
    by (intro ht_inv_bucket [where pre = pre and post = post]) (auto simp: ht_inv_def c)
  moreover have "ht_abs h' = (ht_abs h)(k \<mapsto> v)"
    using k map_of_insert_mid [of k pre v "ht_table h ! ?i @ post"]
    by (simp add: ht_abs_def h' u c image_Un)
  ultimately show ?thesis using r h' by simp
qed

lemma ht_addEntry_dup:
  "ht_inv hash h \<Longrightarrow> ht_abs h k \<noteq> None \<Longrightarrow> ht_addEntry hash h k v = (h, -1)"
  by (simp add: ht_addEntry_def ht_hasKey_abs Let_def)

lemma chain_del_Some:
  "chain_del k b = Some b' \<Longrightarrow> \<exists>b1 v b2. b = b1 @ (k, v) # b2 \<and> b' = b1 @ b2"
proof (induction k b arbitrary: b' rule: chain_del.induct)
  case (2 key k v node)
  show ?case
  proof (cases "k = key")
    case True
    with 2 show ?thesis by (intro exI [of _ "[]"]) auto
  next
    case False
    with 2 obtain b'' where "chain_del key node = Some b''" "b' = (k, v) # b''" by auto
    with 2 False obtain b1 w b2 where "node = b1 @ (key, w) # b2" "b' = ((k, v) # b1) @ b2" by auto
    then show ?thesis by (metis append_Cons)
  qed
qed simp

lemma chain_del_None: "chain_del k b = None \<longleftrightarrow> k \<notin> fst ` set b"
  by (induction k b rule: chain_del.induct) auto

lemma ht_deleteEntry_ok:
  assumes inv: "ht_inv hash h" and del: "ht_deleteEntry hash h k = (h', r)"
  shows "r = (if ht_abs h k = None then -1 else 1) \<and> ht_inv hash h' \<and>
    ht_abs h' = (ht_abs h)(k := None) \<and> ht_size h' = ht_size h \<and>
    ht_used h = ht_used h' + (if ht_abs h k = None then 0 else 1)"
proof -
  let ?i = "getIndexWithKey hash h k"
  have i: "?i < length (ht_table h)" by (rule getIndexWithKey_less [OF inv])
  then obtain pre post where c: "concat (ht_table h) = pre @ ht_table h ! ?i @ post"
    and u: "\<And>x. concat ((ht_table h)[?i := x]) = pre @ x @ post"
    using concat_update by blast
  show ?thesis
  proof (cases "chain_del k (ht_table h ! ?i)")
    case None
    have "k \<notin> fst ` set (concat (ht_table h))"
    proof
      assume "k \<in> fst ` set (concat (ht_table h))"
      then obtain e where "e \<in> set (concat (ht_table h))" "k = fst e" by auto
      with ht_inv_key_bucket [OF inv] None show False by (auto simp: chain_del_None)
    qed
    then have "ht_abs h k = None" by (auto simp: ht_abs_def map_of_eq_None_iff)
    with None del inv show ?thesis
      by (auto simp: ht_deleteEntry_def Let_def fun_upd_idem_iff)
  next
    case (Some b')
    then obtain b1 v b2 where b: "ht_table h ! ?i = b1 @ (k, v) # b2" and b': "b' = b1 @ b2"
      using chain_del_Some by metis
    have d: "distinct (map fst (pre @ (b1 @ (k, v) # b2) @ post))"
      using inv by (simp add: ht_inv_def c b)
    have used: "ht_used h = Suc (length (pre @ b' @ post))" "ht_used h < 2 ^ 32"
      using inv by (simp_all add: ht_inv_def c b b')
    then have h': "h' = h\<lparr>ht_table := (ht_table h)[?i := b'], ht_used := length (pre @ b' @ post)\<rparr>"
      and r: "r = 1"
      using del Some by (simp_all add: ht_deleteEntry_def Let_def mod_if)
    have "ht_inv hash h'"
      unfolding h'
      using inv i u d used b b'
      by (intro ht_inv_bucket [where pre = pre and post = post, OF inv _ c]) (auto simp: ht_inv_def)
    moreover have "ht_abs h' = (ht_abs h)(k := None)"
      using d map_of_delete_mid [of k "pre @ b1" "b2 @ post" v]
      by (simp add: ht_abs_def h' u c b b' image_Un)
    moreover have "ht_abs h k \<noteq> None"
      by (auto simp: ht_abs_def c b map_of_eq_None_iff)
    ultimately show ?thesis using r h' used by simp
  qed
qed

lemma map_of_chain_set:
  "map_of (chain_set k v b) = (if k \<in> fst ` set b then (map_of b)(k \<mapsto> v) else map_of b)"
  by (induction k v b rule: chain_set.induct) (auto simp: fun_eq_iff)

lemma chain_set_keys [simp]: "map fst (chain_set k v b) = map fst b"
  by (induction k v b rule: chain_set.induct) auto

lemma chain_set_length [simp]: "length (chain_set k v b) = length b"
  by (induction k v b rule: chain_set.induct) auto

lemma map_of_replace_mid:
  "k \<notin> fst ` set pre \<Longrightarrow> k \<in> fst ` set b \<Longrightarrow>
    map_of (pre @ chain_set k v b @ post) = (map_of (pre @ b @ post))(k \<mapsto> v)"
  by (induction pre) (auto simp: fun_eq_iff map_of_chain_set map_add_def split: option.split)

lemma ht_setVal_ok:
  assumes inv: "ht_inv hash h" and old: "ht_abs h k \<noteq> None"
  shows "ht_inv hash (ht_setVal hash h k v) \<and> ht_abs (ht_setVal hash h k v) = (ht_abs h)(k \<mapsto> v) \<and>
    ht_used (ht_setVal hash h k v) = ht_used h \<and> ht_size (ht_setVal hash h k v) = ht_size h"
proof -
  let ?i = "getIndexWithKey hash h k"
  let ?b = "chain_set k v (ht_table h ! ?i)"
  have i: "?i < length (ht_table h)" by (rule getIndexWithKey_less [OF inv])
  then obtain pre post where c: "concat (ht_table h) = pre @ ht_table h ! ?i @ post"
    and u: "\<And>x. concat ((ht_table h)[?i := x]) = pre @ x @ post"
    using concat_update by blast
  have "k \<in> fst ` set (concat (ht_table h))"
    using old unfolding ht_abs_def by (simp only: map_of_eq_None_iff not_not)
  then obtain e where "e \<in> set (concat (ht_table h))" "k = fst e" by auto
  then have k: "k \<in> fst ` set (ht_table h ! ?i)" using ht_inv_key_bucket [OF inv] by fastforce
  have d: "distinct (map fst (pre @ (ht_table h ! ?i) @ post))" using inv by (simp add: ht_inv_def c)
  then have pre: "k \<notin> fst ` set pre" using k by auto
  have set: "ht_setVal hash h k v = h\<lparr>ht_table := (ht_table h)[?i := ?b], ht_used := length (pre @ ?b @ post)\<rparr>"
    using inv by (simp add: ht_setVal_def Let_def ht_inv_def c)
  have keys: "fst ` set ?b = fst ` set (ht_table h ! ?i)" by (metis chain_set_keys set_map)
  have "\<forall>e \<in> set ?b. getIndexWithKey hash h (fst e) = ?i"
  proof
    fix e assume "e \<in> set ?b"
    then have "fst e \<in> fst ` set (ht_table h ! ?i)" unfolding keys [symmetric] by (rule imageI)
    then obtain x where "x \<in> set (ht_table h ! ?i)" "fst e = fst x" by (rule imageE)
    with inv i show "getIndexWithKey hash h (fst e) = ?i" by (simp add: ht_inv_def)
  qed
  moreover have "distinct (map fst (pre @ ?b @ post))" using d by (simp add: keys)
  moreover have "length (pre @ ?b @ post) < 2 ^ 32" "?i < ht_size h"
    using inv i by (simp_all add: ht_inv_def c)
  ultimately have "ht_inv hash (ht_setVal hash h k v)"
    unfolding set by (intro ht_inv_bucket [where pre = pre and post = post, OF inv _ c]) (simp_all add: u)
  moreover have "ht_abs (ht_setVal hash h k v) = (ht_abs h)(k \<mapsto> v)"
    using map_of_replace_mid [OF pre k, of v post] by (simp add: ht_abs_def set u c del: map_of_append)
  moreover have "ht_used (ht_setVal hash h k v) = ht_used h" using inv by (simp add: ht_setVal_def Let_def)
  ultimately show ?thesis by (simp add: set)
qed

text \<open>The table alone is a keyed store.\<close>

interpretation table_store: key_store "ht_inv hash" ht_abs ht_used "2 ^ 32 - 1"
  "\<lambda>h k v. Ret (ht_addEntry hash h k v)" "\<lambda>h k. Ret (h, ht_findEntry hash h k)"
  "\<lambda>h k. Ret (ht_deleteEntry hash h k)" for hash
proof (unfold_locales, goal_cases)
  case (1 s k v)
  obtain h' r where "ht_addEntry hash s k v = (h', r)" by force
  with 1 ht_addEntry_new [OF _ _ _ this] show ?case by simp
next
  case (2 s k)
  then show ?case by (simp add: ht_findEntry_abs)
next
  case (3 s k)
  obtain h' r where "ht_deleteEntry hash s k = (h', r)" by force
  with ht_deleteEntry_ok [OF 3 this] show ?case by simp
qed

text \<open>
  \<open>clear\<close> deletes the entries bucket by bucket until \<open>used\<close> is zero but leaves the bucket
  pointers as they are: the result lists the buckets that still point to deleted entries, and the
  indices at which the callback ran.
\<close>

fun clear_loop ::
  "bool \<Rightarrow> ('k \<times> 'v) list list \<Rightarrow> nat \<Rightarrow> nat \<Rightarrow> nat list \<Rightarrow> nat list \<Rightarrow> nat \<times> nat list \<times> nat list" where
  "clear_loop cb [] i used dangling calls = (used, dangling, calls)"
| "clear_loop cb (b # bs) i used dangling calls =
     (if used = 0 then (used, dangling, calls)
      else clear_loop cb bs (Suc i) (u32_mod (used + 2 ^ 32 - length b))
             (if b = [] then dangling else dangling @ [i])
             (if cb \<and> i mod 65535 = 0 then calls @ [i] else calls))"

definition ht_clear ::
  "bool \<Rightarrow> ('k, 'v) hash_table \<Rightarrow> ('k, 'v) hash_table \<times> nat list \<times> nat list" where
  "ht_clear cb h =
     (let (used, dangling, calls) = clear_loop cb (ht_table h) 0 (ht_used h) [] [] in
      (h\<lparr>ht_used := used\<rparr>, dangling, calls))"

lemma clear_loop_used:
  assumes "n = length (concat bs)" and "n < 2 ^ 32"
  shows "fst (clear_loop cb bs i n d c) = 0"
  using assms
proof (induction bs arbitrary: i n d c)
  case (Cons b bs)
  then have "u32_mod (n + 2 ^ 32 - length b) = length (concat bs)"
    by (simp add: mod_if)
  with Cons show ?case by simp
qed simp

lemma ht_clear_used: "ht_inv hash h \<Longrightarrow> ht_used (fst (ht_clear cb h)) = 0"
  using clear_loop_used [of "ht_used h" "ht_table h" cb 0 "[]" "[]"]
  by (cases "clear_loop cb (ht_table h) 0 (ht_used h) [] []") (simp add: ht_clear_def ht_inv_def)

end
