(* ===== verification/Dict.thy ===== *)
theory Dict imports HashTable begin

text \<open>
  The incrementally rehashed dictionary of src/src/datastructure/dict/Dict.cpp. While
  \<open>rehashIndex\<close> is not negative the entries are spread over two tables and every operation first
  moves one bucket from the old table to the new one. The global flag \<open>canResize\<close> and the hash
  are parameters; \<open>random()\<close> is a list of the numbers it returns.

  A public call of \<open>rehashSteps\<close> outside a rehash reads the bucket with index -1, or replaces
  the table by the null pointer: both are faults here. The loop that moves a bucket reads
  \<open>entry->next\<close> of the entry it has just deleted, which is a fault too: a step of a rehash only
  returns when rehashing is switched off or the old table has no entry left.
\<close>

record ('k, 'v) dict =
  ht0 :: "('k, 'v) hash_table"
  ht1 :: "('k, 'v) hash_table option"
  rehashIndex :: int
  canRehash :: bool

definition new_dict :: "('k, 'v) dict" where
  "new_dict = \<lparr>ht0 = new_table HASH_TABLE_INITIAL_SIZE, ht1 = None, rehashIndex = -1,
     canRehash = True\<rparr>"

definition isRehashing :: "('k, 'v) dict \<Rightarrow> bool" where
  "isRehashing d \<longleftrightarrow> rehashIndex d \<ge> 0"

definition setCanRehash :: "('k, 'v) dict \<Rightarrow> bool \<Rightarrow> ('k, 'v) dict \<times> bool" where
  "setCanRehash d b = (let temp = canRehash d in (d\<lparr>canRehash := b\<rparr>, temp))"

section \<open>Rehashing\<close>

text \<open>The inner loop of \<open>rehashSteps\<close>: the first non-empty bucket from \<open>i\<close> on.\<close>

function next_bucket :: "('k, 'v) hash_table \<Rightarrow> nat \<Rightarrow> ('k \<times> 'v) list \<times> nat" where
  "next_bucket t i =
     (if i < ht_size t
      then (if ht_table t ! i = [] then next_bucket t (Suc i) else (ht_table t ! i, Suc i))
      else ([], i))"
  by auto
termination by (relation "measure (\<lambda>(t, i). ht_size t - i)") auto

declare next_bucket.simps [simp del]

text \<open>
  The loop over the entries of bucket \<open>i\<close>: the entry is added to the new table and its key deleted
  from the old one, then its \<open>next\<close> field is read. The deletion looks in the bucket of the key; when
  that is this bucket, it is this entry that has been freed.
\<close>

fun migrate ::
  "('k \<Rightarrow> nat) \<Rightarrow> nat \<Rightarrow> ('k \<times> 'v) list \<Rightarrow> ('k, 'v) hash_table \<times> ('k, 'v) hash_table \<Rightarrow>
   (('k, 'v) hash_table \<times> ('k, 'v) hash_table) res" where
  "migrate hash i [] (t0, t1) = Ret (t0, t1)"
| "migrate hash i ((k, v) # es) (t0, t1) =
     (let t1' = fst (ht_addEntry hash t1 k v); t0' = fst (ht_deleteEntry hash t0 k) in
      if getIndexWithKey hash t0 k = i then Fault UseAfterFree
      else migrate hash i es (t0', t1'))"

fun rehash_loop ::
  "('k \<Rightarrow> nat) \<Rightarrow> nat \<Rightarrow> ('k, 'v) hash_table \<times> ('k, 'v) hash_table \<times> nat \<Rightarrow>
   (('k, 'v) hash_table \<times> ('k, 'v) hash_table \<times> nat) res" where
  "rehash_loop hash 0 (t0, t1, i) = Ret (t0, t1, i)"
| "rehash_loop hash (Suc n) (t0, t1, i) =
     (if ht_isEmpty t0 then Ret (t0, t1, i)
      else let (es, i') = next_bucket t0 i in
           res_bind (migrate hash (i' - 1) es (t0, t1)) (\<lambda>(t0', t1').
             rehash_loop hash n (t0', t1', i')))"

definition rehashSteps :: "('k \<Rightarrow> nat) \<Rightarrow> nat \<Rightarrow> ('k, 'v) dict \<Rightarrow> ('k, 'v) dict res" where
  "rehashSteps hash steps d =
     (if \<not> canRehash d then Ret d
      else case ht1 d of
        None \<Rightarrow> if ht_isEmpty (ht0 d) then Fault NullDeref
               else if steps = 0 then Ret d else Fault OutOfBounds
      | Some t1 \<Rightarrow>
          res_bind (rehash_loop hash steps (ht0 d, t1, nat (rehashIndex d))) (\<lambda>(t0', t1', i).
            if ht_isEmpty t0' then Ret (d\<lparr>ht0 := t1', ht1 := None, rehashIndex := -1\<rparr>)
            else Ret (d\<lparr>ht0 := t0', ht1 := Some t1', rehashIndex := int i\<rparr>)))"

text \<open>The first lines of every operation.\<close>

definition one_step :: "('k \<Rightarrow> nat) \<Rightarrow> ('k, 'v) dict \<Rightarrow> ('k, 'v) dict res" where
  "one_step hash d = (if isRehashing d then rehashSteps hash 1 d else Ret d)"

definition start_rehash ::
  "('k \<Rightarrow> nat) \<Rightarrow> nat \<Rightarrow> ('k, 'v) dict \<Rightarrow> ('k, 'v) dict res" where
  "start_rehash hash n d =
     rehashSteps hash 1 (d\<lparr>ht1 := Some (new_table n), rehashIndex := 0\<rparr>)"

section \<open>The operations\<close>

definition addEntry ::
  "bool \<Rightarrow> ('k \<Rightarrow> nat) \<Rightarrow> ('k, 'v) dict \<Rightarrow> 'k \<Rightarrow> 'v \<Rightarrow> (('k, 'v) dict \<times> int) res" where
  "addEntry canResize hash d key val =
     res_bind (one_step hash d) (\<lambda>d.
       if isRehashing d then
         (case ht1 d of
            None \<Rightarrow> Fault NullDeref
          | Some t1 \<Rightarrow> let (t1', r) = ht_addEntry hash t1 key val in Ret (d\<lparr>ht1 := Some t1'\<rparr>, r))
       else
         let (t0', r) = ht_addEntry hash (ht0 d) key val; d = d\<lparr>ht0 := t0'\<rparr> in
         if r > 0 \<and> needExpand t0' canResize
         then res_bind (start_rehash hash (u32_mod (ht_size t0' * 2)) d) (\<lambda>d. Ret (d, r))
         else Ret (d, r))"

definition findEntry ::
  "('k \<Rightarrow> nat) \<Rightarrow> ('k, 'v) dict \<Rightarrow> 'k \<Rightarrow> (('k, 'v) dict \<times> 'v option) res" where
  "findEntry hash d key =
     res_bind (one_step hash d) (\<lambda>d.
       case ht_findEntry hash (ht0 d) key of
         Some v \<Rightarrow> Ret (d, Some v)
       | None \<Rightarrow>
           if isRehashing d then
             (case ht1 d of
                None \<Rightarrow> Fault NullDeref
              | Some t1 \<Rightarrow> Ret (d, ht_findEntry hash t1 key))
           else Ret (d, None))"

definition fetchValue ::
  "('k \<Rightarrow> nat) \<Rightarrow> ('k, 'v) dict \<Rightarrow> 'k \<Rightarrow> (('k, 'v) dict \<times> int \<times> 'v option) res" where
  "fetchValue hash d key =
     res_bind (one_step hash d) (\<lambda>d.
       res_bind (findEntry hash d key) (\<lambda>(d, entry).
         case entry of None \<Rightarrow> Ret (d, -1, None) | Some v \<Rightarrow> Ret (d, 1, Some v)))"

definition deleteEntry ::
  "bool \<Rightarrow> ('k \<Rightarrow> nat) \<Rightarrow> ('k, 'v) dict \<Rightarrow> 'k \<Rightarrow> (('k, 'v) dict \<times> int) res" where
  "deleteEntry canResize hash d key =
     res_bind (one_step hash d) (\<lambda>d.
       let (t0', r) = ht_deleteEntry hash (ht0 d) key; d = d\<lparr>ht0 := t0'\<rparr> in
       if r > 0 then
         if \<not> isRehashing d \<and> needShrink t0' canResize
         then res_bind (start_rehash hash (ht_size t0' div 2) d) (\<lambda>d. Ret (d, 1))
         else Ret (d, 1)
       else if isRehashing d then
         (case ht1 d of
            None \<Rightarrow> Fault NullDeref
          | Some t1 \<Rightarrow> let (t1', r) = ht_deleteEntry hash t1 key in Ret (d\<lparr>ht1 := Some t1'\<rparr>, r))
       else Ret (d, -1))"

text \<open>Assigning through the entry that \<open>findEntry\<close> returned.\<close>

definition set_found :: "('k \<Rightarrow> nat) \<Rightarrow> ('k, 'v) dict \<Rightarrow> 'k \<Rightarrow> 'v \<Rightarrow> ('k, 'v) dict" where
  "set_found hash d key val =
     (if ht_hasKey hash (ht0 d) key then d\<lparr>ht0 := ht_setVal hash (ht0 d) key val\<rparr>
      else d\<lparr>ht1 := map_option (\<lambda>t1. ht_setVal hash t1 key val) (ht1 d)\<rparr>)"

definition replace ::
  "bool \<Rightarrow> ('k \<Rightarrow> nat) \<Rightarrow> ('k, 'v) dict \<Rightarrow> 'k \<Rightarrow> 'v \<Rightarrow> (('k, 'v) dict \<times> int) res" where
  "replace canResize hash d key val =
     res_bind (one_step hash d) (\<lambda>d.
       res_bind (addEntry canResize hash d key val) (\<lambda>(d, r).
         if r > 0 then Ret (d, 1)
         else res_bind (findEntry hash d key) (\<lambda>(d, entry).
                case entry of None \<Rightarrow> Fault NullDeref
                | Some _ \<Rightarrow> Ret (set_found hash d key val, 1))))"

definition slotNum :: "('k, 'v) dict \<Rightarrow> nat" where
  "slotNum d = (case ht1 d of None \<Rightarrow> ht_size (ht0 d)
     | Some t1 \<Rightarrow> u32_mod (ht_size (ht0 d) + ht_size t1))"

definition dict_size :: "('k, 'v) dict \<Rightarrow> nat" where
  "dict_size d = (case ht1 d of None \<Rightarrow> ht_used (ht0 d)
     | Some t1 \<Rightarrow> u32_mod (ht_used (ht0 d) + ht_used t1))"

text \<open>
  \<open>clear\<close> calls \<open>clear\<close> on both tables; the second is the null pointer unless a rehash is on.
\<close>

definition dict_clear :: "bool \<Rightarrow> ('k, 'v) dict \<Rightarrow> ('k, 'v) dict res" where
  "dict_clear cb d =
     (case ht1 d of
        None \<Rightarrow> Fault NullDeref
      | Some t1 \<Rightarrow> Ret (d\<lparr>ht0 := fst (ht_clear cb (ht0 d)), ht1 := Some (fst (ht_clear cb t1)),
                         rehashIndex := -1\<rparr>))"

section \<open>Resizing\<close>

text \<open>
  The loop of \<open>nextPower\<close>: a signed 32-bit \<open>i\<close> doubles until it reaches \<open>num\<close>. The last branch
  (doubling makes no progress, \<open>i = 0\<close>) is not reached: \<open>i\<close> starts at the initial size.
\<close>

function nextPower_loop :: "nat \<Rightarrow> nat \<Rightarrow> nat res" where
  "nextPower_loop num i =
     (if i \<ge> num then Ret i
      else if i * 2 \<ge> 2 ^ 31 then Fault SignedOverflow
      else if i < i * 2 then nextPower_loop num (i * 2)
      else Fault SignedOverflow)"
  by auto
termination by (relation "measure (\<lambda>(num, i). num - i)") auto

declare nextPower_loop.simps [simp del]

definition nextPower :: "nat \<Rightarrow> nat res" where
  "nextPower num = (if num \<ge> 2 ^ 31 then Ret (2 ^ 31) else nextPower_loop num HASH_TABLE_INITIAL_SIZE)"

definition expand :: "('k \<Rightarrow> nat) \<Rightarrow> ('k, 'v) dict \<Rightarrow> nat \<Rightarrow> (('k, 'v) dict \<times> int) res" where
  "expand hash d n =
     res_bind (nextPower n) (\<lambda>expandSize.
       if isRehashing d \<or> expandSize < ht_used (ht0 d) then Ret (d, -1)
       else if expandSize = ht_size (ht0 d) then Ret (d, -1)
       else res_bind (start_rehash hash expandSize d) (\<lambda>d. Ret (d, 1)))"

text \<open>
  The three shrinking operations call \<open>expand\<close> or each other in their last line and then run off
  the end of a function that returns \<open>int\<close>.
\<close>

definition shrinkToMinSize ::
  "bool \<Rightarrow> ('k \<Rightarrow> nat) \<Rightarrow> ('k, 'v) dict \<Rightarrow> (('k, 'v) dict \<times> int) res" where
  "shrinkToMinSize canResize hash d =
     (if isRehashing d \<or> \<not> canResize then Ret (d, -1)
      else let minimal = ht_used (ht0 d);
               minimal = (if minimal < HASH_TABLE_INITIAL_SIZE then HASH_TABLE_INITIAL_SIZE
                          else minimal)
           in res_bind (expand hash d minimal) (\<lambda>_. Fault MissingReturn))"

definition shrinkToNextPower ::
  "bool \<Rightarrow> ('k \<Rightarrow> nat) \<Rightarrow> ('k, 'v) dict \<Rightarrow> (('k, 'v) dict \<times> int) res" where
  "shrinkToNextPower canResize hash d =
     (if isRehashing d \<or> \<not> canResize then Ret (d, -1)
      else let minimal = ht_used (ht0 d) in
           res_bind (if minimal < HASH_TABLE_INITIAL_SIZE then Ret HASH_TABLE_INITIAL_SIZE
                     else nextPower minimal) (\<lambda>minimal.
             res_bind (expand hash d minimal) (\<lambda>_. Fault MissingReturn)))"

definition tryShrink ::
  "bool \<Rightarrow> ('k \<Rightarrow> nat) \<Rightarrow> ('k, 'v) dict \<Rightarrow> (('k, 'v) dict \<times> int) res" where
  "tryShrink canResize hash d =
     (if isRehashing d \<or> \<not> needShrink (ht0 d) canResize then Ret (d, -1)
      else res_bind (shrinkToNextPower canResize hash d) (\<lambda>_. Fault MissingReturn))"

section \<open>Scanning\<close>

function revBits_loop :: "nat \<Rightarrow> 32 word \<Rightarrow> 32 word \<Rightarrow> 32 word" where
  "revBits_loop s m bits =
     (let s' = s div 2 in
      if s' > 0 then
        let m' = m XOR push_bit s' m;
            bits' = (drop_bit s' bits AND m') OR (push_bit s' bits AND NOT m')
        in revBits_loop s' m' bits'
      else bits)"
  by auto
termination by (relation "measure (\<lambda>(s, m, bits). s)") auto

declare revBits_loop.simps [simp del]

definition revBits :: "32 word \<Rightarrow> 32 word" where
  "revBits bits = revBits_loop 32 (NOT 0) bits"

definition mask_of :: "('k, 'v) hash_table \<Rightarrow> 32 word" where
  "mask_of h = of_nat (ht_mask h)"

definition next_cursor :: "('k, 'v) hash_table \<Rightarrow> 32 word \<Rightarrow> 32 word" where
  "next_cursor h cursor = revBits (revBits (cursor OR NOT (mask_of h)) + 1)"

text \<open>
  One step of a scan. The result is the 32-bit pattern of the returned int32_t; the caller
  \<open>dictScan\<close> keeps it in a uint32_t, so its test \<open>nextCursor <= 0\<close> sees only 0.
\<close>

definition dictScanOneStep ::
  "('k, 'v) dict \<Rightarrow> 32 word \<Rightarrow> ('p \<Rightarrow> 'k \<Rightarrow> 'v \<Rightarrow> 'p \<times> int) \<Rightarrow> 'p \<Rightarrow> ('p \<times> 32 word) res" where
  "dictScanOneStep d cursor scanProc priv =
     (if isRehashing d then
        case ht1 d of
          None \<Rightarrow> Fault NullDeref
        | Some t \<Rightarrow>
            let (h0, h1) = (if ht_size (ht0 d) > ht_size t then (t, ht0 d) else (ht0 d, t)) in
            res_bind (scanEntries h0 (getIndex h0 (unat cursor)) scanProc priv) (\<lambda>(priv, r).
              if r = -1 then Ret (priv, - 1) else
              res_bind (scanEntries h1 (getIndex h1 (unat cursor)) scanProc priv) (\<lambda>(priv, r).
                if r = -1 then Ret (priv, - 1) else
                let index = (cursor AND mask_of h1) OR
                      ((NOT (mask_of h0) AND mask_of h1) OR (mask_of h0 AND NOT (mask_of h1))) in
                res_bind (scanEntries h1 (unat index) scanProc priv) (\<lambda>(priv, r).
                  if r = -1 then Ret (priv, - 1) else Ret (priv, next_cursor h0 cursor))))
      else
        res_bind (scanEntries (ht0 d) (getIndex (ht0 d) (unat cursor)) scanProc priv) (\<lambda>(priv, r).
          if r = -1 then Ret (priv, - 1) else Ret (priv, next_cursor (ht0 d) cursor)))"

fun dictScan ::
  "('k, 'v) dict \<Rightarrow> 32 word \<Rightarrow> nat \<Rightarrow> ('p \<Rightarrow> 'k \<Rightarrow> 'v \<Rightarrow> 'p \<times> int) \<Rightarrow> 'p \<Rightarrow> ('p \<times> 32 word) res" where
  "dictScan d cursor 0 scanProc priv = Ret (priv, cursor)"
| "dictScan d cursor (Suc steps) scanProc priv =
     res_bind (dictScanOneStep d cursor scanProc priv) (\<lambda>(priv, next).
       if next \<le> 0 then Ret (priv, next) else dictScan d next steps scanProc priv)"

section \<open>Random entries\<close>

text \<open>
  The retry loops draw from the list of random numbers until a non-empty bucket comes up;
  \<open>None\<close> when the list is used up.
\<close>

fun pick_two :: "('k, 'v) hash_table \<Rightarrow> ('k, 'v) hash_table \<Rightarrow> nat \<Rightarrow> nat list \<Rightarrow>
  (('k \<times> 'v) list \<times> nat list) res option" where
  "pick_two t0 t1 ri [] = None"
| "pick_two t0 t1 ri (r # rs) =
     (let index = u32_mod (ri + r mod (ht_size t0 + ht_size t1 - ri)) in
      case (if index > ht_size t0 then getEntryBy t1 (index - ht_size t0)
            else getEntryBy t0 index) of
        Fault e \<Rightarrow> Some (Fault e)
      | Ret [] \<Rightarrow> pick_two t0 t1 ri rs
      | Ret (e # es) \<Rightarrow> Some (Ret (e # es, rs)))"

fun pick_one :: "('k, 'v) hash_table \<Rightarrow> nat list \<Rightarrow> (('k \<times> 'v) list \<times> nat list) res option" where
  "pick_one t0 [] = None"
| "pick_one t0 (r # rs) =
     (case getEntryBy t0 (getIndex t0 (u32_mod r)) of
        Fault e \<Rightarrow> Some (Fault e)
      | Ret [] \<Rightarrow> pick_one t0 rs
      | Ret (e # es) \<Rightarrow> Some (Ret (e # es, rs)))"

fun pick_entry ::
  "(('k \<times> 'v) list \<times> nat list) res option \<Rightarrow> ('k \<times> 'v) option res option" where
  "pick_entry (Some (Ret (chain, r # rs))) = Some (Ret (Some (chain ! (r mod length chain))))"
| "pick_entry (Some (Ret (chain, []))) = None"
| "pick_entry (Some (Fault e)) = Some (Fault e)"
| "pick_entry None = None"

definition getRandomEntry ::
  "('k \<Rightarrow> nat) \<Rightarrow> ('k, 'v) dict \<Rightarrow> nat list \<Rightarrow> ('k \<times> 'v) option res option" where
  "getRandomEntry hash d rs =
     (if dict_size d = 0 then Some (Ret None)
      else if isRehashing d then
        case rehashSteps hash 1 d of
          Fault e \<Rightarrow> Some (Fault e)
        | Ret d' \<Rightarrow>
            (case ht1 d' of
               None \<Rightarrow> Some (Fault NullDeref)
             | Some t1 \<Rightarrow> pick_entry (pick_two (ht0 d') t1 (nat (rehashIndex d')) rs))
      else pick_entry (pick_one (ht0 d) rs))"

end
