(* ===== verification/DictCorrect.thy ===== *)
theory DictCorrect imports Dict begin

text \<open>
  Correctness of the dictionary: the map a dictionary stands for and its invariant, the outcome of
  the steps of a rehash (they return only when there is nothing to move), the exact outcome of each
  operation, and the interpretation of the keyed-store interface on dictionaries of the initial size.
\<close>

section \<open>The map of a dictionary and its invariant\<close>

definition dict_abs :: "('k, 'v) dict \<Rightarrow> 'k \<Rightarrow> 'v option" where
  "dict_abs d = (case ht1 d of None \<Rightarrow> ht_abs (ht0 d) | Some t1 \<Rightarrow> ht_abs t1 ++ ht_abs (ht0 d))"

definition dict_count :: "('k, 'v) dict \<Rightarrow> nat" where
  "dict_count d = ht_used (ht0 d) + (case ht1 d of None \<Rightarrow> 0 | Some t1 \<Rightarrow> ht_used t1)"

text \<open>Two tables in the middle of a migration that has emptied the buckets below \<open>i\<close>.\<close>

definition rehash_pair ::
  "('k \<Rightarrow> nat) \<Rightarrow> ('k, 'v) hash_table \<Rightarrow> ('k, 'v) hash_table \<Rightarrow> nat \<Rightarrow> bool" where
  "rehash_pair hash t0 t1 i \<longleftrightarrow>
     ht_inv hash t0 \<and> ht_inv hash t1 \<and> dom (ht_abs t0) \<inter> dom (ht_abs t1) = {} \<and>
     ht_used t0 + ht_used t1 < 2 ^ 31 \<and>
     (\<forall>j < i. j < ht_size t0 \<longrightarrow> ht_table t0 ! j = [])"

definition dict_inv :: "('k \<Rightarrow> nat) \<Rightarrow> ('k, 'v) dict \<Rightarrow> bool" where
  "dict_inv hash d \<longleftrightarrow>
     (case ht1 d of
        None \<Rightarrow> rehashIndex d = -1 \<and> ht_inv hash (ht0 d) \<and> ht_used (ht0 d) < 2 ^ 31
      | Some t1 \<Rightarrow> 0 \<le> rehashIndex d \<and> rehash_pair hash (ht0 d) t1 (nat (rehashIndex d)))"

lemma new_dict_inv: "dict_inv hash new_dict"
  by (simp add: dict_inv_def new_dict_def new_table_inv HASH_TABLE_INITIAL_SIZE_def)

lemma new_dict_abs: "dict_abs new_dict = Map.empty"
  by (simp add: dict_abs_def new_dict_def)

lemma dict_inv_rehashing: "dict_inv hash d \<Longrightarrow> isRehashing d \<longleftrightarrow> ht1 d \<noteq> None"
  by (auto simp: dict_inv_def isRehashing_def split: option.splits)

lemma isRehashing_update [simp]:
  "isRehashing (d\<lparr>ht0 := t\<rparr>) = isRehashing d" "isRehashing (d\<lparr>ht1 := u\<rparr>) = isRehashing d"
  by (simp_all add: isRehashing_def)

lemma dict_size_count: "dict_inv hash d \<Longrightarrow> dict_size d = dict_count d"
  by (auto simp: dict_inv_def dict_size_def dict_count_def rehash_pair_def split: option.splits)

section \<open>Migration of one bucket\<close>

lemma empty_bucket_iff:
  assumes inv: "ht_inv hash t" and i: "i < ht_size t"
  shows "ht_table t ! i = [] \<longleftrightarrow> (\<forall>k. ht_abs t k \<noteq> None \<longrightarrow> getIndexWithKey hash t k \<noteq> i)"
proof -
  have b: "ht_abs t k \<noteq> None \<longleftrightarrow> k \<in> fst ` set (concat (ht_table t))" for k
    unfolding ht_abs_def by (simp only: map_of_eq_None_iff not_not)
  show ?thesis
  proof
    assume e: "ht_table t ! i = []"
    show "\<forall>k. ht_abs t k \<noteq> None \<longrightarrow> getIndexWithKey hash t k \<noteq> i"
    proof (intro allI impI notI)
      fix k assume "ht_abs t k \<noteq> None" and g: "getIndexWithKey hash t k = i"
      then have "k \<in> fst ` set (concat (ht_table t))" by (simp only: b)
      then obtain x where "k = fst x" "x \<in> set (concat (ht_table t))" by (rule imageE)
      with ht_inv_key_bucket [OF inv] g e show False by fastforce
    qed
  next
    assume r: "\<forall>k. ht_abs t k \<noteq> None \<longrightarrow> getIndexWithKey hash t k \<noteq> i"
    show "ht_table t ! i = []"
    proof (rule ccontr)
      assume "ht_table t ! i \<noteq> []"
      then obtain x where x: "x \<in> set (ht_table t ! i)" by (meson list.set_sel(1))
      then have "getIndexWithKey hash t (fst x) = i" using inv i by (simp add: ht_inv_def)
      moreover have "x \<in> set (concat (ht_table t))"
        using x i inv by (auto simp: ht_inv_def)
      ultimately show False using r b by auto
    qed
  qed
qed

lemma next_bucket_ok:
  assumes inv: "ht_inv hash t" and ne: "\<not> ht_isEmpty t"
    and below: "\<forall>j < i. j < ht_size t \<longrightarrow> ht_table t ! j = []"
  shows "\<exists>j. next_bucket t i = (ht_table t ! j, Suc j) \<and> j < ht_size t \<and> ht_table t ! j \<noteq> [] \<and>
    (\<forall>m < j. ht_table t ! m = [])"
  using assms
proof (induction t i rule: next_bucket.induct)
  case (1 t i)
  have "i < ht_size t"
  proof (rule ccontr)
    assume "\<not> i < ht_size t"
    with 1 have "\<forall>b \<in> set (ht_table t). b = []"
      by (auto simp: ht_inv_def in_set_conv_nth)
    then have "concat (ht_table t) = []" by simp
    with 1 show False by (simp add: ht_isEmpty_def ht_inv_def)
  qed
  show ?case
  proof (cases "ht_table t ! i = []")
    case True
    with 1(4) have "\<forall>j < Suc i. j < ht_size t \<longrightarrow> ht_table t ! j = []"
      by (auto simp: less_Suc_eq)
    with 1(1) [OF \<open>i < ht_size t\<close> True 1(2,3)] True \<open>i < ht_size t\<close> show ?thesis
      by (simp add: next_bucket.simps [of t i])
  next
    case False
    with \<open>i < ht_size t\<close> 1(4) show ?thesis
      by (intro exI [of _ i]) (simp add: next_bucket.simps [of t i])
  qed
qed

lemma bucket_index:
  "ht_inv hash t \<Longrightarrow> i < ht_size t \<Longrightarrow> e \<in> set (ht_table t ! i) \<Longrightarrow> getIndexWithKey hash t (fst e) = i"
  by (simp add: ht_inv_def)

text \<open>Moving a bucket that has an entry frees that entry and reads it again.\<close>

lemma migrate_bucket:
  assumes "ht_inv hash t0" and "j < ht_size t0" and "ht_table t0 ! j \<noteq> []"
  shows "migrate hash j (ht_table t0 ! j) (t0, t1) = Fault UseAfterFree"
proof -
  obtain k v es where e: "ht_table t0 ! j = (k, v) # es"
    using assms(3) by (metis list.exhaust surj_pair)
  then have "getIndexWithKey hash t0 k = j" using bucket_index [OF assms(1,2), of "(k, v)"] by simp
  then show ?thesis by (simp add: e)
qed

section \<open>The outcome of rehashing steps\<close>

text \<open>
  A rehash whose old table still has entries gets stuck at its next step; one whose old table is
  empty is completed by it.
\<close>

definition stuck :: "('k, 'v) dict \<Rightarrow> bool" where
  "stuck d \<longleftrightarrow> canRehash d \<and> ht1 d \<noteq> None \<and> \<not> ht_isEmpty (ht0 d)"

definition promote :: "('k, 'v) dict \<Rightarrow> ('k, 'v) dict" where
  "promote d = (case ht1 d of None \<Rightarrow> d
     | Some t1 \<Rightarrow> if canRehash d \<and> ht_isEmpty (ht0 d)
                  then d\<lparr>ht0 := t1, ht1 := None, rehashIndex := -1\<rparr> else d)"

lemma rehash_loop_outcome:
  assumes "rehash_pair hash t0 t1 i"
  shows "rehash_loop hash n (t0, t1, i) =
    (if ht_isEmpty t0 \<or> n = 0 then Ret (t0, t1, i) else Fault UseAfterFree)"
proof (cases n)
  case (Suc m)
  show ?thesis
  proof (cases "ht_isEmpty t0")
    case False
    have inv: "ht_inv hash t0" "\<forall>j < i. j < ht_size t0 \<longrightarrow> ht_table t0 ! j = []"
      using assms by (simp_all add: rehash_pair_def)
    obtain j where "next_bucket t0 i = (ht_table t0 ! j, Suc j)" "j < ht_size t0" "ht_table t0 ! j \<noteq> []"
      using next_bucket_ok [OF inv(1) False inv(2)] by blast
    with Suc False show ?thesis by (simp add: migrate_bucket [OF inv(1)])
  qed (simp add: Suc)
qed simp

lemma rehashSteps_outcome:
  assumes inv: "dict_inv hash d" and r: "ht1 d \<noteq> None"
  shows "rehashSteps hash n d = (if stuck d then if n = 0 then Ret d else Fault UseAfterFree else Ret (promote d))"
proof -
  obtain t1 where t1: "ht1 d = Some t1" using r by auto
  then have p: "rehash_pair hash (ht0 d) t1 (nat (rehashIndex d))" and i: "0 \<le> rehashIndex d"
    using inv by (simp_all add: dict_inv_def)
  have "d\<lparr>ht0 := ht0 d, ht1 := Some t1, rehashIndex := rehashIndex d\<rparr> = d"
    using t1 by simp
  with t1 i show ?thesis
    by (simp add: rehashSteps_def rehash_loop_outcome [OF p] stuck_def promote_def)
qed

lemma dict_inv_ht0: "dict_inv hash d \<Longrightarrow> ht_inv hash (ht0 d)"
  by (auto simp: dict_inv_def rehash_pair_def split: option.splits)

lemma promote_ok:
  assumes "dict_inv hash d"
  shows "dict_inv hash (promote d)" "dict_abs (promote d) = dict_abs d"
    "dict_count (promote d) = dict_count d" "canRehash (promote d) = canRehash d"
proof -
  have "ht_abs (ht0 d) = Map.empty \<and> ht_used (ht0 d) = 0" if "ht_isEmpty (ht0 d)"
    using that ht_used_zero [OF dict_inv_ht0 [OF assms]] by (simp add: ht_isEmpty_def)
  then show "dict_inv hash (promote d)" "dict_abs (promote d) = dict_abs d"
    "dict_count (promote d) = dict_count d" "canRehash (promote d) = canRehash d"
    using assms
    by (auto simp: promote_def dict_inv_def dict_abs_def dict_count_def rehash_pair_def split: option.splits)
qed

lemma promote_frozen [simp]: "\<not> canRehash d \<Longrightarrow> promote d = d"
  by (simp add: promote_def split: option.split)

lemma promote_one_table [simp]: "ht1 d = None \<Longrightarrow> promote d = d"
  by (simp add: promote_def)

lemma stuck_promote: "stuck d \<longleftrightarrow> canRehash d \<and> ht1 (promote d) \<noteq> None"
  by (auto simp: stuck_def promote_def split: option.splits)

lemma promote_promote [simp]: "promote (promote d) = promote d"
  by (auto simp: promote_def split: option.splits)

lemma one_step_outcome:
  assumes "dict_inv hash d"
  shows "one_step hash d = (if stuck d then Fault UseAfterFree else Ret (promote d))"
proof (cases "ht1 d = None")
  case True
  with assms show ?thesis by (simp add: one_step_def dict_inv_rehashing stuck_def)
next
  case False
  with assms show ?thesis
    by (simp add: one_step_def dict_inv_rehashing rehashSteps_outcome)
qed

lemma start_rehash_outcome:
  assumes inv: "dict_inv hash d" and n: "ht1 d = None" "0 < n" "n < 2 ^ 32"
  shows "if canRehash d \<and> \<not> ht_isEmpty (ht0 d) then start_rehash hash n d = Fault UseAfterFree
    else \<exists>d'. start_rehash hash n d = Ret d' \<and> dict_inv hash d' \<and> dict_abs d' = dict_abs d \<and>
      dict_count d' = dict_count d \<and> canRehash d' = canRehash d"
proof -
  let ?d = "d\<lparr>ht1 := Some (new_table n), rehashIndex := 0\<rparr>"
  have d: "dict_inv hash ?d" "ht1 ?d \<noteq> None" "dict_abs ?d = dict_abs d" "dict_count ?d = dict_count d"
    "canRehash ?d = canRehash d"
    using inv n new_table_inv [OF n(2,3), of hash]
    by (simp_all add: dict_inv_def rehash_pair_def dict_abs_def dict_count_def)
  have s: "stuck ?d \<longleftrightarrow> canRehash d \<and> \<not> ht_isEmpty (ht0 d)" by (simp add: stuck_def)
  show ?thesis
    using promote_ok [OF d(1)] d(3-5) unfolding start_rehash_def rehashSteps_outcome [OF d(1,2)] s by simp
qed

lemma double_size_pos:
  assumes "ht_inv hash t" "ht_used t < 2 ^ 31" "needExpand t cr"
  shows "0 < u32_mod (ht_size t * 2)"
proof (rule ccontr)
  assume "\<not> ?thesis"
  then have "2 ^ 31 * 2 dvd ht_size t * 2" by (simp add: dvd_eq_mod_eq_0)
  then have "2 ^ 31 dvd ht_size t" by (subst (asm) dvd_times_right_cancel_iff) simp_all
  then obtain q where "ht_size t = 2 ^ 31 * q" ..
  moreover have "0 < ht_size t" "ht_size t < 2 ^ 31 * 2" using assms(1) by (auto simp: ht_inv_def)
  ultimately have "ht_size t = 2 ^ 31" by simp
  with assms(2,3) show False
    by (cases cr) (simp_all add: needExpand_def NEED_FORCE_REHASH_RATIO_def)
qed

section \<open>The operations on the map\<close>

text \<open>
  Which operations make a step of a rehash whose old table has entries: those that meet one, and
  those that start one on a table that is not empty.
\<close>

definition add_migrates :: "bool \<Rightarrow> ('k, 'v) dict \<Rightarrow> bool" where
  "add_migrates cr d \<longleftrightarrow> canRehash d \<and>
     (let t = ht0 (promote d) in
      ht1 (promote d) \<noteq> None \<or> needExpand (t\<lparr>ht_used := ht_used t + 1\<rparr>) cr)"

definition delete_migrates :: "bool \<Rightarrow> ('k \<Rightarrow> nat) \<Rightarrow> ('k, 'v) dict \<Rightarrow> 'k \<Rightarrow> bool" where
  "delete_migrates cr hash d k \<longleftrightarrow> canRehash d \<and>
     (let t = ht0 (promote d) in
      ht1 (promote d) \<noteq> None \<or>
      ht_hasKey hash t k \<and> ht_used t \<noteq> 1 \<and> needShrink (t\<lparr>ht_used := ht_used t - 1\<rparr>) cr)"

definition expand_migrates :: "('k, 'v) dict \<Rightarrow> nat \<Rightarrow> bool" where
  "expand_migrates d n \<longleftrightarrow> canRehash d \<and> ht1 d = None \<and> ht_used (ht0 d) \<noteq> 0 \<and>
     (case nextPower n of Fault e \<Rightarrow> False
      | Ret n \<Rightarrow> ht_used (ht0 d) \<le> n \<and> n \<noteq> ht_size (ht0 d))"

text \<open>Adding to the only table, before a possible expansion.\<close>

lemma add_first_table:
  assumes inv: "dict_inv hash d" and h1: "ht1 d = None" and new: "dict_abs d k = None"
    and room: "dict_count d < 2 ^ 31 - 1"
  shows "\<exists>t. ht_addEntry hash (ht0 d) k v = (t, 1) \<and> dict_inv hash (d\<lparr>ht0 := t\<rparr>) \<and>
    dict_abs (d\<lparr>ht0 := t\<rparr>) = (dict_abs d)(k \<mapsto> v) \<and>
    dict_count (d\<lparr>ht0 := t\<rparr>) = Suc (dict_count d) \<and> ht_size t = ht_size (ht0 d) \<and>
    ht_used t = ht_used (ht0 d) + 1"
proof -
  have t0: "ht_inv hash (ht0 d)" "ht_abs (ht0 d) k = None" "ht_used (ht0 d) + 1 < 2 ^ 31"
    using assms by (auto simp: dict_inv_def dict_abs_def dict_count_def)
  obtain t r where add: "ht_addEntry hash (ht0 d) k v = (t, r)" by force
  have t: "r = 1" "ht_inv hash t" "ht_abs t = (ht_abs (ht0 d))(k \<mapsto> v)"
    "ht_used t = ht_used (ht0 d) + 1" "ht_size t = ht_size (ht0 d)"
    using ht_addEntry_new [OF t0(1,2) _ add] t0(3) by simp_all
  with add h1 inv t0(3) show ?thesis by (simp add: dict_inv_def dict_abs_def dict_count_def)
qed

lemma needExpand_cong: "needExpand t cr = needExpand u cr" if "ht_size t = ht_size u" "ht_used t = ht_used u"
  using that by (simp add: needExpand_def)

lemma needShrink_cong: "needShrink t cr = needShrink u cr" if "ht_size t = ht_size u" "ht_used t = ht_used u"
  using that by (simp add: needShrink_def)

lemma add_second_table:
  assumes inv: "dict_inv hash d" and Some: "ht1 d = Some t1" and new: "dict_abs d k = None"
    and room: "dict_count d < 2 ^ 31 - 1"
  shows "\<exists>t. ht_addEntry hash t1 k v = (t, 1) \<and> dict_inv hash (d\<lparr>ht1 := Some t\<rparr>) \<and>
    dict_abs (d\<lparr>ht1 := Some t\<rparr>) = (dict_abs d)(k \<mapsto> v) \<and>
    dict_count (d\<lparr>ht1 := Some t\<rparr>) = Suc (dict_count d)"
proof -
  have pair: "rehash_pair hash (ht0 d) t1 (nat (rehashIndex d))" "0 \<le> rehashIndex d"
    and k: "ht_abs t1 k = None" "ht_abs (ht0 d) k = None"
    using inv new Some by (auto simp: dict_inv_def dict_abs_def map_add_None)
  obtain t r where add: "ht_addEntry hash t1 k v = (t, r)" by force
  have t: "r = 1" "ht_inv hash t" "ht_abs t = (ht_abs t1)(k \<mapsto> v)" "ht_used t = ht_used t1 + 1"
    using ht_addEntry_new [OF _ k(1) _ add] pair room Some
    by (auto simp: rehash_pair_def dict_count_def)
  have "rehash_pair hash (ht0 d) t (nat (rehashIndex d))"
    using pair(1) k t room Some by (auto simp: rehash_pair_def dict_count_def)
  moreover have "ht_abs t ++ ht_abs (ht0 d) = (ht_abs t1 ++ ht_abs (ht0 d))(k \<mapsto> v)"
    using k(2) by (simp add: t(3) map_add_upd_left domIff)
  ultimately show ?thesis
    using add t Some pair(2) by (simp add: dict_inv_def dict_abs_def dict_count_def)
qed

lemma addEntry_outcome:
  assumes inv0: "dict_inv hash d0" and new0: "dict_abs d0 k = None"
    and room0: "dict_count d0 < 2 ^ 31 - 1"
  shows "if add_migrates cr d0 then addEntry cr hash d0 k v = Fault UseAfterFree
    else \<exists>d'. addEntry cr hash d0 k v = Ret (d', 1) \<and> dict_inv hash d' \<and>
      dict_abs d' = (dict_abs d0)(k \<mapsto> v) \<and> dict_count d' = Suc (dict_count d0) \<and>
      canRehash d' = canRehash d0"
proof (cases "stuck d0")
  case True
  then have "add_migrates cr d0" by (simp add: add_migrates_def stuck_promote)
  then show ?thesis using True inv0 by (simp add: addEntry_def one_step_outcome)
next
  case False
  define d where "d = promote d0"
  have step: "one_step hash d0 = Ret d" using False inv0 by (simp add: one_step_outcome d_def)
  have d: "dict_inv hash d" "dict_abs d k = None" "dict_count d < 2 ^ 31 - 1"
    and same: "dict_abs d = dict_abs d0" "dict_count d = dict_count d0" "canRehash d = canRehash d0"
    using promote_ok [OF inv0] new0 room0 by (simp_all add: d_def)
  have am: "add_migrates cr d0 \<longleftrightarrow> canRehash d \<and>
      (ht1 d \<noteq> None \<or> needExpand ((ht0 d)\<lparr>ht_used := ht_used (ht0 d) + 1\<rparr>) cr)"
    using same by (simp add: add_migrates_def d_def Let_def)
  show ?thesis
  proof (cases "ht1 d")
    case None
    obtain t where t: "ht_addEntry hash (ht0 d) k v = (t, 1)" "dict_inv hash (d\<lparr>ht0 := t\<rparr>)"
      "dict_abs (d\<lparr>ht0 := t\<rparr>) = (dict_abs d)(k \<mapsto> v)" "dict_count (d\<lparr>ht0 := t\<rparr>) = Suc (dict_count d)"
      "ht_size t = ht_size (ht0 d)" "ht_used t = ht_used (ht0 d) + 1"
      using add_first_table [OF d(1) None d(2,3), of v] by blast
    have ne: "needExpand ((ht0 d)\<lparr>ht_used := ht_used (ht0 d) + 1\<rparr>) cr \<longleftrightarrow> needExpand t cr"
      by (rule needExpand_cong) (simp_all add: t)
    have nr: "\<not> isRehashing d" using None d(1) by (simp add: dict_inv_rehashing)
    show ?thesis
    proof (cases "needExpand t cr")
      case True
      have u: "ht_used t < 2 ^ 31" using d(3) t(6) None by (simp add: dict_count_def)
      have pos: "0 < u32_mod (ht_size t * 2)"
        by (rule double_size_pos [OF _ u True]) (use dict_inv_ht0 [OF t(2)] in simp)
      have lt: "u32_mod (ht_size t * 2) < 2 ^ 32" by simp
      have "\<not> ht_isEmpty t" using t(6) by (simp add: ht_isEmpty_def)
      with start_rehash_outcome [OF t(2) _ pos lt] None True t nr step same show ?thesis
        unfolding am ne by (auto simp: addEntry_def)
    next
      case False
      with t step same None nr show ?thesis unfolding am ne by (simp add: addEntry_def)
    qed
  next
    case (Some t1)
    have "\<not> canRehash d" using False Some same by (simp add: stuck_promote d_def)
    with add_second_table [OF d(1) Some d(2,3), of v] Some step same d(1) show ?thesis
      unfolding am by (auto simp: addEntry_def dict_inv_rehashing)
  qed
qed

lemma addEntry_present:
  assumes inv: "dict_inv hash d" and h1: "ht1 d = None" and old: "dict_abs d k \<noteq> None"
  shows "addEntry cr hash d k v = Ret (d, -1)"
  using assms ht_addEntry_dup [OF dict_inv_ht0 [OF inv], of k v]
  by (simp add: addEntry_def one_step_outcome stuck_def dict_inv_rehashing dict_abs_def)

lemma findEntry_outcome:
  assumes inv0: "dict_inv hash d0"
  shows "findEntry hash d0 k =
    (if stuck d0 then Fault UseAfterFree else Ret (promote d0, dict_abs d0 k))"
proof -
  define d where "d = promote d0"
  have inv: "dict_inv hash d" and same: "dict_abs d0 = dict_abs d"
    using promote_ok [OF inv0] by (simp_all add: d_def)
  have "(case ht_findEntry hash (ht0 d) k of
         Some v \<Rightarrow> Ret (d, Some v)
       | None \<Rightarrow>
           if isRehashing d then
             (case ht1 d of None \<Rightarrow> Fault NullDeref | Some t1 \<Rightarrow> Ret (d, ht_findEntry hash t1 k))
           else Ret (d, None)) = Ret (d, dict_abs d k)"
    using inv by (auto simp: dict_inv_rehashing [OF inv] dict_abs_def dict_inv_def rehash_pair_def
        ht_findEntry_abs map_add_def split: option.splits)
  then show ?thesis by (simp add: findEntry_def one_step_outcome [OF inv0] same d_def [symmetric])
qed

lemma fetchValue_outcome:
  assumes "dict_inv hash d"
  shows "fetchValue hash d k =
    (if stuck d then Fault UseAfterFree
     else Ret (promote d, (case dict_abs d k of None \<Rightarrow> (-1, None) | Some v \<Rightarrow> (1, Some v))))"
proof -
  have "\<not> stuck d \<Longrightarrow> \<not> stuck (promote d)" by (simp add: stuck_promote promote_ok [OF assms])
  then show ?thesis
    using promote_ok [OF assms]
    by (simp add: fetchValue_def one_step_outcome [OF assms] findEntry_outcome split: option.split)
qed
text \<open>Deletion, first from the old table and then from the new one.\<close>

lemma delete_first_table:
  assumes inv: "dict_inv hash d" and h1: "ht1 d = None"
  shows "\<exists>t. ht_deleteEntry hash (ht0 d) k = (t, if dict_abs d k = None then -1 else 1) \<and>
    dict_inv hash (d\<lparr>ht0 := t\<rparr>) \<and> dict_abs (d\<lparr>ht0 := t\<rparr>) = (dict_abs d)(k := None) \<and>
    dict_count d = dict_count (d\<lparr>ht0 := t\<rparr>) + (if dict_abs d k = None then 0 else 1) \<and>
    ht_size t = ht_size (ht0 d)"
proof -
  obtain t r where del: "ht_deleteEntry hash (ht0 d) k = (t, r)" by force
  note t = ht_deleteEntry_ok [OF dict_inv_ht0 [OF inv] del]
  with del h1 inv show ?thesis by (auto simp: dict_inv_def dict_abs_def dict_count_def)
qed

lemma delete_two_tables:
  assumes inv: "dict_inv hash d" and Some: "ht1 d = Some t1"
  shows "\<exists>d'. (let (t0', r) = ht_deleteEntry hash (ht0 d) k in
       if r > 0 then (d\<lparr>ht0 := t0'\<rparr>, 1)
       else let (t1', r) = ht_deleteEntry hash t1 k in (d\<lparr>ht0 := t0', ht1 := Some t1'\<rparr>, r))
      = (d', if dict_abs d k = None then -1 else 1) \<and>
    dict_inv hash d' \<and> dict_abs d' = (dict_abs d)(k := None) \<and>
    dict_count d = dict_count d' + (if dict_abs d k = None then 0 else 1) \<and> canRehash d' = canRehash d"
proof -
  obtain t r where del: "ht_deleteEntry hash (ht0 d) k = (t, r)" by force
  have inv0': "ht_inv hash (ht0 d)" by (rule dict_inv_ht0 [OF inv])
  note t = ht_deleteEntry_ok [OF inv0' del]
  have r: "r > 0 \<longleftrightarrow> ht_abs (ht0 d) k \<noteq> None" using t by auto
  have pair: "rehash_pair hash (ht0 d) t1 (nat (rehashIndex d))" "0 \<le> rehashIndex d"
    using inv Some by (auto simp: dict_inv_def)
  have mask: "getIndexWithKey hash t x = getIndexWithKey hash (ht0 d) x" for x
    using t inv0' by (simp add: getIndexWithKey_def ht_inv_def)
  have low: "ht_table t ! j = []" if "j < nat (rehashIndex d)" "j < ht_size t" for j
    using pair that t empty_bucket_iff [OF inv0', of j] empty_bucket_iff [of hash t j] mask
    by (auto simp: rehash_pair_def)
  show ?thesis
  proof (cases "r > 0")
    case True
    have "ht_abs t1 k = None" using pair True r by (auto simp: rehash_pair_def disjoint_iff domIff)
    then have "ht_abs t1 ++ (ht_abs (ht0 d))(k := None) = (ht_abs t1 ++ ht_abs (ht0 d))(k := None)"
      by (auto simp: map_add_def fun_eq_iff split: option.split)
    moreover have "rehash_pair hash t t1 (nat (rehashIndex d))"
      using pair t low True r by (auto simp: rehash_pair_def)
    ultimately show ?thesis
      using t True r Some pair(2) del
      by (auto simp: dict_inv_def dict_abs_def dict_count_def map_add_None)
  next
    case False
    obtain u q where del1: "ht_deleteEntry hash t1 k = (u, q)" by force
    have inv1: "ht_inv hash t1" using pair by (simp add: rehash_pair_def)
    note u = ht_deleteEntry_ok [OF inv1 del1]
    have n0: "ht_abs (ht0 d) k = None" using False r by simp
    have ta: "ht_abs t = ht_abs (ht0 d)" "ht_used t = ht_used (ht0 d)" using t n0 by auto
    have "ht_abs u ++ ht_abs t = (ht_abs t1 ++ ht_abs (ht0 d))(k := None)"
      using n0 u ta by (auto simp: map_add_def fun_eq_iff split: option.split)
    then have abs: "ht_abs u ++ ht_abs t = (dict_abs d)(k := None)" by (simp add: dict_abs_def Some)
    have "dom (ht_abs u) \<subseteq> dom (ht_abs t1)" using u by auto
    moreover have "dom (ht_abs (ht0 d)) \<inter> dom (ht_abs t1) = {}"
      using pair(1) by (simp add: rehash_pair_def)
    ultimately have "dom (ht_abs t) \<inter> dom (ht_abs u) = {}" using ta(1) by auto
    moreover have "ht_used u \<le> ht_used t1" using u by auto
    moreover have "ht_inv hash t" "ht_inv hash u" using t u by simp_all
    ultimately have np: "rehash_pair hash t u (nat (rehashIndex d))"
      using pair(1) low ta(2) by (simp add: rehash_pair_def)
    have dk: "dict_abs d k = ht_abs t1 k" using n0 Some by (simp add: dict_abs_def map_add_def)
    have "dict_inv hash (d\<lparr>ht0 := t, ht1 := Some u\<rparr>)"
      using np pair(2) by (simp add: dict_inv_def)
    moreover have "dict_abs (d\<lparr>ht0 := t, ht1 := Some u\<rparr>) = (dict_abs d)(k := None)"
      using abs by (simp add: dict_abs_def)
    moreover have "dict_count d = dict_count (d\<lparr>ht0 := t, ht1 := Some u\<rparr>) +
        (if dict_abs d k = None then 0 else 1)"
      using u ta(2) Some dk by (simp add: dict_count_def)
    moreover have "q = (if dict_abs d k = None then -1 else 1)" using u dk by simp
    ultimately show ?thesis using False del del1
      by (intro exI [of _ "d\<lparr>ht0 := t, ht1 := Some u\<rparr>"]) simp
  qed
qed

lemma deleteEntry_outcome:
  assumes inv0: "dict_inv hash d0"
  shows "if delete_migrates cr hash d0 k then deleteEntry cr hash d0 k = Fault UseAfterFree
    else \<exists>d'. deleteEntry cr hash d0 k = Ret (d', if dict_abs d0 k = None then -1 else 1) \<and>
      dict_inv hash d' \<and> dict_abs d' = (dict_abs d0)(k := None) \<and>
      dict_count d0 = dict_count d' + (if dict_abs d0 k = None then 0 else 1) \<and>
      canRehash d' = canRehash d0"
proof (cases "stuck d0")
  case True
  then have "delete_migrates cr hash d0 k" by (simp add: delete_migrates_def stuck_promote)
  then show ?thesis using True inv0 by (simp add: deleteEntry_def one_step_outcome)
next
  case False
  define d where "d = promote d0"
  have step: "one_step hash d0 = Ret d" using False inv0 by (simp add: one_step_outcome d_def)
  have inv: "dict_inv hash d"
    and same: "dict_abs d0 = dict_abs d" "dict_count d0 = dict_count d" "canRehash d0 = canRehash d"
    using promote_ok [OF inv0] by (simp_all add: d_def)
  have dm: "delete_migrates cr hash d0 k \<longleftrightarrow> canRehash d \<and>
      (ht1 d \<noteq> None \<or> ht_hasKey hash (ht0 d) k \<and> ht_used (ht0 d) \<noteq> 1 \<and>
       needShrink ((ht0 d)\<lparr>ht_used := ht_used (ht0 d) - 1\<rparr>) cr)"
    using same by (simp add: delete_migrates_def d_def Let_def)
  show ?thesis
  proof (cases "ht1 d")
    case None
    obtain t where t: "ht_deleteEntry hash (ht0 d) k = (t, if dict_abs d k = None then -1 else 1)"
      "dict_inv hash (d\<lparr>ht0 := t\<rparr>)" "dict_abs (d\<lparr>ht0 := t\<rparr>) = (dict_abs d)(k := None)"
      "dict_count d = dict_count (d\<lparr>ht0 := t\<rparr>) + (if dict_abs d k = None then 0 else 1)"
      "ht_size t = ht_size (ht0 d)"
      using delete_first_table [OF inv None, of k] by blast
    have nr: "\<not> isRehashing d" using None inv by (simp add: dict_inv_rehashing)
    have key: "ht_hasKey hash (ht0 d) k \<longleftrightarrow> dict_abs d k \<noteq> None"
      using None by (simp add: ht_hasKey_abs [OF dict_inv_ht0 [OF inv]] dict_abs_def)
    show ?thesis
    proof (cases "dict_abs d k = None")
      case True
      then have "\<not> delete_migrates cr hash d0 k" unfolding dm key using None by simp
      with t step same nr True show ?thesis by (simp add: deleteEntry_def)
    next
      case present: False
      have u: "ht_used (ht0 d) = Suc (ht_used t)" using t(4) None present by (simp add: dict_count_def)
      then have ns: "needShrink ((ht0 d)\<lparr>ht_used := ht_used (ht0 d) - 1\<rparr>) cr \<longleftrightarrow> needShrink t cr"
        by (intro needShrink_cong) (simp_all add: t(5))
      have dm': "delete_migrates cr hash d0 k \<longleftrightarrow> canRehash d \<and> ht_used t \<noteq> 0 \<and> needShrink t cr"
        unfolding dm key ns using present None u by simp
      show ?thesis
      proof (cases "needShrink t cr")
        case True
        have n: "0 < ht_size t div 2" "ht_size t div 2 < 2 ^ 32"
          using True dict_inv_ht0 [OF t(2)] by (auto simp: needShrink_def HASH_TABLE_INITIAL_SIZE_def ht_inv_def)
        from start_rehash_outcome [OF t(2) _ n] None True t nr step same present show ?thesis
          unfolding dm' by (auto simp: deleteEntry_def ht_isEmpty_def)
      next
        case False
        with t step same None nr present show ?thesis unfolding dm' by (simp add: deleteEntry_def)
      qed
    qed
  next
    case (Some t1)
    obtain t r where del: "ht_deleteEntry hash (ht0 d) k = (t, r)" by force
    obtain u q where del1: "ht_deleteEntry hash t1 k = (u, q)" by force
    have "isRehashing d" using Some inv by (simp add: dict_inv_rehashing)
    then have "deleteEntry cr hash d0 k = Ret (if r > 0 then (d\<lparr>ht0 := t\<rparr>, 1) else (d\<lparr>ht0 := t, ht1 := Some u\<rparr>, q))"
      using step Some by (simp add: deleteEntry_def del del1)
    moreover have "\<not> delete_migrates cr hash d0 k"
      using False Some unfolding dm stuck_promote d_def [symmetric] same(3) by simp
    moreover obtain d' where
      "(if r > 0 then (d\<lparr>ht0 := t\<rparr>, 1) else (d\<lparr>ht0 := t, ht1 := Some u\<rparr>, q)) =
         (d', if dict_abs d k = None then -1 else 1)"
      "dict_inv hash d'" "dict_abs d' = (dict_abs d)(k := None)"
      "dict_count d = dict_count d' + (if dict_abs d k = None then 0 else 1)" "canRehash d' = canRehash d"
      using delete_two_tables [OF inv Some, of k] unfolding del del1 Let_def prod.case by blast
    ultimately show ?thesis unfolding same by simp
  qed
qed
section \<open>Dictionaries of the initial size\<close>

text \<open>
  A dictionary with one table of the initial size neither shrinks nor, up to 20 entries, expands:
  on it no operation starts a rehash. The program's own dictionaries, the command table and the
  configuration entries, are of this kind.
\<close>

definition dict_ok :: "('k \<Rightarrow> nat) \<Rightarrow> ('k, 'v) dict \<Rightarrow> bool" where
  "dict_ok hash d \<longleftrightarrow> dict_inv hash d \<and> ht1 d = None \<and> ht_size (ht0 d) = HASH_TABLE_INITIAL_SIZE"

lemma new_dict_ok: "dict_ok hash new_dict"
  using new_dict_inv [of hash] by (simp add: dict_ok_def) (simp add: new_dict_def)

lemma dict_okD:
  "dict_ok hash d \<Longrightarrow> dict_inv hash d" "dict_ok hash d \<Longrightarrow> ht1 d = None"
  "dict_ok hash d \<Longrightarrow> ht_size (ht0 d) = HASH_TABLE_INITIAL_SIZE"
  by (simp_all add: dict_ok_def)

lemma dict_ok_step:
  assumes "dict_ok hash d"
  shows "\<not> stuck d" "promote d = d" "one_step hash d = Ret d" "\<not> isRehashing d"
  using dict_okD [OF assms] by (simp_all add: stuck_def one_step_outcome dict_inv_rehashing)

lemma addEntry_ok:
  assumes ok: "dict_ok hash d" and new: "dict_abs d k = None" and room: "dict_count d < HASH_TABLE_INITIAL_SIZE"
  shows "\<exists>d'. addEntry cr hash d k v = Ret (d', 1) \<and> dict_ok hash d' \<and>
    dict_abs d' = (dict_abs d)(k \<mapsto> v) \<and> dict_count d' = Suc (dict_count d)"
proof -
  have inv: "dict_inv hash d" "ht1 d = None" and sz: "ht_size (ht0 d) = 20"
    using ok by (simp_all add: dict_ok_def HASH_TABLE_INITIAL_SIZE_def)
  have r: "dict_count d < 2 ^ 31 - 1" using room by (simp add: HASH_TABLE_INITIAL_SIZE_def)
  obtain t where t: "ht_addEntry hash (ht0 d) k v = (t, 1)" "dict_inv hash (d\<lparr>ht0 := t\<rparr>)"
    "dict_abs (d\<lparr>ht0 := t\<rparr>) = (dict_abs d)(k \<mapsto> v)" "dict_count (d\<lparr>ht0 := t\<rparr>) = Suc (dict_count d)"
    "ht_size t = ht_size (ht0 d)" "ht_used t = ht_used (ht0 d) + 1"
    using add_first_table [OF inv new r, of v] by blast
  have "\<not> needExpand t cr"
    using t(5,6) sz room inv(2)
    by (simp add: needExpand_def dict_count_def HASH_TABLE_INITIAL_SIZE_def NEED_FORCE_REHASH_RATIO_def)
  then have "addEntry cr hash d k v = Ret (d\<lparr>ht0 := t\<rparr>, 1)"
    using dict_ok_step [OF ok] t(1) by (simp add: addEntry_def)
  moreover have "dict_ok hash (d\<lparr>ht0 := t\<rparr>)"
    using t(2,5) ok by (simp add: dict_ok_def)
  ultimately show ?thesis using t(3,4) by blast
qed

lemma findEntry_ok: "dict_ok hash d \<Longrightarrow> findEntry hash d k = Ret (d, dict_abs d k)"
  by (simp add: findEntry_outcome dict_okD(1) dict_ok_step)

lemma fetchValue_ok:
  "dict_ok hash d \<Longrightarrow>
    fetchValue hash d k = Ret (d, (case dict_abs d k of None \<Rightarrow> (-1, None) | Some v \<Rightarrow> (1, Some v)))"
  by (simp add: fetchValue_outcome dict_okD(1) dict_ok_step)

lemma deleteEntry_ok:
  assumes ok: "dict_ok hash d"
  shows "\<exists>d'. deleteEntry cr hash d k = Ret (d', if dict_abs d k = None then -1 else 1) \<and>
    dict_ok hash d' \<and> dict_abs d' = (dict_abs d)(k := None)"
proof -
  have inv: "dict_inv hash d" "ht1 d = None" using ok by (simp_all add: dict_ok_def)
  obtain t where t: "ht_deleteEntry hash (ht0 d) k = (t, if dict_abs d k = None then -1 else 1)"
    "dict_inv hash (d\<lparr>ht0 := t\<rparr>)" "dict_abs (d\<lparr>ht0 := t\<rparr>) = (dict_abs d)(k := None)"
    "ht_size t = ht_size (ht0 d)"
    using delete_first_table [OF inv, of k] by blast
  have "\<not> needShrink t cr" using t(4) ok by (simp add: needShrink_def dict_ok_def)
  then have "deleteEntry cr hash d k = Ret (d\<lparr>ht0 := t\<rparr>, if dict_abs d k = None then -1 else 1)"
    using dict_ok_step [OF ok] t(1) by (simp add: deleteEntry_def)
  moreover have "dict_ok hash (d\<lparr>ht0 := t\<rparr>)" using t(2,4) ok by (simp add: dict_ok_def)
  ultimately show ?thesis using t(3) by blast
qed

lemma replace_ok:
  assumes ok: "dict_ok hash d" and room: "dict_abs d k \<noteq> None \<or> dict_count d < HASH_TABLE_INITIAL_SIZE"
  shows "\<exists>d'. replace cr hash d k v = Ret (d', 1) \<and> dict_ok hash d' \<and> dict_abs d' = (dict_abs d)(k \<mapsto> v)"
proof (cases "dict_abs d k = None")
  case True
  with room addEntry_ok [OF ok, of k cr v] dict_ok_step [OF ok] show ?thesis
    by (auto simp: replace_def)
next
  case False
  have inv: "dict_inv hash d" "ht1 d = None" using ok by (simp_all add: dict_ok_def)
  have h: "ht_inv hash (ht0 d)" and k: "ht_abs (ht0 d) k \<noteq> None"
    using False inv by (simp_all add: dict_abs_def dict_inv_ht0)
  note s = ht_setVal_ok [OF h k, of v]
  have "replace cr hash d k v = Ret (set_found hash d k v, 1)"
    using False dict_ok_step [OF ok]
    by (auto simp: replace_def addEntry_present [OF inv] findEntry_ok [OF ok])
  moreover have "set_found hash d k v = d\<lparr>ht0 := ht_setVal hash (ht0 d) k v\<rparr>"
    using k by (simp add: set_found_def ht_hasKey_abs [OF h])
  ultimately show ?thesis
    using s dict_okD [OF ok] by (auto simp: dict_ok_def dict_inv_def dict_abs_def)
qed

text \<open>The dictionary provides the keyed-store interface.\<close>

interpretation dict_store: key_store "dict_ok hash" dict_abs dict_count HASH_TABLE_INITIAL_SIZE
  "addEntry cr hash" "findEntry hash" "deleteEntry cr hash" for hash cr
proof (unfold_locales, goal_cases)
  case (1 s k v)
  from addEntry_ok [OF 1] show ?case .
next
  case (2 s k)
  then show ?case by (simp add: findEntry_ok)
next
  case (3 s k)
  then show ?case by (rule deleteEntry_ok)
qed

end
