(* ===== verification/DictResize.thy ===== *)
theory DictResize imports DictCorrect begin

text \<open>
  Sizes, bit reversal for the scan cursor, and the places where the dictionary goes wrong in the
  middle of a rehash.
\<close>

section \<open>The size reached by resizing\<close>

lemma nextPower_loop_ok:
  assumes "0 < i" "num \<le> i * 2 ^ k" "i * 2 ^ k < 2 ^ 31"
  shows "\<exists>j. nextPower_loop num i = Ret (i * 2 ^ j) \<and> num \<le> i * 2 ^ j \<and>
    (\<forall>m < j. i * 2 ^ m < num)"
  using assms
proof (induction k arbitrary: i)
  case 0
  then show ?case by (intro exI [of _ 0]) (simp add: nextPower_loop.simps [of num i])
next
  case (Suc k)
  show ?case
  proof (cases "i \<ge> num")
    case True
    then show ?thesis by (intro exI [of _ 0]) (simp add: nextPower_loop.simps [of num i])
  next
    case False
    have le: "i * 2 \<le> i * 2 ^ Suc k" by simp
    then have small: "i * 2 < 2 ^ 31" using Suc.prems(3) by linarith
    obtain j where j: "nextPower_loop num (i * 2) = Ret (i * 2 * 2 ^ j)" "num \<le> i * 2 * 2 ^ j"
      "\<forall>m < j. i * 2 * 2 ^ m < num"
      using Suc.IH [of "i * 2"] Suc.prems by (auto simp: mult.assoc)
    have "\<forall>m < Suc j. i * 2 ^ m < num"
    proof (intro allI impI)
      fix m assume "m < Suc j"
      then show "i * 2 ^ m < num" using False j(3) by (cases m) (auto simp: mult.assoc)
    qed
    moreover have "nextPower_loop num i = nextPower_loop num (i * 2)"
      using False small Suc.prems(1) by (simp add: nextPower_loop.simps [of num i])
    ultimately show ?thesis using j by (intro exI [of _ "Suc j"]) (auto simp: mult.assoc)
  qed
qed

lemma nextPower_ok:
  assumes "num \<le> 20 * 2 ^ 26"
  shows "\<exists>j. nextPower num = Ret (20 * 2 ^ j) \<and> num \<le> 20 * 2 ^ j \<and> (\<forall>m < j. 20 * 2 ^ m < num)"
  using nextPower_loop_ok [of 20 num 26] assms
  by (simp add: nextPower_def HASH_TABLE_INITIAL_SIZE_def)

lemma nextPower_loop_overflow:
  assumes "i = 20 * 2 ^ k" "k \<le> 26" "20 * 2 ^ 26 < num"
  shows "nextPower_loop num i = Fault SignedOverflow"
  using assms
proof (induction "26 - k" arbitrary: i k)
  case 0
  then have "k = 26" by simp
  with 0 show ?case by (subst nextPower_loop.simps) simp
next
  case (Suc n)
  have p: "(2::nat) ^ Suc k \<le> 2 ^ 26" using Suc(2) by (intro power_increasing) simp_all
  have i2: "i * 2 = 20 * 2 ^ Suc k" using Suc(3) by simp
  with p have "i * 2 < 2 ^ 31" "i < num" using Suc(5) by simp_all
  moreover have "nextPower_loop num (i * 2) = Fault SignedOverflow"
    by (rule Suc(1) [OF _ i2]) (use Suc(2,5) in simp_all)
  moreover have "0 < i" using Suc(3) by simp
  ultimately show ?case by (simp add: nextPower_loop.simps [of num i] del: nextPower_loop.simps)
qed

lemma nextPower_overflow:
  "20 * 2 ^ 26 < num \<Longrightarrow> num < 2 ^ 31 \<Longrightarrow> nextPower num = Fault SignedOverflow"
  using nextPower_loop_overflow [of 20 0 num]
  by (simp add: nextPower_def HASH_TABLE_INITIAL_SIZE_def)

lemma expand_outcome:
  assumes inv: "dict_inv hash d" and n: "n \<le> 20 * 2 ^ 26"
  shows "if expand_migrates d n then expand hash d n = Fault UseAfterFree
    else \<exists>d' r. expand hash d n = Ret (d', r) \<and> dict_inv hash d' \<and> dict_abs d' = dict_abs d \<and>
      dict_count d' = dict_count d \<and> canRehash d' = canRehash d"
proof -
  obtain j where j: "nextPower n = Ret (20 * 2 ^ j)" "\<forall>m < j. 20 * 2 ^ m < n"
    using nextPower_ok [OF n] by auto
  have "j \<le> 26"
  proof (rule ccontr)
    assume "\<not> j \<le> 26"
    then have "20 * 2 ^ 26 < n" using j(2) by (meson not_le)
    with n show False by simp
  qed
  then have "(2::nat) ^ j \<le> 2 ^ 26" by (intro power_increasing) simp_all
  then have sz: "0 < (20::nat) * 2 ^ j" "20 * 2 ^ j < (2::nat) ^ 32" by simp_all
  show ?thesis
  proof (cases "ht1 d \<noteq> None \<or> 20 * 2 ^ j < ht_used (ht0 d) \<or> 20 * 2 ^ j = ht_size (ht0 d)")
    case True
    then have "\<not> expand_migrates d n" using j(1) by (auto simp: expand_migrates_def)
    then show ?thesis using True inv j(1) by (auto simp: expand_def dict_inv_rehashing)
  next
    case False
    then have em: "expand_migrates d n \<longleftrightarrow> canRehash d \<and> \<not> ht_isEmpty (ht0 d)"
      using j(1) by (auto simp: expand_migrates_def ht_isEmpty_def)
    have "expand hash d n = res_bind (start_rehash hash (20 * 2 ^ j) d) (\<lambda>d. Ret (d, 1))"
      using False j(1) inv by (simp add: expand_def dict_inv_rehashing)
    with start_rehash_outcome [OF inv _ sz] False show ?thesis
      unfolding em by auto
  qed
qed

text \<open>Up to its size, a dictionary of the initial size refuses to grow.\<close>

lemma expand_refused:
  assumes ok: "dict_ok hash d" and n: "n \<le> HASH_TABLE_INITIAL_SIZE"
  shows "expand hash d n = Ret (d, -1)"
proof -
  have "nextPower n = Ret HASH_TABLE_INITIAL_SIZE"
    using n by (simp add: nextPower_def nextPower_loop.simps [of n] HASH_TABLE_INITIAL_SIZE_def)
  with dict_okD [OF ok] show ?thesis by (simp add: expand_def dict_ok_step [OF ok])
qed

section \<open>Reversal of the bits of a cursor\<close>

definition rev_step :: "nat \<Rightarrow> 32 word \<Rightarrow> 32 word \<Rightarrow> 32 word" where
  "rev_step s m bits = (drop_bit s bits AND m) OR (push_bit s bits AND NOT m)"

lemma revBits_loop_step:
  assumes "0 < t" "s = 2 * t" "m XOR push_bit t m = m'"
  shows "revBits_loop s m bits = revBits_loop t m' (rev_step t m' bits)"
  using assms(1) unfolding assms(3) [symmetric] assms(2)
  by (subst revBits_loop.simps) (simp add: rev_step_def Let_def)

lemma rev_masks:
  "NOT 0 XOR push_bit 16 (NOT 0) = (0x0000FFFF :: 32 word)"
  "0x0000FFFF XOR push_bit 8 0x0000FFFF = (0x00FF00FF :: 32 word)"
  "0x00FF00FF XOR push_bit 4 0x00FF00FF = (0x0F0F0F0F :: 32 word)"
  "0x0F0F0F0F XOR push_bit 2 0x0F0F0F0F = (0x33333333 :: 32 word)"
  "0x33333333 XOR push_bit 1 0x33333333 = (0x55555555 :: 32 word)"
  by code_simp+

lemma revBits_steps:
  "revBits w = rev_step 1 0x55555555 (rev_step 2 0x33333333 (rev_step 4 0x0F0F0F0F
     (rev_step 8 0x00FF00FF (rev_step 16 0x0000FFFF w))))"
proof -
  have "revBits_loop 1 m v = v" for m v by (subst revBits_loop.simps) simp
  moreover have "revBits_loop 32 (NOT 0) v = revBits_loop 16 0x0000FFFF (rev_step 16 0x0000FFFF v)" for v
    by (rule revBits_loop_step [OF _ _ rev_masks(1)]) simp_all
  moreover have "revBits_loop 16 0x0000FFFF v = revBits_loop 8 0x00FF00FF (rev_step 8 0x00FF00FF v)" for v
    by (rule revBits_loop_step [OF _ _ rev_masks(2)]) simp_all
  moreover have "revBits_loop 8 0x00FF00FF v = revBits_loop 4 0x0F0F0F0F (rev_step 4 0x0F0F0F0F v)" for v
    by (rule revBits_loop_step [OF _ _ rev_masks(3)]) simp_all
  moreover have "revBits_loop 4 0x0F0F0F0F v = revBits_loop 2 0x33333333 (rev_step 2 0x33333333 v)" for v
    by (rule revBits_loop_step [OF _ _ rev_masks(4)]) simp_all
  moreover have "revBits_loop 2 0x33333333 v = revBits_loop 1 0x55555555 (rev_step 1 0x55555555 v)" for v
    by (rule revBits_loop_step [OF _ _ rev_masks(5)]) simp_all
  ultimately show ?thesis by (simp only: revBits_def)
qed

lemma bit_rev_step:
  "bit (rev_step s m w) i \<longleftrightarrow>
     (if bit m i then bit w (s + i) else s \<le> i \<and> i < 32 \<and> bit w (i - s))"
  by (auto simp: rev_step_def bit_simps dest: bit_imp_le_length)

definition flip :: "nat \<Rightarrow> nat \<Rightarrow> nat" where
  "flip s i = (if i mod (2 * s) < s then s + i else i - s)"

lemma bit_rev_step_flip:
  assumes "\<forall>i \<in> set [0..<32]. bit m i = (i mod (2 * s) < s) \<and> (i mod (2 * s) < s \<or> s \<le> i)" "i < 32"
  shows "bit (rev_step s m w) i \<longleftrightarrow> bit w (flip s i)"
  using assms by (auto simp: bit_rev_step flip_def)

lemma mask_bits:
  "\<forall>i \<in> set [0..<32]. bit (0x0000FFFF :: 32 word) i = (i mod (2 * 16) < 16) \<and> (i mod (2 * 16) < 16 \<or> 16 \<le> i)"
  "\<forall>i \<in> set [0..<32]. bit (0x00FF00FF :: 32 word) i = (i mod (2 * 8) < 8) \<and> (i mod (2 * 8) < 8 \<or> 8 \<le> i)"
  "\<forall>i \<in> set [0..<32]. bit (0x0F0F0F0F :: 32 word) i = (i mod (2 * 4) < 4) \<and> (i mod (2 * 4) < 4 \<or> 4 \<le> i)"
  "\<forall>i \<in> set [0..<32]. bit (0x33333333 :: 32 word) i = (i mod (2 * 2) < 2) \<and> (i mod (2 * 2) < 2 \<or> 2 \<le> i)"
  "\<forall>i \<in> set [0..<32]. bit (0x55555555 :: 32 word) i = (i mod (2 * 1) < 1) \<and> (i mod (2 * 1) < 1 \<or> 1 \<le> i)"
  by code_simp+

lemma flip_index:
  "\<forall>i \<in> set [0..<32]. flip 1 i < 32 \<and> flip 2 i < 32 \<and> flip 4 i < 32 \<and> flip 8 i < 32 \<and> flip 16 i < 32 \<and>
    flip 16 (flip 8 (flip 4 (flip 2 (flip 1 i)))) = 31 - i"
  by code_simp

lemma revBits_bit:
  assumes "i < 32"
  shows "bit (revBits w) i \<longleftrightarrow> bit w (31 - i)"
proof -
  have lt: "flip 1 j < 32" "flip 2 j < 32" "flip 4 j < 32" "flip 8 j < 32" "flip 16 j < 32"
    if "j < 32" for j
    using flip_index that by simp_all
  have eq: "flip 16 (flip 8 (flip 4 (flip 2 (flip 1 i)))) = 31 - i"
    using flip_index assms by simp
  show ?thesis
    unfolding revBits_steps
    by (subst bit_rev_step_flip [OF mask_bits(5)], rule assms,
        subst bit_rev_step_flip [OF mask_bits(4)], intro lt assms,
        subst bit_rev_step_flip [OF mask_bits(3)], intro lt assms,
        subst bit_rev_step_flip [OF mask_bits(2)], intro lt assms,
        subst bit_rev_step_flip [OF mask_bits(1)], intro lt assms) (simp only: eq)
qed

lemma revBits_revBits: "revBits (revBits w) = w"
  by (rule bit_word_eqI) (simp add: revBits_bit)

section \<open>Operations in the middle of a rehash\<close>

text \<open>
  During a rehash \<open>addEntry\<close> looks only at the new table: a key that is still in the old one is
  added a second time and reported as added, while lookups keep returning the old value.
\<close>

lemma addEntry_duplicate:
  assumes inv: "dict_inv hash d" and frozen: "\<not> canRehash d" and r: "ht1 d = Some t1"
    and old: "ht_abs (ht0 d) k = Some w" and room: "dict_count d < 2 ^ 31 - 1"
  shows "\<exists>t. addEntry cr hash d k v = Ret (d\<lparr>ht1 := Some t\<rparr>, 1) \<and> ht_abs t k = Some v \<and>
    dict_abs (d\<lparr>ht1 := Some t\<rparr>) k = Some w"
proof -
  have pair: "rehash_pair hash (ht0 d) t1 (nat (rehashIndex d))"
    using inv r by (simp add: dict_inv_def)
  then have t1: "ht_inv hash t1" "ht_abs t1 k = None"
    using old by (auto simp: rehash_pair_def disjoint_iff domIff)
  obtain t q where add: "ht_addEntry hash t1 k v = (t, q)" by force
  have "q = 1" "ht_abs t = (ht_abs t1)(k \<mapsto> v)"
    using ht_addEntry_new [OF t1 _ add] room r by (auto simp: dict_count_def)
  then show ?thesis
    using add r inv old frozen
    by (intro exI [of _ t])
      (simp add: addEntry_def one_step_outcome stuck_def dict_inv_rehashing dict_abs_def map_add_def)
qed

text \<open>
  While a rehash is on and allowed, \<open>getRandomEntry\<close> never returns: its step faults on an entry it
  has to move, and when there is none the second table it then asks for its size is gone.
\<close>

lemma getRandomEntry_rehashing:
  assumes inv: "dict_inv hash d" and r: "ht1 d \<noteq> None" and c: "canRehash d" and ne: "dict_count d \<noteq> 0"
  shows "getRandomEntry hash d rs =
    Some (Fault (if ht_isEmpty (ht0 d) then NullDeref else UseAfterFree))"
proof -
  have "dict_size d \<noteq> 0" using ne by (simp add: dict_size_count [OF inv])
  then show ?thesis
    using inv r c
    by (auto simp: getRandomEntry_def dict_inv_rehashing rehashSteps_outcome stuck_def promote_def)
qed

text \<open>
  The initial size 20 is not a power of two. With tables of sizes 20 and 40 the third read of a
  scan step has the bits 4 and 5 of its index set: it reads past the end of the larger table.
\<close>

lemma scan_index_high:
  "40 \<le> unat ((cursor AND 39) OR ((NOT 19 AND 39) OR (19 AND NOT (39 :: 32 word))))"
proof -
  have "(NOT 19 AND 39) OR (19 AND NOT (39 :: 32 word)) = 52" by code_simp
  moreover have "52 \<le> (cursor AND 39) OR (52 :: 32 word)"
    by (metis le_word_or2 word_bw_comms(2))
  ultimately show ?thesis by (simp add: word_le_nat_alt)
qed

lemma scan_chain_goes_on:
  "(\<And>p k v. snd (proc p k v) \<noteq> -1) \<Longrightarrow> \<exists>p'. scan_chain proc p es = (p', 0)"
proof (induction proc p es rule: scan_chain.induct)
  case (2 proc p k v es)
  obtain p' r where pr: "proc p k v = (p', r)" by force
  with 2(2) [of p k v] have "r \<noteq> -1" by simp
  with 2(1) [OF pr [symmetric] refl _ 2(2)] pr show ?case by simp
qed simp

lemma dictScan_rehash_out_of_bounds:
  assumes inv: "dict_inv hash d" and t1: "ht1 d = Some t1"
    and sz: "ht_size (ht0 d) = 20" "ht_size t1 = 40"
    and go: "\<And>p k v. snd (proc p k v) \<noteq> -1"
  shows "dictScanOneStep d cursor proc priv = Fault OutOfBounds"
proof -
  have i: "ht_inv hash (ht0 d)" "ht_inv hash t1"
    using inv t1 by (simp_all add: dict_inv_def rehash_pair_def)
  have m: "mask_of (ht0 d) = 19" "mask_of t1 = 39"
    using i sz by (simp_all add: mask_of_def ht_inv_def)
  have "getIndex (ht0 d) n < length (ht_table (ht0 d))" "getIndex t1 n < length (ht_table t1)" for n
    using i and_nat_le [of n 19] and_nat_le [of n 39] sz by (simp_all add: getIndex_def ht_inv_def)
  then obtain p1 p2 where
    "scanEntries (ht0 d) (getIndex (ht0 d) (unat cursor)) proc priv = Ret (p1, 0)"
    "scanEntries t1 (getIndex t1 (unat cursor)) proc p1 = Ret (p2, 0)"
    using scan_chain_goes_on [of proc, OF go]
    by (simp add: scanEntries_def getEntryBy_def) metis
  moreover have "length (ht_table t1) = 40" using i sz by (simp add: ht_inv_def)
  then have "scanEntries t1 (unat ((cursor AND 39) OR ((NOT 19 AND 39) OR (19 AND NOT 39)))) proc p2
      = Fault OutOfBounds" for p2
    using scan_index_high [of cursor] by (simp add: scanEntries_def getEntryBy_def)
  ultimately show ?thesis
    using inv t1 sz by (simp add: dictScanOneStep_def dict_inv_rehashing Let_def m)
qed

section \<open>A dictionary in the middle of a rehash\<close>

text \<open>Rehashing was switched off after it had been started.\<close>

definition sample_rehash :: "(nat, nat) dict" where
  "sample_rehash =
     \<lparr>ht0 = fst (ht_addEntry (\<lambda>k. k) (new_table 20) 3 7), ht1 = Some (new_table 40),
      rehashIndex = 0, canRehash = False\<rparr>"

lemma sample_table:
  "ht_inv (\<lambda>k. k) (fst (ht_addEntry (\<lambda>k. k) (new_table 20) 3 (7 :: nat)))"
  "ht_abs (fst (ht_addEntry (\<lambda>k. k) (new_table 20) 3 (7 :: nat))) = [3 \<mapsto> 7]"
  "ht_used (fst (ht_addEntry (\<lambda>k. k) (new_table 20) 3 (7 :: nat))) = 1"
  "ht_size (fst (ht_addEntry (\<lambda>k. k) (new_table 20) 3 (7 :: nat))) = 20"
proof -
  obtain h r where h: "ht_addEntry (\<lambda>k. k) (new_table 20) 3 (7 :: nat) = (h, r)" by force
  have "ht_inv (\<lambda>k::nat. k) (new_table 20 :: (nat, nat) hash_table)" by (rule new_table_inv) simp_all
  note ht_addEntry_new [OF this _ _ h]
  then show "ht_inv (\<lambda>k. k) (fst (ht_addEntry (\<lambda>k. k) (new_table 20) 3 (7 :: nat)))"
    "ht_abs (fst (ht_addEntry (\<lambda>k. k) (new_table 20) 3 (7 :: nat))) = [3 \<mapsto> 7]"
    "ht_used (fst (ht_addEntry (\<lambda>k. k) (new_table 20) 3 (7 :: nat))) = 1"
    "ht_size (fst (ht_addEntry (\<lambda>k. k) (new_table 20) 3 (7 :: nat))) = 20"
    by (simp_all add: h)
qed

lemma sample_rehash_inv:
  "dict_inv (\<lambda>k. k) sample_rehash" "dict_abs sample_rehash = [3 \<mapsto> 7]" "dict_count sample_rehash = 1"
  "ht1 sample_rehash = Some (new_table 40)" "\<not> canRehash sample_rehash" "isRehashing sample_rehash"
  using sample_table new_table_inv [of 40 "\<lambda>k::nat. k"]
  by (simp_all add: sample_rehash_def dict_inv_def rehash_pair_def dict_abs_def dict_count_def
      isRehashing_def)

section \<open>Properties\<close>

text \<open>
  Up to 20 * 2 ^ 26 the size chosen by \<open>nextPower\<close> is the least initial size times a power of two
  that holds the requested number; above that and below 2 ^ 31 the signed counter overflows.
\<close>

lemma nextPower_least:
  "(num \<le> 20 * 2 ^ 26 \<longrightarrow>
     (\<exists>j. nextPower num = Ret (20 * 2 ^ j) \<and> num \<le> 20 * 2 ^ j \<and> (\<forall>m < j. 20 * 2 ^ m < num))) \<and>
   (20 * 2 ^ 26 < num \<longrightarrow> num < 2 ^ 31 \<longrightarrow> nextPower num = Fault SignedOverflow)"
  using nextPower_ok nextPower_overflow by blast

text \<open>
  \<open>revBits\<close>, the mask-and-shift loop behind the scan cursor, reverses the 32 bits of its
  argument, so applying it twice is the identity.
\<close>

lemma revBits_reverses:
  "bit (revBits w) i = (i < 32 \<and> bit w (31 - i)) \<and> revBits (revBits w) = w"
  using revBits_bit [of i w] revBits_revBits [of w] bit_imp_le_length [of "revBits w" i] by auto

text \<open>
  A scan step while the table grows from its initial size 20 to 40 reads outside the larger
  table, for every cursor and every callback that does not stop the scan: the cursor arithmetic
  needs sizes that are powers of two, and 20 is not one.
\<close>

lemma scan_during_rehash_faults:
  assumes "dict_inv hash d" and "ht1 d = Some t1" and "ht_size (ht0 d) = 20" and "ht_size t1 = 40"
    and "\<And>p k v. snd (proc p k v) \<noteq> -1"
  shows "dictScanOneStep d cursor proc priv = Fault OutOfBounds"
  by (rule dictScan_rehash_out_of_bounds) (rule assms)+

end
