(* ===== verification/CommandTable.thy ===== *)
theory CommandTable imports DictResize begin

text \<open>
  The command table (src/src/commandtable): the static list of commands, the flags read from their
  letters, and the dictionary the commands are registered in. The handlers are in \<open>Commands\<close>; here
  they are only named.
\<close>

section \<open>Command entries\<close>

definition CMD_WRITE :: flags where "CMD_WRITE = 1"
definition CMD_READONLY :: flags where "CMD_READONLY = 2"
definition CMD_DENYOOM :: flags where "CMD_DENYOOM = 4"
definition CMD_ADMIN :: flags where "CMD_ADMIN = 16"
definition CMD_PUBSUB :: flags where "CMD_PUBSUB = 32"
definition CMD_NOSCRIPT :: flags where "CMD_NOSCRIPT = 64"
definition CMD_RANDOM :: flags where "CMD_RANDOM = 128"
definition CMD_SORT_FOR_SCRIPT :: flags where "CMD_SORT_FOR_SCRIPT = 256"
definition CMD_LOADING :: flags where "CMD_LOADING = 512"
definition CMD_STALE :: flags where "CMD_STALE = 1024"
definition CMD_SKIP_MONITOR :: flags where "CMD_SKIP_MONITOR = 2048"
definition CMD_ASKING :: flags where "CMD_ASKING = 4096"
definition CMD_FAST :: flags where "CMD_FAST = 8192"

datatype command_proc =
    PingCommand
  | SubscribeCommand
  | UnsubscribeCommand
  | PsubscribeCommand
  | PunsubscribeCommand
  | PublishCommand
  | RoleCommand

record command_entry =
  ce_name :: string
  ce_proc :: command_proc
  ce_arity :: int
  ce_sflags :: string
  ce_flag :: flags

definition new_entry :: "string \<Rightarrow> command_proc \<Rightarrow> int \<Rightarrow> string \<Rightarrow> command_entry" where
  "new_entry name p arity sflags =
     \<lparr>ce_name = name, ce_proc = p, ce_arity = arity, ce_sflags = sflags, ce_flag = 0\<rparr>"

definition sentinelCommandTable :: "command_entry list" where
  "sentinelCommandTable =
     [new_entry ''ping'' PingCommand 1 ''tF'',
      new_entry ''subscribe'' SubscribeCommand 2 [],
      new_entry ''unsubscribe'' UnsubscribeCommand 1 [],
      new_entry ''psubscribe'' PsubscribeCommand 2 [],
      new_entry ''punsubscribe'' PunsubscribeCommand 1 [],
      new_entry ''publish'' PublishCommand 3 [],
      new_entry ''role'' RoleCommand 1 []]"

definition ce_addFlag :: "flags \<Rightarrow> command_entry \<Rightarrow> command_entry" where
  "ce_addFlag f e = e\<lparr>ce_flag := ce_flag e OR f\<rparr>"

definition IsWrite :: "command_entry \<Rightarrow> bool" where
  "IsWrite e \<longleftrightarrow> has_flag (ce_flag e) CMD_WRITE"

section \<open>Populating the table\<close>

definition flag_letter :: "char \<Rightarrow> flags option" where
  "flag_letter c =
     (if c = CHR ''w'' then Some CMD_WRITE
      else if c = CHR ''r'' then Some CMD_READONLY
      else if c = CHR ''m'' then Some CMD_DENYOOM
      else if c = CHR ''a'' then Some CMD_ADMIN
      else if c = CHR ''p'' then Some CMD_PUBSUB
      else if c = CHR ''s'' then Some CMD_NOSCRIPT
      else if c = CHR ''R'' then Some CMD_RANDOM
      else if c = CHR ''S'' then Some CMD_SORT_FOR_SCRIPT
      else if c = CHR ''l'' then Some CMD_LOADING
      else if c = CHR ''t'' then Some CMD_STALE
      else if c = CHR ''M'' then Some CMD_SKIP_MONITOR
      else if c = CHR ''k'' then Some CMD_ASKING
      else if c = CHR ''F'' then Some CMD_FAST
      else None)"

text \<open>An unknown letter ends the process.\<close>

fun add_letters :: "string \<Rightarrow> command_entry \<Rightarrow> command_entry res" where
  "add_letters [] e = Ret e"
| "add_letters (c # cs) e =
     (case flag_letter c of
        None \<Rightarrow> Fault ProcessExit
      | Some f \<Rightarrow> add_letters cs (ce_addFlag f e))"

fun populateCommand ::
  "bool \<Rightarrow> (string \<Rightarrow> nat) \<Rightarrow> command_entry list \<Rightarrow> (string, command_entry) dict \<Rightarrow>
   (string, command_entry) dict res" where
  "populateCommand cr hash [] d = Ret d"
| "populateCommand cr hash (e # es) d =
     res_bind (add_letters (c_str (ce_sflags e)) e) (\<lambda>e.
     res_bind (addEntry cr hash d (ce_name e) e) (\<lambda>(d, r).
       populateCommand cr hash es d))"

definition new_command_table :: "bool \<Rightarrow> (string \<Rightarrow> nat) \<Rightarrow> (string, command_entry) dict res" where
  "new_command_table cr hash = populateCommand cr hash sentinelCommandTable new_dict"

section \<open>What the table holds\<close>

definition registered :: "(string \<times> command_entry) list" where
  "registered =
     map (\<lambda>e. (ce_name e, if ce_name e = ''ping'' then e\<lparr>ce_flag := CMD_STALE OR CMD_FAST\<rparr> else e))
       sentinelCommandTable"

lemma populate_add_all:
  "\<forall>e \<in> set es. \<exists>e'. add_letters (c_str (ce_sflags e)) e = Ret e' \<and> ce_name e' = ce_name e \<and> f e = e' \<Longrightarrow>
   populateCommand cr hash es d = dict_store.add_all cr hash d (map (\<lambda>e. (ce_name e, f e)) es)"
proof (induction es arbitrary: d)
  case (Cons e es)
  then show ?case by (auto simp: dict_store.add_all.simps intro!: arg_cong2 [where f = res_bind])
qed (simp add: dict_store.add_all.simps)

lemma registered_letters:
  "\<forall>e \<in> set sentinelCommandTable. \<exists>e'. add_letters (c_str (ce_sflags e)) e = Ret e' \<and> ce_name e' = ce_name e \<and>
     (if ce_name e = ''ping'' then e\<lparr>ce_flag := CMD_STALE OR CMD_FAST\<rparr> else e) = e'"
  by (simp add: sentinelCommandTable_def new_entry_def c_str_def NUL_def flag_letter_def ce_addFlag_def)

lemma registered_keys: "map fst registered = map ce_name sentinelCommandTable"
  by (simp add: registered_def comp_def)

lemma registered_distinct: "distinct (map fst registered)"
  by (simp add: registered_keys sentinelCommandTable_def new_entry_def)

lemma command_table_ok:
  "\<exists>d1 d2 d3. new_command_table cr hash = Ret d1 \<and> dict_store.find_all hash d1 ks = Ret d2 \<and>
     findEntry hash d2 k = Ret (d3, map_of registered k)"
proof -
  have "new_command_table cr hash = dict_store.add_all cr hash new_dict registered"
    using populate_add_all [OF registered_letters, of cr hash new_dict]
    by (simp add: new_command_table_def registered_def)
  moreover have "dict_count (new_dict :: (string, command_entry) dict) + length registered \<le> HASH_TABLE_INITIAL_SIZE"
    by (simp add: registered_def sentinelCommandTable_def dict_count_def new_dict_def new_table_def HASH_TABLE_INITIAL_SIZE_def)
  ultimately show ?thesis
    using dict_store.registered_lookup [OF new_dict_ok new_dict_abs registered_distinct,
        where hash = hash and cr = cr and ks = ks and k = k]
    by simp
qed

end
