(* ===== verification/Server.thy ===== *)
theory Server imports FlyClient EventLoop SentinelHello CommandTable begin

text \<open>
  The server side of the clients: the lists of clients that FlySentinel keeps
  (src/src/flysentinel/FlySentinel.cpp), and the operations of a client that go through them
  (src/src/flyclient/FlyClient.cpp): queueing replies, sending, creating and freeing.

  Clients are objects on a heap (\<open>objs\<close>) that is only ever extended: the program holds them by shared
  pointers. \<open>clients\<close> is the std::map from descriptors to clients. \<open>net_out\<close> logs the bytes handed to
  write, \<open>closed_fds\<close> the descriptors passed to close. What write returns and whether errno is EAGAIN
  after it are arguments.
\<close>

definition CONFIG_DEFAULT_MAX_CLIENTS :: int where "CONFIG_DEFAULT_MAX_CLIENTS = 10000"
definition CONFIG_MIN_RESERVED_FDS :: int where "CONFIG_MIN_RESERVED_FDS = 32"
definition CONFIG_FDSET_INCR :: int where "CONFIG_FDSET_INCR = CONFIG_MIN_RESERVED_FDS + 96"
definition MAX_ACCEPTS_PER_CALL :: nat where "MAX_ACCEPTS_PER_CALL = 1000"
definition PROTO_MAX_QUERYBUF_LEN :: nat where "PROTO_MAX_QUERYBUF_LEN = 1024 * 1024 * 1024"

text \<open>The file procs, and the time proc \<open>serverCron\<close>.\<close>

datatype client_proc = ReadQuery | SendReply | AcceptTcp | ServerCron

type_synonym cid = nat

record server =
  objs :: "fly_client list"
  clients :: "(int, cid) omap"
  clientsPendingWrite :: "cid list"
  clientsToClose :: "cid list"
  sv_loop :: "client_proc event_loop"
  maxClients :: nat
  nextClientId :: "64 word"
  statRejectedConn :: "64 word"
  clientMaxQuerybufLen :: "64 word"
  cronloops :: "64 word"
  sv_nowt :: int
  commands :: "(string, command_entry) dict"
  chans :: "(string, cid list) omap"
  pats :: "(string \<times> cid \<times> nat) list"
  sn :: sentinel
  net_out :: "(int \<times> string) list"
  closed_fds :: "int list"

section \<open>The heap of clients\<close>

definition obj :: "server \<Rightarrow> cid \<Rightarrow> fly_client res" where
  "obj s c = (if c < length (objs s) then Ret (objs s ! c) else Fault OutOfBounds)"

definition upd_obj :: "cid \<Rightarrow> (fly_client \<Rightarrow> fly_client) \<Rightarrow> server \<Rightarrow> server" where
  "upd_obj c f s = (if c < length (objs s) then s\<lparr>objs := (objs s)[c := f (objs s ! c)]\<rparr> else s)"

definition getFlyClient :: "int \<Rightarrow> server \<Rightarrow> cid option" where
  "getFlyClient fd s = map_of (clients s) fd"

definition IsPendingWrite :: "fly_client \<Rightarrow> bool" where
  "IsPendingWrite x \<longleftrightarrow> has_flag (fc_flags x) CLIENT_PENDING_WRITE"

section \<open>Queueing replies\<close>

definition addToClientsPendingToWrite :: "int \<Rightarrow> server \<Rightarrow> server" where
  "addToClientsPendingToWrite fd s =
     (case getFlyClient fd s of
        None \<Rightarrow> s
      | Some c \<Rightarrow>
          if c < length (objs s) \<and> \<not> IsPendingWrite (objs s ! c)
          then (upd_obj c (fc_addFlag CLIENT_PENDING_WRITE) s)\<lparr>clientsPendingWrite := clientsPendingWrite s @ [c]\<rparr>
          else s)"

definition prepareClientToWrite :: "cid \<Rightarrow> server \<Rightarrow> (server \<times> int) res" where
  "prepareClientToWrite c s =
     res_bind (obj s c) (\<lambda>x.
       if fc_fd x < 0 then Ret (s, -1)
       else if has_flag (fc_flags x) CLIENT_MASTER \<and> \<not> has_flag (fc_flags x) CLIENT_MASTER_FORCE_REPLY
       then Ret (s, -1)
       else Ret (if hasNoPending x \<and> \<not> has_flag (fc_flags x) CLIENT_PENDING_WRITE
                 then addToClientsPendingToWrite (fc_fd x) s else s, 1))"

definition addReplyRaw :: "string \<Rightarrow> cid \<Rightarrow> server \<Rightarrow> server res" where
  "addReplyRaw msg c s =
     res_bind (prepareClientToWrite c s) (\<lambda>(s, r).
       if r = -1 then Ret s
       else
         res_bind (obj s c) (\<lambda>x.
           let (x', r) = addReplyToBuffer (c_str msg) x in
           if r = -1
           then res_bind (addReplyToReplyList (c_str msg) x) (\<lambda>x'. Ret (upd_obj c (\<lambda>_. x') s))
           else Ret (upd_obj c (\<lambda>_. x') s)))"

text \<open>
  \<open>vsnprintf\<close> of a text used as its own format, without arguments: \<open>%%\<close> is a percent sign, any other
  conversion reads an argument that was not passed.
\<close>

fun format_plain :: "string \<Rightarrow> string res" where
  "format_plain [] = Ret []"
| "format_plain (c # cs) =
     (if c = CHR ''%'' then
        (case cs of
           d # ds \<Rightarrow> if d = CHR ''%'' then res_bind (format_plain ds) (\<lambda>r. Ret (CHR ''%'' # r)) else Fault BadFormat
         | [] \<Rightarrow> Fault BadFormat)
      else res_bind (format_plain cs) (\<lambda>r. Ret (c # r)))"

definition addReply :: "string \<Rightarrow> cid \<Rightarrow> server \<Rightarrow> server res" where
  "addReply fmt c s =
     res_bind (format_plain (c_str fmt)) (\<lambda>msg. addReplyRaw (take 1023 msg) c s)"

text \<open>The encodings go through a memory device and what is read back from it.\<close>

definition mem_reply ::
  "(memfio fio \<Rightarrow> (memfio fio \<times> nat) res) \<Rightarrow> cid \<Rightarrow> server \<Rightarrow> server res" where
  "mem_reply wrt c s =
     res_bind (wrt (new_fio new_memfio)) (\<lambda>(f, n). addReply (getStr (dev f)) c s)"

definition addReplyError :: "string \<Rightarrow> cid \<Rightarrow> server \<Rightarrow> server res" where
  "addReplyError err c s = mem_reply (writeBulkError mem_basewrite err) c s"

definition no_newlines :: "string \<Rightarrow> string" where
  "no_newlines msg = map (\<lambda>ch. if ch = CHR 0x0D \<or> ch = CHR 0x0A then CHR '' '' else ch) msg"

text \<open>The formatted text is the argument.\<close>

definition addReplyErrorFormat :: "string \<Rightarrow> cid \<Rightarrow> server \<Rightarrow> server res" where
  "addReplyErrorFormat msg c s = addReplyError (no_newlines (take 1023 (c_str msg))) c s"

definition addReplyBulkBuffer :: "string \<Rightarrow> cid \<Rightarrow> server \<Rightarrow> server res" where
  "addReplyBulkBuffer buf c s =
     mem_reply (\<lambda>f. res_bind (writeBulkCount mem_basewrite (CHR ''$'') (int (length buf)) f) (\<lambda>(f, n).
       fio_write mem_basewrite buf (length buf) f)) c s"

definition addReplyBulkLongLong :: "64 word \<Rightarrow> cid \<Rightarrow> server \<Rightarrow> server res" where
  "addReplyBulkLongLong num c s = addReplyBulkBuffer (nat_dec (unat num)) c s"

definition addReplyBulkString :: "string \<Rightarrow> cid \<Rightarrow> server \<Rightarrow> server res" where
  "addReplyBulkString str c s = mem_reply (writeBulkString mem_basewrite str) c s"

definition addReplyLongLong :: "int \<Rightarrow> cid \<Rightarrow> server \<Rightarrow> server res" where
  "addReplyLongLong n c s = mem_reply (writeBulkCount mem_basewrite (CHR '':'') n) c s"

definition addReplyArrayLen :: "int \<Rightarrow> cid \<Rightarrow> server \<Rightarrow> server res" where
  "addReplyArrayLen n c s = mem_reply (writeBulkCount mem_basewrite (CHR ''*'') n) c s"

text \<open>A shared object is known by its text; a null one is dereferenced.\<close>

definition addReplyFlyStringObj :: "string option \<Rightarrow> cid \<Rightarrow> server \<Rightarrow> server res" where
  "addReplyFlyStringObj object c s = (case object of None \<Rightarrow> Fault NullDeref | Some str \<Rightarrow> addReply str c s)"

section \<open>Closing\<close>

definition close_fd :: "int \<Rightarrow> server \<Rightarrow> server" where
  "close_fd fd s = s\<lparr>closed_fds := closed_fds s @ [fd]\<rparr>"

text \<open>The flags are overwritten, not added to.\<close>

definition freeClientAsync :: "cid \<Rightarrow> server \<Rightarrow> server" where
  "freeClientAsync c s =
     (if c < length (objs s) \<and> has_flag (fc_flags (objs s ! c)) CLIENT_CLOSE_ASAP then s
      else (upd_obj c (\<lambda>x. x\<lparr>fc_flags := CLIENT_CLOSE_ASAP\<rparr>) s)\<lparr>clientsToClose := clientsToClose s @ [c]\<rparr>)"

definition freeClientAsyncFd :: "int \<Rightarrow> server \<Rightarrow> server" where
  "freeClientAsyncFd fd s = (case getFlyClient fd s of None \<Rightarrow> s | Some c \<Rightarrow> freeClientAsync c s)"

text \<open>The first client of a list with the given descriptor goes.\<close>

fun remove_fd :: "fly_client list \<Rightarrow> int \<Rightarrow> cid list \<Rightarrow> cid list" where
  "remove_fd xs fd [] = []"
| "remove_fd xs fd (c # cs) = (if fc_fd (xs ! c) = fd then cs else c # remove_fd xs fd cs)"

definition deleteFromPending :: "int \<Rightarrow> server \<Rightarrow> server" where
  "deleteFromPending fd s = s\<lparr>clientsPendingWrite := remove_fd (objs s) fd (clientsPendingWrite s)\<rparr>"

definition deleteFromAsyncClose :: "int \<Rightarrow> server \<Rightarrow> server" where
  "deleteFromAsyncClose fd s = s\<lparr>clientsToClose := remove_fd (objs s) fd (clientsToClose s)\<rparr>"

definition linkClient :: "cid \<Rightarrow> server \<Rightarrow> server res" where
  "linkClient c s = res_bind (obj s c) (\<lambda>x. Ret (s\<lparr>clients := omap_put (fc_fd x) c (clients s)\<rparr>))"

definition unlink_map :: "cid \<Rightarrow> server \<Rightarrow> server res" where
  "unlink_map c s =
     res_bind (obj s c) (\<lambda>x.
       if fc_fd x \<noteq> -1 \<and> getFlyClient (fc_fd x) s \<noteq> None
       then
         res_bind (deleteFileEvent (fc_fd x) (ES_WRITABLE OR ES_READABLE) (sv_loop s)) (\<lambda>(l, r).
           let s = close_fd (fc_fd x) (s\<lparr>sv_loop := l\<rparr>);
               s = upd_obj c (\<lambda>x. x\<lparr>fc_fd := -1\<rparr>) s
           in Ret (s\<lparr>clients := omap_erase (-1) (clients s)\<rparr>))
       else Ret s)"

definition unlinkClient :: "cid \<Rightarrow> server \<Rightarrow> server res" where
  "unlinkClient c s =
     res_bind (unlink_map c s) (\<lambda>s.
     res_bind (obj s c) (\<lambda>x.
       let s = (if IsPendingWrite x then deleteFromPending (fc_fd x) s else s)
       in Ret (deleteFromAsyncClose (fc_fd x) s)))"

text \<open>\<open>freeClient\<close> returns no value; no caller uses it.\<close>

definition freeClient :: "cid \<Rightarrow> server \<Rightarrow> server res" where
  "freeClient c s = unlinkClient c s"

fun first_fd :: "fly_client list \<Rightarrow> int \<Rightarrow> cid list \<Rightarrow> nat option" where
  "first_fd xs fd [] = None"
| "first_fd xs fd (c # cs) = (if fc_fd (xs ! c) = fd then Some 0 else map_option Suc (first_fd xs fd cs))"

text \<open>
  The loop stands on position \<open>i\<close> of the list while \<open>freeClient\<close> erases an element of it; \<open>n\<close> counts
  the elements from \<open>i\<close> on. When the element it stands on goes, the loop steps from a freed node.
\<close>

fun async_free :: "nat \<Rightarrow> nat \<Rightarrow> server \<Rightarrow> server res" where
  "async_free 0 i s = Ret s"
| "async_free (Suc n) i s =
     (let c = clientsToClose s ! i in
      res_bind (freeClient c s) (\<lambda>s'.
      res_bind (obj s' c) (\<lambda>x.
        case first_fd (objs s') (fc_fd x) (clientsToClose s) of
          None \<Rightarrow> async_free n (Suc i) s'
        | Some j \<Rightarrow>
            if j = i then Fault UseAfterFree
            else if j < i then async_free n i s'
            else async_free (n - 1) (Suc i) s')))"

definition freeClientsInAsyncFreeList :: "server \<Rightarrow> server res" where
  "freeClientsInAsyncFreeList s =
     res_bind (async_free (length (clientsToClose s)) 0 s) (\<lambda>s. Ret (s\<lparr>clientsToClose := []\<rparr>))"

section \<open>Sending\<close>

text \<open>
  \<open>wr\<close> is what the calls of write return, \<open>again\<close> whether errno is EAGAIN when it is read.
\<close>

definition writeToClient ::
  "(nat \<Rightarrow> string \<Rightarrow> int) \<Rightarrow> bool \<Rightarrow> bool \<Rightarrow> cid \<Rightarrow> server \<Rightarrow> (server \<times> int) res" where
  "writeToClient wr again handlerInstalled c s =
     res_bind (obj s c) (\<lambda>x.
       let fd = fc_fd x;
           (x, out, onceCount) = send_pending wr 0 0 0 x;
           s = (upd_obj c (\<lambda>_. x) s)\<lparr>net_out := net_out s @ [(fd, out)]\<rparr>
       in if onceCount \<le> 0 \<and> \<not> again then Ret (close_fd fd (freeClientAsyncFd fd s), -1)
          else if hasNoPending x then
            let s = upd_obj c (\<lambda>x. x\<lparr>sendLen := 0\<rparr>) s in
            res_bind (if handlerInstalled
                      then res_bind (deleteFileEvent fd ES_WRITABLE (sv_loop s)) (\<lambda>(l, r). Ret (s\<lparr>sv_loop := l\<rparr>))
                      else Ret s) (\<lambda>s.
              if has_flag (fc_flags x) CLIENT_CLOSE_AFTER_REPLY
              then Ret (close_fd fd (freeClientAsyncFd fd s), -1) else Ret (s, 1))
          else Ret (s, 1))"

definition sendReplyToClient :: "(nat \<Rightarrow> string \<Rightarrow> int) \<Rightarrow> bool \<Rightarrow> int \<Rightarrow> server \<Rightarrow> server res" where
  "sendReplyToClient wr again fd s =
     (case getFlyClient fd s of
        None \<Rightarrow> Fault NullDeref
      | Some c \<Rightarrow> res_bind (writeToClient wr again True c s) (\<lambda>(s, r). Ret s))"

text \<open>One client of the list; \<open>net c\<close> is the network as client \<open>c\<close> finds it.\<close>

definition pending_write_one ::
  "(cid \<Rightarrow> (nat \<Rightarrow> string \<Rightarrow> int) \<times> bool) \<Rightarrow> cid \<Rightarrow> server \<Rightarrow> server res" where
  "pending_write_one net c s =
     (let s = upd_obj c (fc_delFlag CLIENT_PENDING_WRITE) s in
      res_bind (writeToClient (fst (net c)) (snd (net c)) False c s) (\<lambda>(s, r).
        if r = -1 then Ret s
        else res_bind (obj s c) (\<lambda>x.
          if hasNoPending x then Ret s
          else res_bind (createFileEvent (fc_fd x) ES_WRITABLE SendReply None (sv_loop s)) (\<lambda>(l, r).
            let s = s\<lparr>sv_loop := l\<rparr> in Ret (if r = -1 then freeClientAsync c s else s)))))"

fun pending_write_all ::
  "(cid \<Rightarrow> (nat \<Rightarrow> string \<Rightarrow> int) \<times> bool) \<Rightarrow> cid list \<Rightarrow> server \<Rightarrow> server res" where
  "pending_write_all net [] s = Ret s"
| "pending_write_all net (c # cs) s = res_bind (pending_write_one net c s) (pending_write_all net cs)"

definition handleClientsWithPendingWrites ::
  "(cid \<Rightarrow> (nat \<Rightarrow> string \<Rightarrow> int) \<times> bool) \<Rightarrow> server \<Rightarrow> (server \<times> nat) res" where
  "handleClientsWithPendingWrites net s =
     (if clientsPendingWrite s = [] then Ret (s, 0)
      else res_bind (pending_write_all net (clientsPendingWrite s) s) (\<lambda>s'.
        Ret (s'\<lparr>clientsPendingWrite := []\<rparr>, length (clientsPendingWrite s))))"

section \<open>Accepting\<close>

definition createClient :: "int \<Rightarrow> server \<Rightarrow> (server \<times> cid option) res" where
  "createClient fd s =
     (if fd \<le> 0 then Ret (s, None)
      else if length (clients s) \<ge> maxClients s then Ret (s\<lparr>statRejectedConn := statRejectedConn s + 1\<rparr>, None)
      else
        let c = length (objs s); x = (new_client fd (sv_nowt s))\<lparr>fc_id := nextClientId s\<rparr>;
            s = s\<lparr>objs := objs s @ [x], nextClientId := nextClientId s + 1\<rparr>
        in res_bind (createFileEvent fd ES_READABLE ReadQuery None (sv_loop s)) (\<lambda>(l, r).
             let s = s\<lparr>sv_loop := l\<rparr> in
             if r = -1 then Ret (s, None)
             else Ret (s\<lparr>clients := omap_put fd c (clients s)\<rparr>, Some c)))"

text \<open>\<open>accepted\<close> is what tcpAccept returns, call by call, up to the first -1.\<close>

fun accept_loop :: "nat \<Rightarrow> int list \<Rightarrow> server \<Rightarrow> server res" where
  "accept_loop 0 accepted s = Ret s"
| "accept_loop (Suc n) [] s = Ret s"
| "accept_loop (Suc n) (fd # fds) s =
     (if fd = -1 then Ret s
      else res_bind (createClient fd s) (\<lambda>(s, c).
        accept_loop n fds (if c = None then close_fd fd s else s)))"

definition acceptTcpHandler :: "int list \<Rightarrow> server \<Rightarrow> server res" where
  "acceptTcpHandler fds s = accept_loop MAX_ACCEPTS_PER_CALL fds s"

section \<open>The limit on clients\<close>

text \<open>
  \<open>soft\<close> is the soft limit getrlimit reports, if it does; \<open>setlimit\<close> whether setrlimit succeeds for a
  value. The result is \<open>maxClients\<close>.
\<close>

function raise_limit :: "(int \<Rightarrow> bool) \<Rightarrow> int \<Rightarrow> int \<Rightarrow> int" where
  "raise_limit setlimit soft cur =
     (if cur > soft then if setlimit cur then cur else raise_limit setlimit soft (cur - 16) else cur)"
  by auto
termination by (relation "measure (\<lambda>(f, soft, cur). nat (cur - soft))") auto

declare raise_limit.simps [simp del]

definition setMaxClientLimit :: "int option \<Rightarrow> (int \<Rightarrow> bool) \<Rightarrow> int res" where
  "setMaxClientLimit soft setlimit =
     (case soft of
        None \<Rightarrow> Ret (1024 - CONFIG_MIN_RESERVED_FDS)
      | Some softLimit \<Rightarrow>
          let maxFiles = CONFIG_DEFAULT_MAX_CLIENTS + CONFIG_MIN_RESERVED_FDS in
          if softLimit < maxFiles then
            let cur = raise_limit setlimit softLimit maxFiles;
                cur = (if cur < softLimit then softLimit else cur)
            in if cur \<le> CONFIG_MIN_RESERVED_FDS then Fault ProcessExit else Ret (cur - CONFIG_MIN_RESERVED_FDS)
          else Ret CONFIG_DEFAULT_MAX_CLIENTS)"

section \<open>The cron\<close>

text \<open>Bytes received are added to the limit on query buffers.\<close>

definition addToStatNetInputBytes :: "nat \<Rightarrow> server \<Rightarrow> server" where
  "addToStatNetInputBytes n s = s\<lparr>clientMaxQuerybufLen := clientMaxQuerybufLen s + of_nat n\<rparr>"

definition addCronLoops :: "server \<Rightarrow> server" where
  "addCronLoops s = s\<lparr>cronloops := cronloops s + 1\<rparr>"

section \<open>A concrete server\<close>

definition sample_loop_of :: "nat \<Rightarrow> client_proc event_loop" where
  "sample_loop_of n =
     new_loop (\<lambda>i. \<lparr>fe_fd = 0, fe_mask = 0, fe_privdata = None, rfileProc = None, wfileProc = None\<rparr>) 0 n"

definition sample_server :: "fly_client list \<Rightarrow> (int, cid) omap \<Rightarrow> server" where
  "sample_server xs m =
     \<lparr>objs = xs, clients = m, clientsPendingWrite = [], clientsToClose = [], sv_loop = sample_loop_of 16,
      maxClients = 8, nextClientId = 0, statRejectedConn = 0, clientMaxQuerybufLen = 1024, cronloops = 0,
      sv_nowt = 0, commands = new_dict, chans = [], pats = [], sn = empty_sentinel, net_out = [],
      closed_fds = []\<rparr>"

end
