(* ===== verification/Parser.thy ===== *)
theory Parser imports Server begin

text \<open>
  Reading commands from the query buffer of a client (src/src/flyclient/FlyClient.cpp): inline commands
  and RESP arrays of bulk strings.

  \<open>analyseMultiBulk\<close> flows off its end when every bulk was read; what its caller then reads as the
  return value is the argument \<open>junk\<close>.
\<close>

definition with_obj :: "(fly_client \<Rightarrow> fly_client res) \<Rightarrow> cid \<Rightarrow> server \<Rightarrow> server res" where
  "with_obj f c s = res_bind (obj s c) (\<lambda>x. res_bind (f x) (\<lambda>x'. Ret (upd_obj c (\<lambda>_. x') s)))"

definition setProtocolError :: "nat \<Rightarrow> cid \<Rightarrow> server \<Rightarrow> server res" where
  "setProtocolError pos c s = with_obj (\<lambda>x. trimQueryBuf (pos + 2) (fc_addFlag CLIENT_CLOSE_AFTER_REPLY x)) c s"

text \<open>An error reply, then the protocol error.\<close>

definition protocol_error :: "string \<Rightarrow> nat \<Rightarrow> cid \<Rightarrow> server \<Rightarrow> server res" where
  "protocol_error err pos c s = res_bind (addReplyError err c s) (setProtocolError pos c)"

definition no_newline_yet :: "string \<Rightarrow> cid \<Rightarrow> server \<Rightarrow> server res" where
  "no_newline_yet err c s =
     res_bind (obj s c) (\<lambda>x.
       if length (queryBuf x) > PROTO_INLINE_MAX_SIZE then protocol_error err 0 c s else Ret s)"

section \<open>Inline commands\<close>

definition processInlineBuffer :: "cid \<Rightarrow> server \<Rightarrow> (server \<times> int) res" where
  "processInlineBuffer c s =
     res_bind (obj s c) (\<lambda>x.
       case str_find (queryBuf x) CRLF 0 of
         None \<Rightarrow> res_bind (no_newline_yet ''Protocol error: too big mbulk count string'' c s) (\<lambda>s. Ret (s, -1))
       | Some pos \<Rightarrow>
           (case spiltString (substr (queryBuf x) 0 pos) '' '' of
              None \<Rightarrow> Ret (s, -1)
            | Some words \<Rightarrow>
                if words = [] then Ret (s, -1)
                else res_bind (with_obj (\<lambda>x. res_bind (addArgvs words (allocArgv (length words) x)) (trimQueryBuf (pos + 2))) c s)
                       (\<lambda>s. Ret (s, 1))))"

section \<open>RESP arrays\<close>

definition analyseMultiBulkLen :: "cid \<Rightarrow> server \<Rightarrow> (server \<times> int) res" where
  "analyseMultiBulkLen c s =
     res_bind (obj s c) (\<lambda>x.
       let q = queryBuf x in
       case str_find q CRLF 0 of
         None \<Rightarrow> res_bind (no_newline_yet ''Protocol error: too big mbulk count string'' c s) (\<lambda>s. Ret (s, -1))
       | Some pos \<Rightarrow>
           let (r, n) = string2int64 (substr q 1 (if pos = 0 then length q else pos - 1)) 0 in
           if r = -1 \<or> n > PROTO_REQ_MULTIBULK_MAX_LEN
           then res_bind (protocol_error ''Protocol error: invalid multibulk length'' pos c s) (\<lambda>s. Ret (s, -1))
           else if n < 0 then res_bind (with_obj (trimQueryBuf (pos + 2)) c s) (\<lambda>s. Ret (s, 1))
           else res_bind (with_obj (\<lambda>x. trimQueryBuf (pos + 2) (allocArgv (nat n) (x\<lparr>multiBulkLen := n\<rparr>))) c s)
                  (\<lambda>s. Ret (s, 1)))"

text \<open>
  The second half of \<open>analyseBulk\<close>: the payload, from the position behind the length line, as far as
  the next line break.
\<close>

definition bulk_payload :: "int \<Rightarrow> nat \<Rightarrow> cid \<Rightarrow> server \<Rightarrow> (server \<times> int) res" where
  "bulk_payload bulkLen begin c s =
     res_bind (obj s c) (\<lambda>x.
       let q = queryBuf x in
       case str_find q CRLF begin of
         None \<Rightarrow> Ret (s, -1)
       | Some pos \<Rightarrow>
           if (of_nat (pos - begin) :: 64 word) \<noteq> of_int bulkLen
           then res_bind (protocol_error ''Protocol error: not enough bulk space'' pos c s) (\<lambda>s. Ret (s, -1))
           else res_bind (with_obj (\<lambda>x. res_bind (addArgv (substr q begin (pos - begin)) x) (trimQueryBuf (pos + 2))) c s)
                  (\<lambda>s. Ret (s, 1)))"

text \<open>After an invalid length the function goes on, in the trimmed buffer.\<close>

definition analyseBulk :: "cid \<Rightarrow> server \<Rightarrow> (server \<times> int) res" where
  "analyseBulk c s =
     res_bind (obj s c) (\<lambda>x.
       let q = queryBuf x in
       case q of
         [] \<Rightarrow> Ret (s, -1)
       | ch # _ \<Rightarrow>
           if ch \<noteq> CHR ''$''
           then res_bind (addReplyErrorFormat (''Protocol error: expected '' @ [CHR 0x27] @ ''$'' @ [CHR 0x27] @
                    '', got '' @ [CHR 0x27, ch, CHR 0x27]) c s) (\<lambda>s.
                res_bind (setProtocolError 0 c s) (\<lambda>s. Ret (s, -1)))
           else (case str_find q CRLF 1 of
                   None \<Rightarrow> res_bind (no_newline_yet ''Protocol error: too big bulk count string'' c s) (\<lambda>s. Ret (s, -1))
                 | Some pos \<Rightarrow>
                     let (r, bulkLen) = string2int64 (substr q 1 (pos - 1)) 0 in
                     res_bind (if r = -1 \<or> bulkLen < 0 \<or> bulkLen > PROTO_REQ_BULK_MAX_LEN
                               then protocol_error ''Protocol error: invalid bulk length'' pos c s else Ret s)
                       (bulk_payload bulkLen (pos + 2) c)))"

fun analyse_bulks :: "int \<Rightarrow> nat \<Rightarrow> cid \<Rightarrow> server \<Rightarrow> (server \<times> int) res" where
  "analyse_bulks junk 0 c s = Ret (s, junk)"
| "analyse_bulks junk (Suc n) c s =
     res_bind (analyseBulk c s) (\<lambda>(s, r). if r = -1 then Ret (s, -1) else analyse_bulks junk n c s)"

definition analyseMultiBulk :: "int \<Rightarrow> cid \<Rightarrow> server \<Rightarrow> (server \<times> int) res" where
  "analyseMultiBulk junk c s =
     res_bind (obj s c) (\<lambda>x. analyse_bulks junk (nat (multiBulkLen x - int (length (argv x)))) c s)"

definition processMultiBulkBuffer :: "int \<Rightarrow> cid \<Rightarrow> server \<Rightarrow> (server \<times> int) res" where
  "processMultiBulkBuffer junk c s =
     (let s = upd_obj c (\<lambda>x. x\<lparr>reqType := PROTO_REQ_MULTIBULK\<rparr>) s in
      res_bind (obj s c) (\<lambda>x.
      res_bind (if multiBulkLen x = 0 then analyseMultiBulkLen c s else Ret (s, 1)) (\<lambda>(s, r).
        if r = -1 then Ret (s, -1)
        else res_bind (analyseMultiBulk junk c s) (\<lambda>(s, r).
          if r = -1 then Ret (s, -1)
          else Ret (upd_obj c (\<lambda>x. x\<lparr>multiBulkLen := 0, reqType := 0\<rparr>) s, 1)))))"

text \<open>One round of the loop of \<open>processInputBuffer\<close>.\<close>

definition input_round :: "int \<Rightarrow> cid \<Rightarrow> server \<Rightarrow> (server \<times> int) res" where
  "input_round junk c s =
     res_bind (obj s c) (\<lambda>x.
       if hd (queryBuf x) = CHR ''*'' \<or> reqType x = PROTO_REQ_MULTIBULK
       then processMultiBulkBuffer junk c s else processInlineBuffer c s)"

section \<open>The rounds end\<close>

text \<open>What a reply does not touch: the input side of every client.\<close>

definition same_input :: "server \<Rightarrow> server \<Rightarrow> bool" where
  "same_input s s' \<longleftrightarrow> length (objs s') = length (objs s) \<and>
     (\<forall>i < length (objs s). let x = objs s ! i; x' = objs s' ! i in
        queryBuf x' = queryBuf x \<and> argv x' = argv x \<and> argvCap x' = argvCap x \<and> argvGen x' = argvGen x \<and>
        multiBulkLen x' = multiBulkLen x \<and> reqType x' = reqType x \<and> fc_fd x' = fc_fd x \<and>
        fc_flags x' AND NOT CLIENT_PENDING_WRITE = fc_flags x AND NOT CLIENT_PENDING_WRITE)"

lemma same_input_refl [simp]: "same_input s s"
  by (simp add: same_input_def Let_def)

lemma same_input_trans: "same_input s t \<Longrightarrow> same_input t u \<Longrightarrow> same_input s u"
  by (simp add: same_input_def Let_def)

lemma same_input_upd:
  assumes "same_input s t"
    and "c < length (objs t) \<Longrightarrow> let x = objs t ! c; x' = f x in
      queryBuf x' = queryBuf x \<and> argv x' = argv x \<and> argvCap x' = argvCap x \<and> argvGen x' = argvGen x \<and>
        multiBulkLen x' = multiBulkLen x \<and> reqType x' = reqType x \<and> fc_fd x' = fc_fd x \<and>
        fc_flags x' AND NOT CLIENT_PENDING_WRITE = fc_flags x AND NOT CLIENT_PENDING_WRITE"
  shows "same_input s (upd_obj c f t)"
  using assms by (auto simp: same_input_def upd_obj_def Let_def nth_list_update)

lemma same_input_obj:
  "same_input s t \<Longrightarrow> obj t c = Ret y \<Longrightarrow>
     \<exists>x. obj s c = Ret x \<and> queryBuf y = queryBuf x \<and> argv y = argv x \<and> argvCap y = argvCap x \<and>
       multiBulkLen y = multiBulkLen x \<and> reqType y = reqType x"
  by (auto simp: obj_def same_input_def Let_def split: if_splits)

lemma flag_pending_only: "(f OR b) AND NOT b = f AND NOT (b :: flags)"
  by (auto simp: bit_eq_iff bit_simps)

lemma addToPending_input [simp]: "same_input s (addToClientsPendingToWrite fd s)"
  by (auto simp: addToClientsPendingToWrite_def same_input_def upd_obj_def fc_addFlag_def flag_pending_only
      nth_list_update Let_def split: option.split)

lemma prepare_input: "prepareClientToWrite c s = Ret (s', r) \<Longrightarrow> same_input s s'"
  by (auto simp: prepareClientToWrite_def res_bind_eq_Ret split: if_splits)

lemma addReplyRaw_input: "addReplyRaw msg c s = Ret s' \<Longrightarrow> same_input s s'"
proof -
  assume a: "addReplyRaw msg c s = Ret s'"
  then obtain t r where t: "prepareClientToWrite c s = Ret (t, r)" and i: "same_input s t"
    by (auto simp: addReplyRaw_def res_bind_eq_Ret dest: prepare_input)
  show ?thesis
  proof (cases "r = -1")
    case True
    then show ?thesis using a t i by (simp add: addReplyRaw_def)
  next
    case False
    then obtain x where x: "obj t c = Ret x" using a t by (auto simp: addReplyRaw_def res_bind_eq_Ret)
    then have "objs t ! c = x" by (auto simp: obj_def split: if_splits)
    then show ?thesis
      using a t x i False
      by (auto simp: addReplyRaw_def res_bind_eq_Ret addReplyToBuffer_def addReplyToReplyList_def Let_def
          split: if_splits intro!: same_input_upd)
  qed
qed

lemma addReply_input: "addReply msg c s = Ret s' \<Longrightarrow> same_input s s'"
  by (auto simp: addReply_def res_bind_eq_Ret dest: addReplyRaw_input)

lemma addReplyError_input: "addReplyError err c s = Ret s' \<Longrightarrow> same_input s s'"
  by (auto simp: addReplyError_def mem_reply_def res_bind_eq_Ret dest: addReply_input)

text \<open>The work left in a buffer; a round that succeeds makes it less.\<close>

definition work :: "fly_client \<Rightarrow> nat" where
  "work x = 2 * length (queryBuf x) + (if multiBulkLen x \<noteq> 0 then 1 else 0)"

lemma obj_upd: "obj s c = Ret x \<Longrightarrow> obj (upd_obj c f s) c = Ret (f x)"
  by (auto simp: obj_def upd_obj_def split: if_splits)

lemma with_obj_obj:
  "with_obj f c s = Ret t \<Longrightarrow> obj s c = Ret x \<Longrightarrow> \<exists>y. f x = Ret y \<and> obj t c = Ret y"
  by (auto simp: with_obj_def res_bind_eq_Ret obj_upd)

lemma trim_length:
  "trimQueryBuf n x = Ret y \<Longrightarrow> queryBuf y = drop n (queryBuf x) \<and> n \<le> length (queryBuf x) \<and>
     multiBulkLen y = multiBulkLen x \<and> argv y = argv x \<and> reqType y = reqType x"
  by (auto simp: trimQueryBuf_def split: if_splits)

lemma freeArgv_input [simp]:
  "queryBuf (allocArgv n x) = queryBuf x" "multiBulkLen (allocArgv n x) = multiBulkLen x"
  by (simp_all add: allocArgv_def freeArgv_def)

lemma addArgv_input: "addArgv w x = Ret y \<Longrightarrow> queryBuf y = queryBuf x \<and> multiBulkLen y = multiBulkLen x"
  by (auto simp: addArgv_def split: option.splits if_splits)

lemma addArgvs_input: "addArgvs ws x = Ret y \<Longrightarrow> queryBuf y = queryBuf x \<and> multiBulkLen y = multiBulkLen x"
proof (induction ws arbitrary: x)
  case (Cons w ws)
  then obtain x1 where "addArgv w x = Ret x1" "addArgvs ws x1 = Ret y" by (auto simp: res_bind_eq_Ret)
  then show ?case using Cons.IH addArgv_input by fastforce
qed simp

lemma protocol_error_obj:
  assumes "protocol_error err pos c s = Ret t" and "obj s c = Ret x"
  shows "\<exists>y. obj t c = Ret y \<and> queryBuf y = drop (pos + 2) (queryBuf x) \<and> pos + 2 \<le> length (queryBuf x) \<and>
    multiBulkLen y = multiBulkLen x"
proof -
  obtain u where u: "addReplyError err c s = Ret u" "setProtocolError pos c u = Ret t"
    using assms(1) by (auto simp: protocol_error_def res_bind_eq_Ret)
  obtain x1 where x1: "obj u c = Ret x1"
    using u(2) by (auto simp: setProtocolError_def with_obj_def res_bind_eq_Ret)
  then have "queryBuf x1 = queryBuf x" "multiBulkLen x1 = multiBulkLen x"
    using same_input_obj [OF addReplyError_input [OF u(1)] x1] assms(2) by auto
  moreover obtain y where "trimQueryBuf (pos + 2) (fc_addFlag CLIENT_CLOSE_AFTER_REPLY x1) = Ret y" "obj t c = Ret y"
    using with_obj_obj [OF u(2) [unfolded setProtocolError_def] x1] by blast
  ultimately show ?thesis by (auto dest!: trim_length simp: fc_addFlag_def)
qed

lemma bulk_payload_shrinks:
  assumes "bulk_payload n b c s = Ret (t, r)" and "r \<noteq> -1" and "obj s c = Ret x"
  shows "\<exists>y. obj t c = Ret y \<and> length (queryBuf y) < length (queryBuf x) \<and> multiBulkLen y = multiBulkLen x"
proof -
  obtain pos where pos: "str_find (queryBuf x) CRLF b = Some pos"
    "with_obj (\<lambda>x'. res_bind (addArgv (substr (queryBuf x) b (pos - b)) x') (trimQueryBuf (pos + 2))) c s = Ret t"
    using assms by (auto simp: bulk_payload_def res_bind_eq_Ret Let_def split: option.splits if_splits)
  obtain y where y: "res_bind (addArgv (substr (queryBuf x) b (pos - b)) x) (trimQueryBuf (pos + 2)) = Ret y"
    "obj t c = Ret y"
    using with_obj_obj [OF pos(2) assms(3)] by blast
  then obtain x1 where x1: "addArgv (substr (queryBuf x) b (pos - b)) x = Ret x1" "trimQueryBuf (pos + 2) x1 = Ret y"
    by (auto simp: res_bind_eq_Ret)
  have "queryBuf y = drop (pos + 2) (queryBuf x)" "multiBulkLen y = multiBulkLen x" "pos + 2 \<le> length (queryBuf x)"
    using trim_length [OF x1(2)] addArgv_input [OF x1(1)] by auto
  then show ?thesis using y(2) by auto
qed

lemma analyseBulk_shrinks:
  assumes "analyseBulk c s = Ret (t, r)" and "r \<noteq> -1" and "obj s c = Ret x"
  shows "\<exists>y. obj t c = Ret y \<and> length (queryBuf y) < length (queryBuf x) \<and> multiBulkLen y = multiBulkLen x"
proof -
  obtain ch q where q: "queryBuf x = ch # q"
    using assms by (cases "queryBuf x") (auto simp: analyseBulk_def Let_def res_bind_eq_Ret)
  have ch: "ch = CHR ''$''"
    using assms q by (auto simp: analyseBulk_def Let_def res_bind_eq_Ret split: if_splits)
  obtain pos where pos: "str_find (queryBuf x) CRLF 1 = Some pos"
    using assms q ch by (auto simp: analyseBulk_def Let_def res_bind_eq_Ret split: option.splits)
  obtain r1 n where n: "string2int64 (substr (queryBuf x) 1 (pos - 1)) 0 = (r1, n)" by force
  obtain u where u: "(if r1 = -1 \<or> n < 0 \<or> n > PROTO_REQ_BULK_MAX_LEN
      then protocol_error ''Protocol error: invalid bulk length'' pos c s else Ret s) = Ret u"
    "bulk_payload n (pos + 2) c u = Ret (t, r)"
    using assms(1,3) q ch pos n by (auto simp: analyseBulk_def Let_def res_bind_eq_Ret)
  have "\<exists>y. obj u c = Ret y \<and> length (queryBuf y) \<le> length (queryBuf x) \<and> multiBulkLen y = multiBulkLen x"
    using u(1) assms(3) by (auto split: if_splits dest!: protocol_error_obj)
  then show ?thesis using bulk_payload_shrinks [OF u(2) assms(2)] by fastforce
qed

lemma analyse_bulks_shrinks:
  "analyse_bulks junk n c s = Ret (t, r) \<Longrightarrow> r \<noteq> -1 \<Longrightarrow> obj s c = Ret x \<Longrightarrow>
    \<exists>y. obj t c = Ret y \<and> length (queryBuf y) \<le> length (queryBuf x)"
proof (induction n arbitrary: s x)
  case (Suc n)
  obtain u r1 where u: "analyseBulk c s = Ret (u, r1)"
    "(if r1 = -1 then Ret (u, -1) else analyse_bulks junk n c u) = Ret (t, r)"
    using Suc.prems(1) by (auto simp: res_bind_eq_Ret)
  then have "r1 \<noteq> -1" "analyse_bulks junk n c u = Ret (t, r)" using Suc.prems(2) by (auto split: if_splits)
  then show ?case using analyseBulk_shrinks [OF u(1) _ Suc.prems(3)] Suc.IH [OF _ Suc.prems(2)] by fastforce
qed simp

lemma analyseLen_shrinks:
  assumes "analyseMultiBulkLen c s = Ret (t, r)" and "r \<noteq> -1" and "obj s c = Ret x"
  shows "\<exists>y. obj t c = Ret y \<and> length (queryBuf y) < length (queryBuf x)"
proof -
  obtain pos where pos: "str_find (queryBuf x) CRLF 0 = Some pos"
    using assms by (auto simp: analyseMultiBulkLen_def Let_def res_bind_eq_Ret split: option.splits)
  define w where "w = substr (queryBuf x) 1 (if pos = 0 then length (queryBuf x) else pos - 1)"
  obtain r1 n where n: "string2int64 w 0 = (r1, n)" by force
  have "\<not> (r1 = -1 \<or> n > PROTO_REQ_MULTIBULK_MAX_LEN)"
    using assms pos n by (auto simp: analyseMultiBulkLen_def Let_def w_def res_bind_eq_Ret)
  then consider "with_obj (trimQueryBuf (pos + 2)) c s = Ret t"
    | "with_obj (\<lambda>x. trimQueryBuf (pos + 2) (allocArgv (nat n) (x\<lparr>multiBulkLen := n\<rparr>))) c s = Ret t"
    using assms(1,3) pos n
    by (auto simp: analyseMultiBulkLen_def Let_def w_def res_bind_eq_Ret split: if_splits)
  then show ?thesis
  proof cases
    case 1
    from with_obj_obj [OF this assms(3)] show ?thesis by (auto dest!: trim_length)
  next
    case 2
    from with_obj_obj [OF this assms(3)] show ?thesis by (auto dest!: trim_length)
  qed
qed

lemma inline_shrinks:
  assumes "processInlineBuffer c s = Ret (t, r)" and "r \<noteq> -1" and "obj s c = Ret x"
  shows "\<exists>y. obj t c = Ret y \<and> work y < work x"
proof -
  obtain pos ws where pos: "str_find (queryBuf x) CRLF 0 = Some pos"
    "with_obj (\<lambda>x. res_bind (addArgvs ws (allocArgv (length ws) x)) (trimQueryBuf (pos + 2))) c s = Ret t"
    using assms by (auto simp: processInlineBuffer_def Let_def res_bind_eq_Ret split: option.splits if_splits)
  obtain y where y: "res_bind (addArgvs ws (allocArgv (length ws) x)) (trimQueryBuf (pos + 2)) = Ret y" "obj t c = Ret y"
    using with_obj_obj [OF pos(2) assms(3)] by blast
  then obtain x1 where "addArgvs ws (allocArgv (length ws) x) = Ret x1" "trimQueryBuf (pos + 2) x1 = Ret y"
    by (auto simp: res_bind_eq_Ret)
  then have "queryBuf y = drop (pos + 2) (queryBuf x)" "pos + 2 \<le> length (queryBuf x)" "multiBulkLen y = multiBulkLen x"
    by (auto dest!: trim_length addArgvs_input)
  then show ?thesis using y(2) by (auto simp: work_def)
qed

lemma multibulk_shrinks:
  assumes "processMultiBulkBuffer junk c s = Ret (t, r)" and "r \<noteq> -1" and "obj s c = Ret x" and "queryBuf x \<noteq> []"
  shows "\<exists>y. obj t c = Ret y \<and> work y < work x"
proof -
  define s0 where "s0 = upd_obj c (\<lambda>x. x\<lparr>reqType := PROTO_REQ_MULTIBULK\<rparr>) s"
  have o0: "obj s0 c = Ret (x\<lparr>reqType := PROTO_REQ_MULTIBULK\<rparr>)" using assms(3) by (simp add: s0_def obj_upd)
  obtain u r1 where u: "(if multiBulkLen x = 0 then analyseMultiBulkLen c s0 else Ret (s0, 1)) = Ret (u, r1)"
    "(if r1 = -1 then Ret (u, -1) else res_bind (analyseMultiBulk junk c u) (\<lambda>(s, r).
       if r = -1 then Ret (s, -1) else Ret (upd_obj c (\<lambda>x. x\<lparr>multiBulkLen := 0, reqType := 0\<rparr>) s, 1))) = Ret (t, r)"
    using assms(1) o0 by (auto simp: processMultiBulkBuffer_def s0_def [symmetric] Let_def res_bind_eq_Ret)
  have r1: "r1 \<noteq> -1" using u(2) assms(2) by (auto split: if_splits)
  have "\<exists>z. obj u c = Ret z \<and> 2 * length (queryBuf z) < work x"
  proof (cases "multiBulkLen x = 0")
    case True
    then show ?thesis using u(1) analyseLen_shrinks [OF _ r1 o0, of u] by (auto simp: work_def)
  next
    case False
    then show ?thesis using u(1) o0 by (auto simp: work_def)
  qed
  then obtain z where z: "obj u c = Ret z" "2 * length (queryBuf z) < work x" by blast
  obtain v r2 where v: "analyseMultiBulk junk c u = Ret (v, r2)" "r2 \<noteq> -1"
    "t = upd_obj c (\<lambda>x. x\<lparr>multiBulkLen := 0, reqType := 0\<rparr>) v"
    using u(2) r1 assms(2) by (auto simp: res_bind_eq_Ret split: if_splits)
  obtain y where "obj v c = Ret y" "length (queryBuf y) \<le> length (queryBuf z)"
    using v(1) z(1) analyse_bulks_shrinks [OF _ v(2) z(1), of junk _ v]
    by (auto simp: analyseMultiBulk_def)
  then show ?thesis using v(3) z(2) by (auto simp: obj_upd work_def)
qed

lemma input_round_shrinks:
  assumes "input_round junk c s = Ret (t, r)" and "r \<noteq> -1" and "obj s c = Ret x" and "queryBuf x \<noteq> []"
  shows "\<exists>y. obj t c = Ret y \<and> work y < work x"
  using assms inline_shrinks multibulk_shrinks [OF _ assms(2,3,4)]
  by (auto simp: input_round_def split: if_splits)

section \<open>The loop\<close>

text \<open>The loop of \<open>processInputBuffer\<close>: -1 when a round returned -1, else 1.\<close>

function input_loop :: "int \<Rightarrow> cid \<Rightarrow> server \<Rightarrow> (server \<times> int) res" where
  "input_loop junk c s =
     (case obj s c of
        Fault e \<Rightarrow> Fault e
      | Ret x \<Rightarrow>
          if queryBuf x = [] then Ret (s, 1)
          else (case input_round junk c s of
                  Fault e \<Rightarrow> Fault e
                | Ret (t, r) \<Rightarrow> if r = -1 then Ret (t, -1) else input_loop junk c t))"
  by auto
termination
proof (relation "measure (\<lambda>(junk, c, s). case obj s c of Fault e \<Rightarrow> 0 | Ret x \<Rightarrow> Suc (work x))", goal_cases)
  case (2 junk c s x tr t r)
  then show ?case using input_round_shrinks [of junk c s t r x] by auto
qed simp

declare input_loop.simps [simp del]

end
