(* ===== verification/PubSub.thy ===== *)
theory PubSub imports Parser begin

text \<open>
  The shared reply objects (src/src/shared/SharedObjects.cpp) and the publish/subscribe handler
  (src/src/pubsub/PubSubHandler.cpp). \<open>chans\<close> maps a channel to its subscribers in order; \<open>pats\<close> is the list
  of patterns, each with its client and the number of the client's argument array that the pattern is
  a reference into.
\<close>

section \<open>Shared objects\<close>

definition OBJ_SHARED_BULKHDR_LEN :: nat where "OBJ_SHARED_BULKHDR_LEN = 32"
definition PROTO_SHARED_SELECT_CMDS :: nat where "PROTO_SHARED_SELECT_CMDS = 10"

text \<open>The vector is resized to 32 null pointers before the 32 headers are pushed.\<close>

definition mbulkHeaders :: "string option list" where
  "mbulkHeaders =
     replicate OBJ_SHARED_BULKHDR_LEN None @
     map (\<lambda>i. Some (CHR ''*'' # nat_dec i @ CRLF)) [0..<OBJ_SHARED_BULKHDR_LEN]"

definition getMbulkHeader :: "int \<Rightarrow> string option" where
  "getMbulkHeader num =
     (if num \<ge> int (length mbulkHeaders) \<or> num < 0 then None else mbulkHeaders ! nat num)"

definition shared_pong :: string where "shared_pong = ''+pong'' @ CRLF"
definition shared_subscribebulk :: string where "shared_subscribebulk = ''$9'' @ CRLF @ ''subscribe'' @ CRLF"
definition shared_unsubscribebulk :: string where
  "shared_unsubscribebulk = ''$11'' @ CRLF @ ''unsubscribe'' @ CRLF"

definition shared_ping :: string where "shared_ping = ''ping''"
definition shared_ok :: string where "shared_ok = ''+ok'' @ CRLF"
definition shared_messagebulk :: string where "shared_messagebulk = ''$7'' @ CRLF @ ''message'' @ CRLF"
definition shared_pmessagebulk :: string where "shared_pmessagebulk = ''$8'' @ CRLF @ ''pmessage'' @ CRLF"
definition shared_psubscribebulk :: string where
  "shared_psubscribebulk = ''$10'' @ CRLF @ ''psubscribe'' @ CRLF"
definition shared_punsubscribebulk :: string where
  "shared_punsubscribebulk = ''$12'' @ CRLF @ ''punsubscribe'' @ CRLF"

definition shared_select :: "string list" where
  "shared_select = map (\<lambda>i. let d = nat_dec i in
     ''*2'' @ CRLF @ ''$6'' @ CRLF @ ''SELECT'' @ CRLF @ ''$'' @ nat_dec (length d) @ CRLF @ d @ CRLF)
     [0..<PROTO_SHARED_SELECT_CMDS]"

definition getSelect :: "int \<Rightarrow> string option" where
  "getSelect num =
     (if num \<ge> int (length shared_select) \<or> num < 0 then None else Some (shared_select ! nat num))"

definition getNullReply :: string where "getNullReply = ''$-1'' @ CRLF"

section \<open>Messages to subscribers\<close>

definition addReplyPubsubMessage :: "cid \<Rightarrow> string \<Rightarrow> string \<Rightarrow> server \<Rightarrow> server res" where
  "addReplyPubsubMessage c channel message s =
     res_bind (addReplyFlyStringObj (getMbulkHeader 3) c s) (\<lambda>s.
     res_bind (addReplyBulkString channel c s) (addReplyBulkString message c))"

definition addReplyPubsubPatternMessage :: "cid \<Rightarrow> string \<Rightarrow> string \<Rightarrow> string \<Rightarrow> server \<Rightarrow> server res" where
  "addReplyPubsubPatternMessage c pattern channel message s =
     res_bind (addReplyFlyStringObj (getMbulkHeader 4) c s) (\<lambda>s.
     res_bind (addReplyBulkString pattern c s) (\<lambda>s.
     res_bind (addReplyBulkString channel c s) (addReplyBulkString message c)))"

definition notify_subscription :: "string \<Rightarrow> cid \<Rightarrow> string \<Rightarrow> server \<Rightarrow> server res" where
  "notify_subscription kind c channel s =
     res_bind (addReplyFlyStringObj (getMbulkHeader 3) c s) (\<lambda>s.
     res_bind (addReplyFlyStringObj (Some kind) c s) (\<lambda>s.
     res_bind (addReplyBulkString channel c s) (\<lambda>s.
     res_bind (obj s c) (\<lambda>x. addReplyLongLong (int (getSubscriptionsCount x)) c s))))"

definition addReplyPubsubSubscribed :: "cid \<Rightarrow> string \<Rightarrow> server \<Rightarrow> server res" where
  "addReplyPubsubSubscribed c channel s = notify_subscription shared_subscribebulk c channel s"

definition addReplyPubsubUnsubscribed :: "cid \<Rightarrow> string \<Rightarrow> server \<Rightarrow> server res" where
  "addReplyPubsubUnsubscribed c channel s = notify_subscription shared_unsubscribebulk c channel s"

fun send_to_all :: "string \<Rightarrow> string \<Rightarrow> cid list \<Rightarrow> server \<Rightarrow> server res" where
  "send_to_all channel message [] s = Ret s"
| "send_to_all channel message (c # cs) s =
     res_bind (addReplyPubsubMessage c channel message s) (send_to_all channel message cs)"

text \<open>The text of a pattern is read through the reference.\<close>

definition pattern_text :: "server \<Rightarrow> string \<times> cid \<times> nat \<Rightarrow> string res" where
  "pattern_text s p =
     (case p of (text, c, gen) \<Rightarrow>
        res_bind (obj s c) (\<lambda>x. if argvGen x = gen then Ret text else Fault UseAfterFree))"

fun send_to_patterns ::
  "string \<Rightarrow> string \<Rightarrow> (string \<times> cid \<times> nat) list \<Rightarrow> nat \<Rightarrow> server \<Rightarrow> (server \<times> nat) res" where
  "send_to_patterns channel message [] n s = Ret (s, n)"
| "send_to_patterns channel message (p # ps) n s =
     res_bind (pattern_text s p) (\<lambda>text.
       if stringmatch text channel False
       then res_bind (addReplyPubsubMessage (fst (snd p)) channel message s) (send_to_patterns channel message ps (Suc n))
       else send_to_patterns channel message ps n s)"

definition publishMessage :: "string \<Rightarrow> string \<Rightarrow> server \<Rightarrow> (server \<times> nat) res" where
  "publishMessage channel message s =
     (let cs = (case map_of (chans s) channel of None \<Rightarrow> [] | Some cs \<Rightarrow> cs) in
      res_bind (send_to_all channel message cs s) (send_to_patterns channel message (pats s) (length cs)))"

text \<open>Patterns as \<open>publishMessage\<close> holds them, by pointer.\<close>

definition listMatchPubsubPattern :: "(string \<times> cid) option \<Rightarrow> (string \<times> cid) option \<Rightarrow> bool" where
  "listMatchPubsubPattern pa pb =
     (case (pa, pb) of
        (None, None) \<Rightarrow> True
      | (Some (p, c), Some (q, d)) \<Rightarrow> c = d \<and> p = q
      | _ \<Rightarrow> False)"

section \<open>Channels\<close>

definition subscribeChannel :: "cid \<Rightarrow> string \<Rightarrow> server \<Rightarrow> (server \<times> int) res" where
  "subscribeChannel c channel s =
     res_bind (obj s c) (\<lambda>x.
       let (x, added) = addChannel channel x;
           cs = (case map_of (chans s) channel of None \<Rightarrow> [] | Some cs \<Rightarrow> cs);
           s = (if added then (upd_obj c (\<lambda>_. x) s)\<lparr>chans := omap_put channel (cs @ [c]) (chans s)\<rparr> else s)
       in res_bind (addReplyPubsubSubscribed c channel s) (\<lambda>s. Ret (s, if added then 1 else 0)))"

text \<open>After an erase the loop goes on from the erased node.\<close>

definition unsubscribeChannel :: "cid \<Rightarrow> string \<Rightarrow> bool \<Rightarrow> server \<Rightarrow> (server \<times> int) res" where
  "unsubscribeChannel c channel notify s =
     res_bind (obj s c) (\<lambda>x.
       let (x, deleted) = delChannel channel x;
           cs = (case map_of (chans s) channel of None \<Rightarrow> [] | Some cs \<Rightarrow> cs);
           s = upd_obj c (\<lambda>_. x) s
       in if deleted \<and> c \<in> set cs then Fault UseAfterFree
          else res_bind (if notify then addReplyPubsubUnsubscribed c channel s else Ret s) (\<lambda>s.
                 Ret (s, if deleted then 1 else 0)))"

text \<open>The loop runs over the client's own channels, from which its body erases.\<close>

definition unsubscribeAllChannels :: "cid \<Rightarrow> bool \<Rightarrow> server \<Rightarrow> (server \<times> int) res" where
  "unsubscribeAllChannels c notify s =
     res_bind (obj s c) (\<lambda>x.
       case fc_channels x of
         ch # chs \<Rightarrow> res_bind (unsubscribeChannel c ch notify s) (\<lambda>_. Fault UseAfterFree)
       | [] \<Rightarrow> res_bind (if notify then addReplyPubsubUnsubscribed c getNullReply s else Ret s) (\<lambda>s. Ret (s, 0)))"

section \<open>Patterns\<close>

definition subscribePattern :: "cid \<Rightarrow> string \<Rightarrow> server \<Rightarrow> (server \<times> int) res" where
  "subscribePattern c p s =
     res_bind (obj s c) (\<lambda>x.
       let new = (p \<notin> set (fc_patterns x));
           s = (if new then (upd_obj c (addPattern p) s)\<lparr>pats := pats s @ [(p, c, argvGen x)]\<rparr> else s)
       in res_bind (addReplyPubsubSubscribed c p s) (\<lambda>s. Ret (s, if new then 1 else 0)))"

text \<open>The entry that goes is the first one of the client whose text differs.\<close>

fun drop_pattern ::
  "server \<Rightarrow> cid \<Rightarrow> string \<Rightarrow> (string \<times> cid \<times> nat) list \<Rightarrow> (string \<times> cid \<times> nat) list res" where
  "drop_pattern s c p [] = Ret []"
| "drop_pattern s c p (q # qs) =
     res_bind (pattern_text s q) (\<lambda>text.
       if text \<noteq> p \<and> fst (snd q) = c then Ret qs
       else res_bind (drop_pattern s c p qs) (\<lambda>qs. Ret (q # qs)))"

definition unsubscribePattern :: "cid \<Rightarrow> string \<Rightarrow> bool \<Rightarrow> server \<Rightarrow> (server \<times> int) res" where
  "unsubscribePattern c p notify s =
     res_bind (obj s c) (\<lambda>x.
       res_bind (if p \<in> set (fc_patterns x)
                 then let s = upd_obj c (\<lambda>x. fst (delPattern p x)) s in
                   res_bind (drop_pattern s c p (pats s)) (\<lambda>ps. Ret (s\<lparr>pats := ps\<rparr>))
                 else Ret s) (\<lambda>s.
       res_bind (if notify then addReplyPubsubUnsubscribed c p s else Ret s) (\<lambda>s.
         Ret (s, if p \<in> set (fc_patterns x) then 1 else 0))))"

text \<open>No value is returned; none is used.\<close>

definition unsubscribeAllPatterns :: "cid \<Rightarrow> bool \<Rightarrow> server \<Rightarrow> server res" where
  "unsubscribeAllPatterns c notify s =
     res_bind (obj s c) (\<lambda>x.
       case fc_patterns x of
         p # ps \<Rightarrow> res_bind (unsubscribePattern c p notify s) (\<lambda>_. Fault UseAfterFree)
       | [] \<Rightarrow> if notify then addReplyPubsubUnsubscribed c getNullReply s else Ret s)"

section \<open>No one can subscribe\<close>

lemma header_null: "0 \<le> n \<Longrightarrow> n < 32 \<Longrightarrow> getMbulkHeader n = None"
  by (auto simp: getMbulkHeader_def mbulkHeaders_def OBJ_SHARED_BULKHDR_LEN_def nth_append)

lemma header_shifted: "i < 32 \<Longrightarrow> getMbulkHeader (32 + int i) = Some (CHR ''*'' # nat_dec i @ CRLF)"
  by (simp add: getMbulkHeader_def mbulkHeaders_def OBJ_SHARED_BULKHDR_LEN_def nth_append nat_add_distrib)

lemma notify_faults: "notify_subscription kind c channel s = Fault NullDeref"
  by (simp add: notify_subscription_def header_null addReplyFlyStringObj_def)

lemma message_faults: "addReplyPubsubMessage c channel message s = Fault NullDeref"
  by (simp add: addReplyPubsubMessage_def header_null addReplyFlyStringObj_def)

lemma subscribe_faults:
  "\<not> is_ret (subscribeChannel c ch s)" "\<not> is_ret (subscribePattern c p s)"
  "\<not> is_ret (unsubscribeChannel c ch True s)" "\<not> is_ret (unsubscribePattern c p True s)"
  by (auto simp: is_ret_iff subscribeChannel_def subscribePattern_def unsubscribeChannel_def unsubscribePattern_def
      addReplyPubsubSubscribed_def addReplyPubsubUnsubscribed_def notify_faults res_bind_eq_Ret Let_def
      split: prod.splits if_splits)

lemma publish_no_subscriber: "chans s = [] \<Longrightarrow> pats s = [] \<Longrightarrow> publishMessage ch msg s = Ret (s, 0)"
  by (simp add: publishMessage_def)

lemma publish_subscriber:
  "map_of (chans s) ch = Some (c # cs) \<Longrightarrow> publishMessage ch msg s = Fault NullDeref"
  by (simp add: publishMessage_def message_faults)

end
