(* ===== verification/Commands.thy ===== *)
theory Commands imports PubSub begin

text \<open>
  The command handlers (src/src/commandtable/CommandEntry.cpp), the dispatch of a parsed command
  (CommandTable.cpp), the read handler of a client (FlyClient.cpp), the cron
  (src/src/flysentinel/FlySentinel.cpp) and the setup of the event loop
  (src/src/coordinator/Coordinator.cpp).
\<close>

section \<open>Handlers\<close>

text \<open>
  An operation of the sentinel part: the messages it publishes go to the subscribers, in order.
\<close>

fun deliver :: "(string \<times> string) list \<Rightarrow> server \<Rightarrow> server res" where
  "deliver [] s = Ret s"
| "deliver ((t, m) # ms) s = res_bind (publishMessage t m s) (\<lambda>(s, n). deliver ms s)"

definition on_sentinel :: "(sentinel \<Rightarrow> sentinel res) \<Rightarrow> server \<Rightarrow> server res" where
  "on_sentinel f s =
     res_bind (f (sn s)) (\<lambda>sn'. deliver (drop (length (published (sn s))) (published sn')) (s\<lparr>sn := sn'\<rparr>))"

definition pingCommand :: "cid \<Rightarrow> server \<Rightarrow> server res" where
  "pingCommand c s = addReply shared_pong c s"

text \<open>The loops over the arguments begin with the command itself.\<close>

fun each_arg :: "(string \<Rightarrow> server \<Rightarrow> (server \<times> int) res) \<Rightarrow> string list \<Rightarrow> server \<Rightarrow> server res" where
  "each_arg f [] s = Ret s"
| "each_arg f (a # as) s = res_bind (f a s) (\<lambda>(s, r). each_arg f as s)"

definition subscribeCommand :: "cid \<Rightarrow> server \<Rightarrow> server res" where
  "subscribeCommand c s =
     res_bind (obj s c) (\<lambda>x.
     res_bind (each_arg (subscribeChannel c) (argv x) s) (\<lambda>s.
       Ret (upd_obj c (fc_addFlag CLIENT_PUBSUB) s)))"

definition leave_pubsub :: "cid \<Rightarrow> server \<Rightarrow> server res" where
  "leave_pubsub c s =
     res_bind (obj s c) (\<lambda>x.
       Ret (if getSubscriptionsCount x = 0 then upd_obj c (fc_delFlag CLIENT_PUBSUB) s else s))"

definition unsubscribeCommand :: "cid \<Rightarrow> server \<Rightarrow> server res" where
  "unsubscribeCommand c s =
     res_bind (obj s c) (\<lambda>x.
     res_bind (if length (argv x) = 1 then res_bind (unsubscribeAllChannels c True s) (\<lambda>(s, n). Ret s)
               else each_arg (\<lambda>a. unsubscribeChannel c a True) (argv x) s)
       (leave_pubsub c))"

definition psubscribeCommand :: "cid \<Rightarrow> server \<Rightarrow> server res" where
  "psubscribeCommand c s =
     res_bind (obj s c) (\<lambda>x.
     res_bind (each_arg (subscribePattern c) (argv x) s) (\<lambda>s.
       Ret (upd_obj c (fc_addFlag CLIENT_PUBSUB) s)))"

definition punsubscribeCommand :: "cid \<Rightarrow> server \<Rightarrow> server res" where
  "punsubscribeCommand c s =
     res_bind (obj s c) (\<lambda>x.
     res_bind (if length (argv x) = 1 then unsubscribeAllPatterns c True s
               else each_arg (\<lambda>a. unsubscribePattern c a True) (argv x) s)
       (leave_pubsub c))"

definition SENTINEL_HELLO_CHANNEL :: string where "SENTINEL_HELLO_CHANNEL = ''__sentinel__:hello''"

text \<open>\<open>raw\<close> and \<open>now\<close>: uninitialised memory for a new instance, and the clock.\<close>

definition publishCommand :: "fly_instance \<Rightarrow> 64 word \<Rightarrow> cid \<Rightarrow> server \<Rightarrow> server res" where
  "publishCommand raw now c s =
     res_bind (obj s c) (\<lambda>x.
       if argv x ! 1 \<noteq> SENTINEL_HELLO_CHANNEL
       then addReplyError ''Only HELLO messages are accepted by Sentinel instances.'' c s
       else res_bind (on_sentinel (processHelloMessage raw now (argv x ! 2)) s) (addReplyLongLong 1 c))"

fun each_master :: "cid \<Rightarrow> (string \<times> iid) list \<Rightarrow> server \<Rightarrow> server res" where
  "each_master c [] s = Ret s"
| "each_master c ((name, i) # ms) s = res_bind (addReplyBulkString name c s) (each_master c ms)"

definition sentinelRoleCommand :: "cid \<Rightarrow> server \<Rightarrow> server res" where
  "sentinelRoleCommand c s =
     res_bind (addReplyArrayLen 2 c s) (\<lambda>s.
     res_bind (addReplyBulkBuffer ''sentinel'' c s) (\<lambda>s. each_master c (masters (sn s)) s))"

text \<open>The state of instances as replies.\<close>

fun reply_items :: "reply_item list \<Rightarrow> cid \<Rightarrow> server \<Rightarrow> server res" where
  "reply_items [] c s = Ret s"
| "reply_items (i # is) c s =
     res_bind (case i of BulkString str \<Rightarrow> addReplyBulkString str c s
               | LongLong n \<Rightarrow> addReplyLongLong n c s
               | BulkLongLong n \<Rightarrow> addReplyBulkLongLong (of_int n) c s) (reply_items is c)"

fun addReplyRedisInstances :: "cid \<Rightarrow> (string \<times> iid) list \<Rightarrow> server \<Rightarrow> server res" where
  "addReplyRedisInstances c [] s = Ret s"
| "addReplyRedisInstances c ((name, i) # ms) s =
     res_bind (addReplySentinelRedisInstance (sn s) i) (\<lambda>items.
     res_bind (reply_items items c s) (addReplyRedisInstances c ms))"

definition getMasterByNameOrReplyError :: "cid \<Rightarrow> string \<Rightarrow> server \<Rightarrow> (server \<times> iid option) res" where
  "getMasterByNameOrReplyError c str s =
     (case map_of (masters (sn s)) str of
        Some i \<Rightarrow> Ret (s, Some i)
      | None \<Rightarrow> res_bind (addReplyError ''No such master with that name!'' c s) (\<lambda>s. Ret (s, None)))"

definition run_command :: "fly_instance \<Rightarrow> 64 word \<Rightarrow> command_proc \<Rightarrow> cid \<Rightarrow> server \<Rightarrow> server res" where
  "run_command raw now p c s =
     (case p of
        PingCommand \<Rightarrow> pingCommand c s
      | SubscribeCommand \<Rightarrow> subscribeCommand c s
      | UnsubscribeCommand \<Rightarrow> unsubscribeCommand c s
      | PsubscribeCommand \<Rightarrow> psubscribeCommand c s
      | PunsubscribeCommand \<Rightarrow> punsubscribeCommand c s
      | PublishCommand \<Rightarrow> publishCommand raw now c s
      | RoleCommand \<Rightarrow> sentinelRoleCommand c s)"

section \<open>Dispatch\<close>

definition argv0 :: "fly_client \<Rightarrow> string res" where
  "argv0 x =
     (case (argvCap x, argv x) of
        (None, _) \<Rightarrow> Fault NullDeref
      | (Some n, a # as) \<Rightarrow> Ret a
      | (Some n, []) \<Rightarrow> Fault (if n = 0 then OutOfBounds else NullDeref))"

text \<open>
  For an unknown command the reply format asks for a C string and is passed a pointer to a
  std::string.
\<close>

definition dealWithCommand :: "(string \<Rightarrow> nat) \<Rightarrow> fly_instance \<Rightarrow> 64 word \<Rightarrow> cid \<Rightarrow> server \<Rightarrow> server res" where
  "dealWithCommand hash raw now c s =
     res_bind (obj s c) (\<lambda>x.
     res_bind (argv0 x) (\<lambda>command.
     res_bind (findEntry hash (commands s) command) (\<lambda>(d, entry).
       let s = s\<lparr>commands := d\<rparr> in
       case entry of
         None \<Rightarrow> Fault BadFormat
       | Some e \<Rightarrow>
           if int (length (argv x)) < ce_arity e
           then addReplyRaw (take 1023 (''too few parameters: '' @ int_dec (int (length (argv x))) @ '', need: '' @
                  int_dec (ce_arity e) @ '' '')) c s
           else run_command raw now (ce_proc e) c s)))"

definition serverDealWithCommand ::
  "(string \<Rightarrow> nat) \<Rightarrow> fly_instance \<Rightarrow> 64 word \<Rightarrow> int \<Rightarrow> server \<Rightarrow> server res" where
  "serverDealWithCommand hash raw now fd s =
     (case getFlyClient fd s of None \<Rightarrow> Ret s | Some c \<Rightarrow> dealWithCommand hash raw now c s)"

section \<open>Reading from a client\<close>

definition processInputBuffer ::
  "int \<Rightarrow> (string \<Rightarrow> nat) \<Rightarrow> fly_instance \<Rightarrow> 64 word \<Rightarrow> cid \<Rightarrow> server \<Rightarrow> server res" where
  "processInputBuffer junk hash raw now c s =
     res_bind (input_loop junk c s) (\<lambda>(s, r).
       if r = -1 then Ret s
       else res_bind (obj s c) (\<lambda>x. serverDealWithCommand hash raw now (fc_fd x) s))"

text \<open>What read returns: an error with or without EAGAIN, the end, or bytes.\<close>

datatype read_result = ReadError bool | ReadEof | ReadBytes string

definition free_and_close :: "int \<Rightarrow> server \<Rightarrow> server res" where
  "free_and_close fd s =
     (case getFlyClient fd s of
        None \<Rightarrow> Fault NullDeref
      | Some c \<Rightarrow> res_bind (freeClient c s) (\<lambda>s. Ret (close_fd fd s)))"

text \<open>
  The bytes read stay in a local buffer, which ends in a NUL unless it is full; its length goes to the
  statistics, the query buffer is processed as it is.
\<close>

definition readQueryFromClient ::
  "int \<Rightarrow> (string \<Rightarrow> nat) \<Rightarrow> fly_instance \<Rightarrow> 64 word \<Rightarrow> read_result \<Rightarrow> int \<Rightarrow> server \<Rightarrow> server res" where
  "readQueryFromClient junk hash raw now rd fd s =
     (case rd of
        ReadError again \<Rightarrow> if again then Ret s else free_and_close fd s
      | ReadEof \<Rightarrow> free_and_close fd s
      | ReadBytes bs \<Rightarrow>
          (case getFlyClient fd s of
             None \<Rightarrow> Fault NullDeref
           | Some c \<Rightarrow>
               let s = upd_obj c (\<lambda>x. x\<lparr>lastInteractionTime := sv_nowt s\<rparr>) s in
               if length bs \<ge> PROTO_IOBUF_LEN \<and> NUL \<notin> set bs then Fault OutOfBounds
               else
                 let s = addToStatNetInputBytes (length (c_str bs)) s in
                 res_bind (obj s c) (\<lambda>x.
                   if length (queryBuf x) > unat (clientMaxQuerybufLen s) then free_and_close fd s
                   else processInputBuffer junk hash raw now c s)))"

section \<open>The file procs\<close>

text \<open>
  What the world answers while one round of the event loop runs: the value read where
  \<open>analyseMultiBulk\<close> returns none, the hash function, uninitialised memory, the clock, and by
  descriptor what read, accept and write return and whether errno is EAGAIN after the writes.
\<close>

record world =
  w_junk :: int
  w_hash :: "string \<Rightarrow> nat"
  w_raw :: fly_instance
  w_now :: "64 word"
  w_read :: "int \<Rightarrow> read_result"
  w_accept :: "int \<Rightarrow> int list"
  w_write :: "int \<Rightarrow> nat \<Rightarrow> string \<Rightarrow> int"
  w_again :: "int \<Rightarrow> bool"

text \<open>The cron is not a file proc.\<close>

definition client_handler :: "world \<Rightarrow> client_proc \<Rightarrow> int \<Rightarrow> server \<Rightarrow> server res" where
  "client_handler w p fd s =
     (case p of
        ReadQuery \<Rightarrow> readQueryFromClient (w_junk w) (w_hash w) (w_raw w) (w_now w) (w_read w fd) fd s
      | SendReply \<Rightarrow> sendReplyToClient (w_write w fd) (w_again w fd) fd s
      | AcceptTcp \<Rightarrow> acceptTcpHandler (w_accept w fd) s
      | ServerCron \<Rightarrow> Fault BadFormat)"

definition run_client ::
  "world \<Rightarrow> client_proc \<Rightarrow> int \<Rightarrow> nat option \<Rightarrow> flags \<Rightarrow> client_proc event_loop \<times> server \<Rightarrow>
   (client_proc event_loop \<times> server) res" where
  "run_client w p fd d m s =
     res_bind (client_handler w p fd ((snd s)\<lparr>sv_loop := fst s\<rparr>)) (\<lambda>s. Ret (sv_loop s, s))"

section \<open>The cron and the setup\<close>

text \<open>
  \<open>seconds\<close> is the time in seconds; \<open>fork\<close>, \<open>waits\<close> and \<open>rand\<close> are as for \<open>sentinel_timer\<close>. The
  results are the state, the killed pids, and the milliseconds until the next run.
\<close>

definition serverCron ::
  "int \<Rightarrow> 64 word \<Rightarrow> (nat \<Rightarrow> int) \<Rightarrow> (int \<times> nat \<times> nat) list \<Rightarrow> nat \<Rightarrow> server \<Rightarrow> (server \<times> int list \<times> int) res" where
  "serverCron seconds now fork waits rand s =
     res_bind (freeClientsInAsyncFreeList (s\<lparr>sv_nowt := seconds\<rparr>)) (\<lambda>s.
     res_bind (sentinel_timer now fork waits rand (sn s)) (\<lambda>(sn', killed).
     res_bind (deliver (drop (length (published (sn s))) (published sn')) (s\<lparr>sn := sn'\<rparr>)) (\<lambda>s.
       let s = addCronLoops s in Ret (s, killed, cron_delay (sn s)))))"

fun listen_events :: "int list \<Rightarrow> client_proc event_loop \<Rightarrow> client_proc event_loop res" where
  "listen_events [] l = Ret l"
| "listen_events (fd # fds) l =
     res_bind (createFileEvent fd ES_READABLE AcceptTcp None l) (\<lambda>(l, r).
       if r = -1 then Fault ProcessExit else listen_events fds l)"

definition createEvent :: "int list \<Rightarrow> client_proc event_loop \<Rightarrow> client_proc event_loop res" where
  "createEvent ipfd l = listen_events ipfd (createTimeEvent 1 ServerCron None None l)"

end
