(* ===== verification/NetHandler.thy ===== *)
theory NetHandler
  imports MiscTool EventLoop "HOL-Library.State_Monad" "HOL-Library.Multiset"
begin

text \<open>
  The socket layer (src/src/net/NetHandler.cpp). The kernel is a parameter: what a system call answers
  is a function of the calls made so far and of the call itself. The state of the model is the
  history of calls with their answers, errno, and the caller's error buffer. Operations are
  programs of the state monad; the loops that may run for ever (accept interrupted by signals, timed
  reads and writes) are partial functions into option. File descriptors are the ints the code holds.
\<close>

section \<open>System calls and their answers\<close>

record sockaddr =
  sa_family :: int
  sin_addr :: "8 word list"
  sin6_addr :: "8 word list"
  sin_port :: nat
  sun_path :: string

record addrinfo =
  ai_family :: int
  ai_socktype :: int
  ai_protocol :: int
  ai_addr :: sockaddr

datatype sockopt =
    IPV6_V6ONLY | SO_SNDTIMEO | TCP_NODELAY | SO_SNDBUF | SO_KEEPALIVE | SO_REUSEADDR
  | TCP_KEEPIDLE | TCP_KEEPINTVL | TCP_KEEPCNT

datatype syscall =
    Socket int int int
  | Setsockopt int sockopt "int list"
  | Bind int sockaddr
  | Listen int int
  | Connect int sockaddr
  | Accept int
  | Close int
  | FcntlGet int
  | FcntlSet int flags
  | Poll int flags int
  | ReadCall int int
  | WriteCall int string
  | Getaddrinfo "string option" "string option" int int int
  | Freeaddrinfo
  | Chmod string nat
  | Unlink string
  | Getpeername int
  | Getsockname int
  | Gettimeofday

record answer =
  an_ret :: int
  an_errno :: int
  an_infos :: "addrinfo list"
  an_sa :: sockaddr
  an_data :: string
  an_revents :: flags
  an_sec :: "64 word"
  an_usec :: "64 word"

text \<open>
  The environment: the kernel, the C library's texts, whether the code is compiled for Linux, and
  what uninitialised variables and bytes past the end of an object hold.
\<close>

record os =
  kernel :: "(syscall \<times> answer) list \<Rightarrow> syscall \<Rightarrow> answer"
  strerror :: "int \<Rightarrow> string"
  gai_strerror :: "int \<Rightarrow> string"
  ntop6 :: "8 word list \<Rightarrow> string"
  is_linux :: bool
  junk_int :: int
  junk_bytes :: "8 word list"

record net =
  history :: "(syscall \<times> answer) list"
  net_errno :: int
  errbuf :: "string option"

definition EINTR :: int where "EINTR = 4"
definition EAGAIN :: int where "EAGAIN = 11"
definition EINPROGRESS :: int where "EINPROGRESS = 115"
definition AF_UNSPEC :: int where "AF_UNSPEC = 0"
definition AF_UNIX :: int where "AF_UNIX = 1"
definition AF_INET :: int where "AF_INET = 2"
definition AF_INET6 :: int where "AF_INET6 = 10"
definition SOCK_STREAM :: int where "SOCK_STREAM = 1"
definition AI_PASSIVE :: int where "AI_PASSIVE = 1"
definition AI_NUMERICHOST :: int where "AI_NUMERICHOST = 4"
definition O_NONBLOCK :: flags where "O_NONBLOCK = 2048"
definition POLLIN :: flags where "POLLIN = 1"
definition POLLOUT :: flags where "POLLOUT = 4"

definition NET_NONE :: flags where "NET_NONE = 0"
definition NET_IP_ONLY :: flags where "NET_IP_ONLY = 1"
definition NET_CONNECT_NONE :: flags where "NET_CONNECT_NONE = 0"
definition NET_CONNECT_NONBLOCK :: flags where "NET_CONNECT_NONBLOCK = 1"
definition NET_CONNECT_BE_BINDING :: flags where "NET_CONNECT_BE_BINDING = 2"
definition NET_ERR_LEN :: nat where "NET_ERR_LEN = 256"
definition NET_PEER_ID_LEN :: nat where "NET_PEER_ID_LEN = 78"

definition sys :: "os \<Rightarrow> syscall \<Rightarrow> (net, answer) state" where
  "sys K c = State (\<lambda>s.
     let a = kernel K (history s) c
     in (a, s\<lparr>history := (c, a) # history s, net_errno := an_errno a\<rparr>))"

text \<open>\<open>setError\<close>: nothing for a null buffer, else the formatted text cut at the buffer's size.\<close>

definition setError :: "string \<Rightarrow> (net, unit) state" where
  "setError msg = State (\<lambda>s. ((), s\<lparr>errbuf := map_option (\<lambda>_. take (NET_ERR_LEN - 1) msg) (errbuf s)\<rparr>))"

definition get_errno :: "(net, int) state" where
  "get_errno = State (\<lambda>s. (net_errno s, s))"

definition sys_error :: "os \<Rightarrow> string \<Rightarrow> string \<Rightarrow> (net, int) state" where
  "sys_error K what tail = do {
     e \<leftarrow> get_errno;
     setError (what @ strerror K e @ tail);
     State_Monad.return (-1)
   }"

section \<open>Socket options\<close>

definition setV6Only :: "os \<Rightarrow> int \<Rightarrow> (net, int) state" where
  "setV6Only K fd = do {
     a \<leftarrow> sys K (Setsockopt fd IPV6_V6ONLY [1]);
     if an_ret a = -1 then sys_error K ''setsockopt IPV6_V6ONLY: '' []
     else State_Monad.return 1
   }"

text \<open>The remainder in milliseconds is stored as microseconds.\<close>

definition setSendTimeout :: "os \<Rightarrow> int \<Rightarrow> int \<Rightarrow> (net, int) state" where
  "setSendTimeout K fd ms = do {
     a \<leftarrow> sys K (Setsockopt fd SO_SNDTIMEO [sgn ms * (\<bar>ms\<bar> div 1000), sgn ms * (\<bar>ms\<bar> mod 1000)]);
     if an_ret a = -1 then sys_error K ''setsockopt SO_SNDTIMEO: '' []
     else State_Monad.return 1
   }"

definition setTcpNoDelay :: "os \<Rightarrow> int \<Rightarrow> int \<Rightarrow> (net, int) state" where
  "setTcpNoDelay K fd val = do {
     a \<leftarrow> sys K (Setsockopt fd TCP_NODELAY [val]);
     if an_ret a = -1 then sys_error K ''setsockopt TCP_NODELAY: '' []
     else State_Monad.return 1
   }"

definition disableTcpNoDelay :: "os \<Rightarrow> int \<Rightarrow> (net, int) state" where
  "disableTcpNoDelay K fd = setTcpNoDelay K fd 0"

definition enableTcpNoDelay :: "os \<Rightarrow> int \<Rightarrow> (net, int) state" where
  "enableTcpNoDelay K fd = setTcpNoDelay K fd 1"

definition setSendBuffer :: "os \<Rightarrow> int \<Rightarrow> int \<Rightarrow> (net, int) state" where
  "setSendBuffer K fd buffsize = do {
     a \<leftarrow> sys K (Setsockopt fd SO_SNDBUF [buffsize]);
     if an_ret a = -1 then sys_error K ''setsockopt SO_SNDBUF: '' []
     else State_Monad.return 1
   }"

text \<open>The value passed is an uninitialised int.\<close>

definition setTcpKeepAlive :: "os \<Rightarrow> int \<Rightarrow> (net, int) state" where
  "setTcpKeepAlive K fd = do {
     a \<leftarrow> sys K (Setsockopt fd SO_KEEPALIVE [junk_int K]);
     if an_ret a = -1 then sys_error K ''setsockopt SO_KEEPALIVE: '' []
     else State_Monad.return 1
   }"

definition setReuseAddr :: "os \<Rightarrow> int \<Rightarrow> (net, int) state" where
  "setReuseAddr K fd = do {
     a \<leftarrow> sys K (Setsockopt fd SO_REUSEADDR [1]);
     if an_ret a = -1 then sys_error K ''setsockopt SO_REUSEADDR: '' []
     else State_Monad.return 1
   }"

definition setBlock :: "os \<Rightarrow> int \<Rightarrow> bool \<Rightarrow> (net, int) state" where
  "setBlock K fd block = do {
     g \<leftarrow> sys K (FcntlGet fd);
     if an_ret g = -1 then sys_error K ''fcntl(F_GETFL): '' []
     else do {
       let fl = (word_of_int (an_ret g) :: flags);
       a \<leftarrow> sys K (FcntlSet fd (if block then fl AND NOT O_NONBLOCK else fl OR O_NONBLOCK));
       if an_ret a = -1 then sys_error K ''fcntl(F_SETFL,O_NONBLOCK): '' []
       else State_Monad.return 1
     }
   }"

text \<open>\<open>interval / 3\<close> truncates towards zero.\<close>

definition probe_interval :: "int \<Rightarrow> int" where
  "probe_interval i = (let v = sgn i * (\<bar>i\<bar> div 3) in if v = 0 then 1 else v)"

definition keepAlive :: "os \<Rightarrow> int \<Rightarrow> int \<Rightarrow> (net, int) state" where
  "keepAlive K fd interval = do {
     a \<leftarrow> sys K (Setsockopt fd SO_KEEPALIVE [1]);
     if an_ret a = -1 then sys_error K ''setsockopt SO_KEEPALIVE: '' []
     else if \<not> is_linux K then State_Monad.return 1
     else do {
       b \<leftarrow> sys K (Setsockopt fd TCP_KEEPIDLE [interval]);
       if an_ret b < 0 then sys_error K ''setsockopt TCP_KEEPIDLE: '' [CHR 0x0A]
       else do {
         c \<leftarrow> sys K (Setsockopt fd TCP_KEEPINTVL [probe_interval interval]);
         if an_ret c < 0 then sys_error K ''setsockopt TCP_KEEPINTVL: '' [CHR 0x0A]
         else do {
           d \<leftarrow> sys K (Setsockopt fd TCP_KEEPCNT [3]);
           if an_ret d < 0 then sys_error K ''setsockopt TCP_KEEPCNT: '' [CHR 0x0A]
           else State_Monad.return 1
         }
       }
     }
   }"

section \<open>Creating, connecting and listening\<close>

definition createSocket :: "os \<Rightarrow> int \<Rightarrow> (net, int) state" where
  "createSocket K domain = do {
     a \<leftarrow> sys K (Socket domain SOCK_STREAM 0);
     if an_ret a = -1 then sys_error K ''creating socket: '' []
     else do {
       r \<leftarrow> setReuseAddr K (an_ret a);
       if r = -1 then do { _ \<leftarrow> sys K (Close (an_ret a)); State_Monad.return (-1) }
       else State_Monad.return (an_ret a)
     }
   }"

definition setListen :: "os \<Rightarrow> int \<Rightarrow> sockaddr \<Rightarrow> int \<Rightarrow> (net, int) state" where
  "setListen K s sa backlog = do {
     b \<leftarrow> sys K (Bind s sa);
     if an_ret b = -1 then do {
       _ \<leftarrow> sys_error K ''bind: '' []; _ \<leftarrow> sys K (Close s); State_Monad.return (-1) }
     else do {
       l \<leftarrow> sys K (Listen s backlog);
       if an_ret l = -1 then do {
         _ \<leftarrow> sys_error K ''listen: '' []; _ \<leftarrow> sys K (Close s); State_Monad.return (-1) }
       else State_Monad.return 1
     }
   }"

text \<open>\<open>snprintf\<close> into six bytes keeps five characters of the port.\<close>

definition portstr :: "int \<Rightarrow> string" where
  "portstr port = take 5 (int_dec port)"

primrec bind_any :: "os \<Rightarrow> int \<Rightarrow> addrinfo list \<Rightarrow> (net, bool) state" where
  "bind_any K s [] = State_Monad.return False"
| "bind_any K s (b # bs) = do {
     a \<leftarrow> sys K (Bind s (ai_addr b));
     if an_ret a \<noteq> -1 then State_Monad.return True else bind_any K s bs
   }"

definition bind_source :: "os \<Rightarrow> int \<Rightarrow> string option \<Rightarrow> (net, bool) state" where
  "bind_source K s source_addr =
     (case source_addr of
        None \<Rightarrow> State_Monad.return True
      | Some src \<Rightarrow> do {
          g \<leftarrow> sys K (Getaddrinfo (Some src) None AF_UNSPEC SOCK_STREAM 0);
          if an_ret g \<noteq> 0 then do { setError (gai_strerror K (an_ret g)); State_Monad.return False }
          else do {
            bound \<leftarrow> bind_any K s (an_infos g);
            _ \<leftarrow> sys K Freeaddrinfo;
            if bound then State_Monad.return True
            else do { _ \<leftarrow> sys_error K ''bind: '' []; State_Monad.return False }
          }
        })"

text \<open>The label \<open>error\<close>: the socket is closed and the result is -1.\<close>

definition give_up :: "os \<Rightarrow> int \<Rightarrow> (net, int) state" where
  "give_up K s = do { _ \<leftarrow> sys K (Close s); State_Monad.return (-1) }"

primrec connect_loop :: "os \<Rightarrow> string option \<Rightarrow> flags \<Rightarrow> addrinfo list \<Rightarrow> (net, int) state" where
  "connect_loop K source_addr fl [] = sys_error K ''creating socket: '' []"
| "connect_loop K source_addr fl (p # ps) = do {
     a \<leftarrow> sys K (Socket (ai_family p) (ai_socktype p) (ai_protocol p));
     let s = an_ret a;
     if s = -1 then connect_loop K source_addr fl ps
     else do {
       r \<leftarrow> setReuseAddr K s;
       if r = -1 then give_up K s
       else do {
         n \<leftarrow> (if has_flag fl NET_CONNECT_NONBLOCK then setBlock K s False else State_Monad.return 1);
         if n = -1 then give_up K s
         else do {
           b \<leftarrow> bind_source K s source_addr;
           if \<not> b then give_up K s
           else do {
             c \<leftarrow> sys K (Connect s (ai_addr p));
             if an_ret c \<noteq> -1 then State_Monad.return s
             else if an_errno c = EINPROGRESS \<and> has_flag fl NET_CONNECT_NONBLOCK
             then State_Monad.return s
             else do { _ \<leftarrow> sys K (Close s); connect_loop K source_addr fl ps }
           }
         }
       }
     }
   }"

definition connect_once :: "os \<Rightarrow> string \<Rightarrow> int \<Rightarrow> string option \<Rightarrow> flags \<Rightarrow> (net, int \<times> bool) state" where
  "connect_once K addr port source_addr fl = do {
     g \<leftarrow> sys K (Getaddrinfo (Some addr) (Some (portstr port)) AF_UNSPEC SOCK_STREAM 0);
     if an_ret g \<noteq> 0 then do { setError (gai_strerror K (an_ret g)); State_Monad.return (-1, False) }
     else do {
       s \<leftarrow> connect_loop K source_addr fl (an_infos g);
       _ \<leftarrow> sys K Freeaddrinfo;
       State_Monad.return (s, True)
     }
   }"

text \<open>
  Best effort binding tries once more without the source address; a failing getaddrinfo returns
  before that. The second attempt has no source address, so there is no third.
\<close>

definition tcpGenericConnect :: "os \<Rightarrow> string \<Rightarrow> int \<Rightarrow> string option \<Rightarrow> flags \<Rightarrow> (net, int) state" where
  "tcpGenericConnect K addr port source_addr fl = do {
     (s, resolved) \<leftarrow> connect_once K addr port source_addr fl;
     if resolved \<and> s = -1 \<and> source_addr \<noteq> None \<and> has_flag fl NET_CONNECT_BE_BINDING
     then do { (s', _) \<leftarrow> connect_once K addr port None fl; State_Monad.return s' }
     else State_Monad.return s
   }"

definition tcpConnect :: "os \<Rightarrow> string \<Rightarrow> int \<Rightarrow> (net, int) state" where
  "tcpConnect K addr port = tcpGenericConnect K addr port None NET_CONNECT_NONE"

definition tcpNonBlockConnect :: "os \<Rightarrow> string \<Rightarrow> int \<Rightarrow> (net, int) state" where
  "tcpNonBlockConnect K addr port = tcpGenericConnect K addr port None NET_CONNECT_NONBLOCK"

definition tcpNonBlockBindConnect :: "os \<Rightarrow> string \<Rightarrow> int \<Rightarrow> string option \<Rightarrow> (net, int) state" where
  "tcpNonBlockBindConnect K addr port source_addr =
     tcpGenericConnect K addr port source_addr NET_CONNECT_NONBLOCK"

definition tcpNonBlockBestEffortBindConnect ::
  "os \<Rightarrow> string \<Rightarrow> int \<Rightarrow> string option \<Rightarrow> (net, int) state" where
  "tcpNonBlockBestEffortBindConnect K addr port source_addr =
     tcpGenericConnect K addr port source_addr (NET_CONNECT_NONBLOCK OR NET_CONNECT_BE_BINDING)"

definition dealError :: "os \<Rightarrow> int \<Rightarrow> (net, int) state" where
  "dealError K fd = do {
     (if fd \<noteq> -1 then do { _ \<leftarrow> sys K (Close fd); State_Monad.return () } else State_Monad.return ());
     _ \<leftarrow> sys K Freeaddrinfo;
     State_Monad.return (-1)
   }"

text \<open>A failing \<open>setListen\<close> has closed the socket before \<open>dealError\<close> closes it again.\<close>

primrec server_loop :: "os \<Rightarrow> int \<Rightarrow> int \<Rightarrow> addrinfo list \<Rightarrow> (net, int) state" where
  "server_loop K af backlog [] = do {
     e \<leftarrow> get_errno;
     setError (''unable to bind socket, errno: '' @ int_dec e);
     dealError K (-1)
   }"
| "server_loop K af backlog (p # ps) = do {
     a \<leftarrow> sys K (Socket (ai_family p) (ai_socktype p) (ai_protocol p));
     let s = an_ret a;
     if s = -1 then server_loop K af backlog ps
     else do {
       v \<leftarrow> (if af = AF_INET6 then setV6Only K s else State_Monad.return 1);
       if v = -1 then dealError K s
       else do {
         r \<leftarrow> setReuseAddr K s;
         if r = -1 then dealError K s
         else do {
           l \<leftarrow> setListen K s (ai_addr p) backlog;
           if l = -1 then dealError K s
           else do { _ \<leftarrow> sys K Freeaddrinfo; State_Monad.return s }
         }
       }
     }
   }"

definition tcpGenericServer :: "os \<Rightarrow> int \<Rightarrow> string option \<Rightarrow> int \<Rightarrow> int \<Rightarrow> (net, int) state" where
  "tcpGenericServer K port bindaddr af backlog = do {
     g \<leftarrow> sys K (Getaddrinfo bindaddr (Some (portstr port)) af SOCK_STREAM AI_PASSIVE);
     if an_ret g \<noteq> 0 then do { setError (gai_strerror K (an_ret g)); State_Monad.return (-1) }
     else server_loop K af backlog (an_infos g)
   }"

definition tcpServer :: "os \<Rightarrow> int \<Rightarrow> string option \<Rightarrow> int \<Rightarrow> (net, int) state" where
  "tcpServer K port bindaddr backlog = tcpGenericServer K port bindaddr AF_INET backlog"

definition tcp6Server :: "os \<Rightarrow> int \<Rightarrow> string option \<Rightarrow> int \<Rightarrow> (net, int) state" where
  "tcp6Server K port bindaddr backlog = tcpGenericServer K port bindaddr AF_INET6 backlog"

text \<open>\<open>strncpy\<close> keeps 107 characters of the path.\<close>

definition unix_sockaddr :: "string \<Rightarrow> sockaddr" where
  "unix_sockaddr path =
     \<lparr>sa_family = AF_UNIX, sin_addr = [], sin6_addr = [], sin_port = 0, sun_path = take 107 (c_str path)\<rparr>"

definition unixServer :: "os \<Rightarrow> string \<Rightarrow> nat \<Rightarrow> int \<Rightarrow> (net, int) state" where
  "unixServer K path perm backlog = do {
     s \<leftarrow> createSocket K AF_UNIX;
     if s = -1 then State_Monad.return (-1)
     else do {
       l \<leftarrow> setListen K s (unix_sockaddr path) backlog;
       if l = -1 then State_Monad.return (-1)
       else do {
         (if perm \<noteq> 0 then do { _ \<leftarrow> sys K (Chmod (sun_path (unix_sockaddr path)) perm); State_Monad.return () }
          else State_Monad.return ());
         State_Monad.return s
       }
     }
   }"

section \<open>Accepting\<close>

partial_function (option) accept_retry :: "os \<Rightarrow> int \<Rightarrow> net \<Rightarrow> ((int \<times> sockaddr) \<times> net) option" where
  "accept_retry K s st =
     (let (a, st1) = run_state (sys K (Accept s)) st in
      if an_ret a = -1 then
        if an_errno a = EINTR then accept_retry K s st1
        else let (r, st2) = run_state (sys_error K ''accept: '' []) st1 in Some ((r, an_sa a), st2)
      else Some ((an_ret a, an_sa a), st1))"

definition tcpGenericAccept :: "os \<Rightarrow> int \<Rightarrow> net \<Rightarrow> ((int \<times> sockaddr) \<times> net) option" where
  "tcpGenericAccept K s st = accept_retry K s st"

text \<open>\<open>inet_ntop\<close> writes its text when text and NUL fit into the buffer; None: nothing is written.\<close>

fun dotted :: "8 word list \<Rightarrow> string" where
  "dotted [] = []"
| "dotted [b] = nat_dec (unat b)"
| "dotted (b # bs) = nat_dec (unat b) @ CHR ''.'' # dotted bs"

definition fits :: "string \<Rightarrow> nat \<Rightarrow> string option" where
  "fits txt len = (if length txt < len then Some txt else None)"

definition ntop4_text :: "8 word list \<Rightarrow> nat \<Rightarrow> string option" where
  "ntop4_text bs len = fits (dotted (take 4 bs)) len"

definition ntop6_text :: "os \<Rightarrow> 8 word list \<Rightarrow> nat \<Rightarrow> string option" where
  "ntop6_text K bs len = fits (ntop6 K bs) len"

text \<open>
  \<open>tcpAccept\<close> returns the descriptor and what it writes to \<open>ip\<close> (a buffer of the given length, None
  for a null pointer) and \<open>port\<close>. Its \<open>struct sockaddr\<close> has 16 bytes: of an IPv6 address it
  holds the first eight, the others are read behind the object.
\<close>

definition tcpAccept ::
  "os \<Rightarrow> int \<Rightarrow> nat option \<Rightarrow> bool \<Rightarrow> net \<Rightarrow> ((int \<times> string option \<times> nat option) \<times> net) option" where
  "tcpAccept K s ip port st =
     (case tcpGenericAccept K s st of
        None \<Rightarrow> None
      | Some ((fd, sa), st1) \<Rightarrow>
          if fd = -1 then Some ((-1, None, None), st1)
          else
            let txt = (case ip of
                  None \<Rightarrow> None
                | Some len \<Rightarrow>
                    if sa_family sa = AF_INET then ntop4_text (sin_addr sa) len
                    else ntop6_text K (take 8 (sin6_addr sa) @ take 8 (junk_bytes K)) len)
            in Some ((fd, txt, if port then Some (sin_port sa) else None), st1))"

definition unixAccept :: "os \<Rightarrow> int \<Rightarrow> net \<Rightarrow> (int \<times> net) option" where
  "unixAccept K s st = map_option (\<lambda>((fd, sa), st1). (fd, st1)) (tcpGenericAccept K s st)"

section \<open>Resolving and naming\<close>

definition genericResolve :: "os \<Rightarrow> string \<Rightarrow> nat \<Rightarrow> flags \<Rightarrow> (net, int \<times> string option) state" where
  "genericResolve K host len fl = do {
     g \<leftarrow> sys K (Getaddrinfo (Some host) None AF_UNSPEC SOCK_STREAM
            (if has_flag fl NET_IP_ONLY then AI_NUMERICHOST else 0));
     if an_ret g \<noteq> 0 then do { setError (gai_strerror K (an_ret g)); State_Monad.return (-1, None) }
     else do {
       let txt = (case an_infos g of
           [] \<Rightarrow> None
         | info # _ \<Rightarrow>
             if ai_family info = AF_INET then ntop4_text (sin_addr (ai_addr info)) len
             else ntop6_text K (sin6_addr (ai_addr info)) len);
       _ \<leftarrow> sys K Freeaddrinfo;
       State_Monad.return (1, txt)
     }
   }"

definition resolve :: "os \<Rightarrow> string \<Rightarrow> nat \<Rightarrow> (net, int \<times> string option) state" where
  "resolve K host len = genericResolve K host len NET_NONE"

definition resolveIP :: "os \<Rightarrow> string \<Rightarrow> nat \<Rightarrow> (net, int \<times> string option) state" where
  "resolveIP K host len = genericResolve K host len NET_IP_ONLY"

text \<open>The question mark of the error paths, as far as the buffer holds it.\<close>

definition question_mark :: "nat \<Rightarrow> string option" where
  "question_mark len = (if len \<ge> 2 then Some ''?'' else if len = 1 then Some [] else None)"

definition peerToString :: "os \<Rightarrow> int \<Rightarrow> nat option \<Rightarrow> bool \<Rightarrow> (net, int \<times> string option \<times> nat option) state" where
  "peerToString K fd ip port =
     (case ip of
        None \<Rightarrow> State_Monad.return (-1, None, None)
      | Some len \<Rightarrow>
          if \<not> port then State_Monad.return (-1, None, None)
          else if len = 0 then State_Monad.return (-1, question_mark len, Some 0)
          else do {
            a \<leftarrow> sys K (Getpeername fd);
            let sa = an_sa a;
            State_Monad.return
              (if an_ret a = -1 then (-1, question_mark len, Some 0)
               else if sa_family sa = AF_INET then (1, ntop4_text (sin_addr sa) len, Some (sin_port sa))
               else if sa_family sa = AF_INET6 then (1, ntop6_text K (sin6_addr sa) len, Some (sin_port sa))
               else if sa_family sa = AF_UNIX then (1, Some (take len ''/unixsocket''), Some 0)
               else (-1, question_mark len, Some 0))
          })"

text \<open>\<open>sockName\<close> writes two bytes on an error whatever the length, and formats IPv6 addresses as IPv4.\<close>

definition sockName :: "os \<Rightarrow> int \<Rightarrow> nat option \<Rightarrow> bool \<Rightarrow> (net, int \<times> string option \<times> nat option) state" where
  "sockName K fd ip port = do {
     a \<leftarrow> sys K (Getsockname fd);
     let sa = an_sa a;
     State_Monad.return
       (if an_ret a = -1 then (-1, map_option (\<lambda>_. ''?'') ip, if port then Some 0 else None)
        else
          let bs = (if sa_family sa = AF_INET then sin_addr sa else sin6_addr sa)
          in (1, Option.bind ip (ntop4_text bs), if port then Some (sin_port sa) else None))
   }"

definition net_formatAddr :: "string \<Rightarrow> int \<Rightarrow> string" where
  "net_formatAddr ip port = take (NET_PEER_ID_LEN - 1) (CHR ''['' # c_str ip @ '']:'' @ int_dec port)"

section \<open>Timed reading and writing\<close>

text \<open>\<open>retmask\<close> is uninitialised: the bits found are added to what it holds.\<close>

definition wait_fd :: "os \<Rightarrow> int \<Rightarrow> flags \<Rightarrow> int \<Rightarrow> (net, int) state" where
  "wait_fd K fd m ms = do {
     a \<leftarrow> sys K (Poll fd ((if has_flag m ES_READABLE then POLLIN else 0)
                   OR (if has_flag m ES_WRITABLE then POLLOUT else 0)) ms);
     if an_ret a \<le> 0 then State_Monad.return (an_ret a)
     else State_Monad.return (sint
       ((word_of_int (junk_int K) :: flags)
        OR (if has_flag (an_revents a) POLLIN \<and> has_flag m ES_READABLE then ES_READABLE else 0)
        OR (if has_flag (an_revents a) POLLOUT \<and> has_flag m ES_WRITABLE then ES_WRITABLE else 0)))
   }"

definition mstime_now :: "os \<Rightarrow> (net, 64 word) state" where
  "mstime_now K = do {
     a \<leftarrow> sys K Gettimeofday;
     State_Monad.return (mstime (an_sec a) (an_usec a))
   }"

text \<open>The argument of \<open>wait\<close> is an int: the 64-bit rest of the timeout is cut to 32 bits.\<close>

definition wait_ms :: "64 word \<Rightarrow> int" where
  "wait_ms w = sint (ucast w :: 32 word)"

partial_function (option) syncRead_loop ::
  "os \<Rightarrow> int \<Rightarrow> int \<Rightarrow> 64 word \<Rightarrow> 64 word \<Rightarrow> int \<Rightarrow> string \<Rightarrow> net \<Rightarrow> ((int \<times> string) \<times> net) option" where
  "syncRead_loop K fd sz timeout start readCount buf st =
     (let (now, st1) = run_state (mstime_now K) st; span = now - start in
      if \<not> span < timeout then Some ((readCount, buf), st1)
      else
        let (a, st2) = run_state (sys K (ReadCall fd (sz - readCount))) st1 in
        if an_ret a \<le> 0 then
          if an_ret a = -1 \<and> an_errno a = EAGAIN
          then syncRead_loop K fd sz timeout start readCount buf st2
          else if an_ret a = 0 then Some ((readCount, buf), st2)
          else Some ((-1, buf), st2)
        else
          let n = readCount + an_ret a; buf1 = buf @ take (nat (an_ret a)) (an_data a) in
          if n = sz then Some ((n, buf1), st2)
          else syncRead_loop K fd sz timeout start n buf1
                 (snd (run_state (wait_fd K fd ES_READABLE (wait_ms (timeout - span))) st2)))"

definition syncRead :: "os \<Rightarrow> int \<Rightarrow> int \<Rightarrow> 64 word \<Rightarrow> net \<Rightarrow> ((int \<times> string) \<times> net) option" where
  "syncRead K fd sz timeout st =
     (if sz = 0 then Some ((0, []), st)
      else let (start, st1) = run_state (mstime_now K) st
           in syncRead_loop K fd sz timeout start 0 [] st1)"

text \<open>
  \<open>syncReadLine\<close>: \<open>line\<close> is what lies in the caller's buffer before the current position and its
  NUL; None is a byte the call has not written. The result is the return value and the text left in the buffer, None when it
  wrote nothing at all. On end of file the NUL is written at the current position and the result is 0.
\<close>

function readLine_loop ::
  "os \<Rightarrow> int \<Rightarrow> 64 word \<Rightarrow> int \<Rightarrow> string \<Rightarrow> bool \<Rightarrow> net \<Rightarrow> ((int \<times> string option) \<times> net) option" where
  "readLine_loop K fd timeout sz line written st =
     (if \<not> 0 < sz then Some ((int (length line), if written then Some line else None), st)
      else
        case syncRead K fd 1 timeout st of
          None \<Rightarrow> None
        | Some ((n, chs), st1) \<Rightarrow>
            if n = -1 then Some ((-1, if written then Some line else None), st1)
            else if n = 0 then Some ((0, Some line), st1)
            else
              let ch = hd chs in
              if ch = CHR 0x0A then
                if line \<noteq> [] \<and> last line = CHR 0x0D
                then Some ((int (length line) - 1, Some (butlast line)), st1)
                else Some ((int (length line), if written then Some line else None), st1)
              else readLine_loop K fd timeout (sz - 1) (line @ [ch]) True st1)"
  by pat_completeness auto
termination
  by (relation "measure (\<lambda>(K, fd, timeout, sz, line, written, st). nat sz)") auto

declare readLine_loop.simps [simp del]

definition syncReadLine :: "os \<Rightarrow> int \<Rightarrow> int \<Rightarrow> 64 word \<Rightarrow> net \<Rightarrow> ((int \<times> string option) \<times> net) option" where
  "syncReadLine K fd sz timeout st = readLine_loop K fd timeout (sz - 1) [] False st"

text \<open>\<open>syncWrite\<close> leaves its loop when one write took the whole string, not when all is written.\<close>

partial_function (option) syncWrite_loop ::
  "os \<Rightarrow> int \<Rightarrow> string \<Rightarrow> 64 word \<Rightarrow> 64 word \<Rightarrow> int \<Rightarrow> net \<Rightarrow> (int \<times> net) option" where
  "syncWrite_loop K fd str timeout start totalWrite st =
     (let (now, st1) = run_state (mstime_now K) st; span = now - start in
      if \<not> span < timeout then Some (totalWrite, st1)
      else
        let (a, st2) = run_state (sys K (WriteCall fd (drop (nat totalWrite) str))) st1 in
        if an_ret a \<le> 0 then
          if an_ret a = -1 \<and> an_errno a = EAGAIN
          then syncWrite_loop K fd str timeout start totalWrite st2
          else Some (-1, st2)
        else
          let n = totalWrite + an_ret a in
          if an_ret a = int (length str) then Some (n, st2)
          else syncWrite_loop K fd str timeout start n
                 (snd (run_state (wait_fd K fd ES_WRITABLE (wait_ms (timeout - span))) st2)))"

definition syncWrite :: "os \<Rightarrow> int \<Rightarrow> string \<Rightarrow> 64 word \<Rightarrow> net \<Rightarrow> (int \<times> net) option" where
  "syncWrite K fd str timeout st =
     (let (start, st1) = run_state (mstime_now K) st
      in syncWrite_loop K fd str timeout start 0 st1)"

end
