(* ===== verification/Config.thy ===== *)
theory Config imports MiscTool DictResize Logging begin

text \<open>
  The configuration (src/src/config): \<open>ConfigCache\<close> with its defaults, the table of entries in a
  dictionary, the procs of the ten entries, and the text reader that cuts the file into lines and
  words. A proc that calls \<open>exit\<close> is the fault \<open>ProcessExit\<close>. Whether a log file can be opened is an
  argument. The reader's \<open>miscTool\<close> member is never set; the splitter it is asked for uses no member.
\<close>

section \<open>The cache\<close>

definition CONFIG_DEFAULT_SERVER_PORT :: int where "CONFIG_DEFAULT_SERVER_PORT = 6379"
definition CONFIG_BINDADDR_MAX :: nat where "CONFIG_BINDADDR_MAX = 16"
definition CONFIG_MAX_LINE :: nat where "CONFIG_MAX_LINE = 1024"
definition CONFIG_DEFAULT_UNIX_SOCKET_PERM :: "32 word" where "CONFIG_DEFAULT_UNIX_SOCKET_PERM = 0"
definition CONFIG_DEFAULT_TCP_KEEPALIVE :: int where "CONFIG_DEFAULT_TCP_KEEPALIVE = 300"
definition CONFIG_DEFAULT_SYSLOG_ENABLED :: int where "CONFIG_DEFAULT_SYSLOG_ENABLED = 0"
definition CONFIG_DEFAULT_LOGFILE :: string where "CONFIG_DEFAULT_LOGFILE = ''''"
definition CONFIG_DEFAULT_SYSLOG_IDENT :: string where "CONFIG_DEFAULT_SYSLOG_IDENT = ''flyDB''"
definition CONFIG_DEFAULT_VERBOSITY :: int where "CONFIG_DEFAULT_VERBOSITY = 2"

record config_cache =
  cf_verbosity :: int
  cf_logfile :: string
  cf_syslogEnabled :: int
  cf_syslogIdent :: string
  cf_syslogFacility :: int
  cf_bindAddrs :: "string list"
  cf_unixsocket :: "string option"
  cf_unixsocketperm :: "32 word"
  cf_tcpKeepAlive :: int
  cf_port :: int

text \<open>The constructor leaves the syslog facility uninitialised.\<close>

definition new_config :: "int \<Rightarrow> config_cache" where
  "new_config junk =
     \<lparr>cf_verbosity = CONFIG_DEFAULT_VERBOSITY, cf_logfile = CONFIG_DEFAULT_LOGFILE,
      cf_syslogEnabled = CONFIG_DEFAULT_SYSLOG_ENABLED, cf_syslogIdent = CONFIG_DEFAULT_SYSLOG_IDENT,
      cf_syslogFacility = junk, cf_bindAddrs = [], cf_unixsocket = None,
      cf_unixsocketperm = CONFIG_DEFAULT_UNIX_SOCKET_PERM, cf_tcpKeepAlive = CONFIG_DEFAULT_TCP_KEEPALIVE,
      cf_port = CONFIG_DEFAULT_SERVER_PORT\<rparr>"

section \<open>The procs\<close>

datatype config_proc =
    PortProc | BindProc | UnixSocketProc | UnixSocketPermProc | TcpKeepaliveProc | LogFileProc
  | SyslogEnableProc | SyslogIdentProc | LogLevelProc | SyslogFacilityProc

definition INT_MIN :: int where "INT_MIN = - (2 ^ 31)"

definition loglevelMap :: "(string \<times> int) list" where
  "loglevelMap = [(''debug'', 0), (''verbose'', 1), (''notice'', 2), (''warning'', 3)]"

definition syslogFacilityMap :: "(string \<times> int) list" where
  "syslogFacilityMap =
     [(''user'', 8), (''local0'', 128), (''local1'', 136), (''local2'', 144), (''local3'', 152),
      (''local4'', 160), (''local5'', 168), (''local6'', 176), (''local7'', 184)]"

fun configMapGetValue :: "(string \<times> int) list \<Rightarrow> string \<Rightarrow> int" where
  "configMapGetValue [] name = INT_MIN"
| "configMapGetValue ((n, v) # cs) name = (if strcaseeq n name then v else configMapGetValue cs name)"

text \<open>\<open>strtol\<close> with base 0 reads hexadecimal after \<open>0x\<close>, octal after \<open>0\<close>, decimal otherwise.\<close>

definition digit_value :: "char \<Rightarrow> nat" where
  "digit_value c =
     (let n = of_char c :: nat in
      if 48 \<le> n \<and> n \<le> 57 then n - 48
      else if 97 \<le> n \<and> n \<le> 122 then n - 87
      else if 65 \<le> n \<and> n \<le> 90 then n - 55 else 36)"

fun based_val :: "nat \<Rightarrow> nat \<Rightarrow> string \<Rightarrow> nat" where
  "based_val b acc [] = acc"
| "based_val b acc (c # cs) = (if digit_value c < b then based_val b (b * acc + digit_value c) cs else acc)"

definition number_base :: "string \<Rightarrow> nat \<times> string" where
  "number_base s =
     (case s of
        c # d # e # cs \<Rightarrow>
          if c = CHR ''0'' \<and> (d = CHR ''x'' \<or> d = CHR ''X'') \<and> digit_value e < 16 then (16, e # cs)
          else if c = CHR ''0'' then (8, d # e # cs) else (10, s)
      | c # cs \<Rightarrow> if c = CHR ''0'' then (8, cs) else (10, s)
      | [] \<Rightarrow> (10, []))"

definition c_strtol0 :: "string \<Rightarrow> int" where
  "c_strtol0 s =
     (let (neg, t) = sign_split s; (b, ds) = number_base t; v = int (based_val b 0 ds)
      in if neg then max (- (2 ^ 63)) (- v) else min (2 ^ 63 - 1) v)"

definition portConfigProc :: "string list \<Rightarrow> config_cache \<Rightarrow> config_cache res" where
  "portConfigProc words c =
     (let port = atoi (c_str (words ! 1))
      in if 0 \<le> port \<and> port \<le> 65535 then Ret (c\<lparr>cf_port := port\<rparr>) else Ret c)"

definition bindConfigProc :: "string list \<Rightarrow> config_cache \<Rightarrow> config_cache res" where
  "bindConfigProc words c =
     (if length words - 1 > CONFIG_BINDADDR_MAX then Fault ProcessExit
      else Ret (c\<lparr>cf_bindAddrs := cf_bindAddrs c @ tl words\<rparr>))"

definition unixSocketConfigProc :: "string list \<Rightarrow> config_cache \<Rightarrow> config_cache res" where
  "unixSocketConfigProc words c = Ret (c\<lparr>cf_unixsocket := Some (c_str (words ! 1))\<rparr>)"

definition unixSocketPermConfigProc :: "string list \<Rightarrow> config_cache \<Rightarrow> config_cache res" where
  "unixSocketPermConfigProc words c =
     (let perm = (word_of_int (c_strtol0 (c_str (words ! 1))) :: 32 word)
      in if 511 < perm then Fault ProcessExit else Ret (c\<lparr>cf_unixsocketperm := perm\<rparr>))"

definition tcpKeepaliveConfigProc :: "string list \<Rightarrow> config_cache \<Rightarrow> config_cache res" where
  "tcpKeepaliveConfigProc words c =
     (let v = atoi (c_str (words ! 1))
      in if v < 0 then Fault ProcessExit else Ret (c\<lparr>cf_tcpKeepAlive := v\<rparr>))"

definition logFileConfigProc :: "(string \<Rightarrow> bool) \<Rightarrow> string list \<Rightarrow> config_cache \<Rightarrow> config_cache res" where
  "logFileConfigProc opens words c =
     (let f = c_str (words ! 1)
      in if f \<noteq> [] \<and> \<not> opens f then Fault ProcessExit else Ret (c\<lparr>cf_logfile := f\<rparr>))"

definition syslogEnableConfigProc :: "string list \<Rightarrow> config_cache \<Rightarrow> config_cache res" where
  "syslogEnableConfigProc words c =
     (let v = yesnotoi (c_str (words ! 1))
      in if v = -1 then Fault ProcessExit else Ret (c\<lparr>cf_syslogEnabled := v\<rparr>))"

definition syslogIdentConfigProc :: "string list \<Rightarrow> config_cache \<Rightarrow> config_cache res" where
  "syslogIdentConfigProc words c = Ret (c\<lparr>cf_syslogIdent := c_str (words ! 1)\<rparr>)"

definition logLevelConfigProc :: "string list \<Rightarrow> config_cache \<Rightarrow> config_cache res" where
  "logLevelConfigProc words c =
     (let v = configMapGetValue loglevelMap (c_str (words ! 1))
      in if v = INT_MIN then Fault ProcessExit else Ret (c\<lparr>cf_verbosity := v\<rparr>))"

definition syslogFacilityConfigProc :: "string list \<Rightarrow> config_cache \<Rightarrow> config_cache res" where
  "syslogFacilityConfigProc words c =
     (let v = configMapGetValue syslogFacilityMap (c_str (words ! 1))
      in if v = INT_MIN then Fault ProcessExit else Ret (c\<lparr>cf_syslogFacility := v\<rparr>))"

fun run_proc :: "(string \<Rightarrow> bool) \<Rightarrow> config_proc \<Rightarrow> string list \<Rightarrow> config_cache \<Rightarrow> config_cache res" where
  "run_proc opens PortProc = portConfigProc"
| "run_proc opens BindProc = bindConfigProc"
| "run_proc opens UnixSocketProc = unixSocketConfigProc"
| "run_proc opens UnixSocketPermProc = unixSocketPermConfigProc"
| "run_proc opens TcpKeepaliveProc = tcpKeepaliveConfigProc"
| "run_proc opens LogFileProc = logFileConfigProc opens"
| "run_proc opens SyslogEnableProc = syslogEnableConfigProc"
| "run_proc opens SyslogIdentProc = syslogIdentConfigProc"
| "run_proc opens LogLevelProc = logLevelConfigProc"
| "run_proc opens SyslogFacilityProc = syslogFacilityConfigProc"

section \<open>The table of entries and the reader\<close>

record config_entry =
  cfe_proc :: config_proc
  cfe_arity :: nat

definition config_entries :: "(string \<times> config_entry) list" where
  "config_entries =
     [(''port'', \<lparr>cfe_proc = PortProc, cfe_arity = 2\<rparr>),
      (''bind'', \<lparr>cfe_proc = BindProc, cfe_arity = CONFIG_BINDADDR_MAX + 1\<rparr>),
      (''unixsocket'', \<lparr>cfe_proc = UnixSocketProc, cfe_arity = 2\<rparr>),
      (''unixsocketperm'', \<lparr>cfe_proc = UnixSocketPermProc, cfe_arity = 2\<rparr>),
      (''tcp-keepalive'', \<lparr>cfe_proc = TcpKeepaliveProc, cfe_arity = 2\<rparr>),
      (''logfile'', \<lparr>cfe_proc = LogFileProc, cfe_arity = 2\<rparr>),
      (''syslog-enable'', \<lparr>cfe_proc = SyslogEnableProc, cfe_arity = 2\<rparr>),
      (''syslog-ident'', \<lparr>cfe_proc = SyslogIdentProc, cfe_arity = 2\<rparr>),
      (''loglevel'', \<lparr>cfe_proc = LogLevelProc, cfe_arity = 2\<rparr>),
      (''syslog-facility'', \<lparr>cfe_proc = SyslogFacilityProc, cfe_arity = 2\<rparr>)]"

fun add_entries ::
  "bool \<Rightarrow> (string \<Rightarrow> nat) \<Rightarrow> (string \<times> config_entry) list \<Rightarrow> (string, config_entry) dict \<Rightarrow>
   (string, config_entry) dict res" where
  "add_entries cr hash [] d = Ret d"
| "add_entries cr hash ((k, e) # es) d =
     res_bind (addEntry cr hash d k e) (\<lambda>(d', r). add_entries cr hash es d')"

definition initConfigEntry :: "bool \<Rightarrow> (string \<Rightarrow> nat) \<Rightarrow> (string, config_entry) dict res" where
  "initConfigEntry cr hash = add_entries cr hash config_entries new_dict"

type_synonym reader = "(string, config_entry) dict \<times> config_cache"

definition new_reader :: "bool \<Rightarrow> (string \<Rightarrow> nat) \<Rightarrow> int \<Rightarrow> reader res" where
  "new_reader cr hash junk = res_bind (initConfigEntry cr hash) (\<lambda>d. Ret (d, new_config junk))"

definition parseConfig :: "(string \<Rightarrow> nat) \<Rightarrow> (string \<Rightarrow> bool) \<Rightarrow> string list \<Rightarrow> reader \<Rightarrow> reader res" where
  "parseConfig hash opens words r =
     res_bind (findEntry hash (fst r) (hd words)) (\<lambda>(d, e).
       case e of
         None \<Rightarrow> Ret (d, snd r)
       | Some e \<Rightarrow>
           if length words < cfe_arity e then Ret (d, snd r)
           else res_bind (run_proc opens (cfe_proc e) words (snd r)) (\<lambda>c. Ret (d, c)))"

definition loadConfigFromLineString ::
  "(string \<Rightarrow> nat) \<Rightarrow> (string \<Rightarrow> bool) \<Rightarrow> string \<Rightarrow> reader \<Rightarrow> reader res" where
  "loadConfigFromLineString hash opens line r =
     (case spiltString line '' '' of
        None \<Rightarrow> Ret r
      | Some words \<Rightarrow> if words = [] then Ret r else parseConfig hash opens words r)"

fun load_lines :: "(string \<Rightarrow> nat) \<Rightarrow> (string \<Rightarrow> bool) \<Rightarrow> string list \<Rightarrow> reader \<Rightarrow> reader res" where
  "load_lines hash opens [] r = Ret r"
| "load_lines hash opens (l # ls) r =
     (if l = [] \<or> hd l = CHR ''#'' then load_lines hash opens ls r
      else res_bind (loadConfigFromLineString hash opens l r) (load_lines hash opens ls))"

text \<open>The splitter returns for the delimiters used here; None is its endless loop on an empty one.\<close>

definition loadConfigFromString :: "(string \<Rightarrow> nat) \<Rightarrow> (string \<Rightarrow> bool) \<Rightarrow> string \<Rightarrow> reader \<Rightarrow> reader res" where
  "loadConfigFromString hash opens config r =
     (case spiltString config [CHR 0x0A] of None \<Rightarrow> Ret r | Some ls \<Rightarrow> load_lines hash opens ls r)"

text \<open>\<open>fgets\<close>: at most \<open>CONFIG_MAX_LINE\<close> characters, up to and with a line feed.\<close>

fun fgets_len :: "nat \<Rightarrow> string \<Rightarrow> nat" where
  "fgets_len 0 s = 0"
| "fgets_len (Suc n) [] = 0"
| "fgets_len (Suc n) (c # cs) = (if c = CHR 0x0A then 1 else Suc (fgets_len n cs))"

lemma fgets_len_pos: "s \<noteq> [] \<Longrightarrow> 0 < n \<Longrightarrow> 0 < fgets_len n s"
  by (cases s; cases n) auto

function read_file :: "string \<Rightarrow> string \<Rightarrow> string" where
  "read_file inp config =
     (if inp = [] then config
      else let n = fgets_len CONFIG_MAX_LINE inp
           in read_file (drop n inp) (config @ c_str (take n inp)))"
  by pat_completeness auto
termination
proof (relation "measure (\<lambda>(inp, config). length inp)", goal_cases)
  case (2 inp config n)
  then show ?case using fgets_len_pos [of inp CONFIG_MAX_LINE] by (simp add: CONFIG_MAX_LINE_def)
qed simp

declare read_file.simps [simp del]

definition loadConfig :: "(string \<Rightarrow> nat) \<Rightarrow> (string \<Rightarrow> bool) \<Rightarrow> string \<Rightarrow> reader \<Rightarrow> config_cache res" where
  "loadConfig hash opens inp r =
     res_bind (loadConfigFromString hash opens (read_file inp []) r) (\<lambda>r'. Ret (snd r'))"

end
