(* ===== verification/Startup.thy ===== *)
theory Startup imports Commands NetHandler Config begin

text \<open>
  Starting the program (src/src/main.cpp, the constructors in src/src/coordinator/Coordinator.cpp and
  src/src/flysentinel/FlySentinel.cpp): the configuration is read, the logger set, the server takes its
  settings and opens its sockets, and the event loop gets the cron and the listening sockets. All
  system calls go through the kernel parameter of the socket layer.
\<close>

section \<open>Settings\<close>

record settings =
  st_bindAddrs :: "string list"
  st_unixsocket :: "string option"
  st_unixsocketperm :: "32 word"
  st_tcpKeepAlive :: int
  st_port :: int

definition loadFromConfig :: "config_cache \<Rightarrow> settings" where
  "loadFromConfig c =
     \<lparr>st_bindAddrs = cf_bindAddrs c, st_unixsocket = cf_unixsocket c, st_unixsocketperm = cf_unixsocketperm c,
      st_tcpKeepAlive = cf_tcpKeepAlive c, st_port = cf_port c\<rparr>"

section \<open>Listening\<close>

text \<open>A call with a null error buffer.\<close>

definition no_err :: "(net, 'a) state \<Rightarrow> (net, 'a) state" where
  "no_err m = State (\<lambda>s.
     let (r, t) = run_state m (s\<lparr>errbuf := None\<rparr>) in (r, t\<lparr>errbuf := errbuf s\<rparr>))"

text \<open>Whether the socket could be made non-blocking is not looked at.\<close>

definition keep_fd :: "os \<Rightarrow> int \<Rightarrow> int list \<Rightarrow> (net, int list) state" where
  "keep_fd K fd ipfd = do {
     _ \<leftarrow> no_err (setBlock K fd False);
     State_Monad.return (ipfd @ [fd])
   }"

primrec bind_loop :: "os \<Rightarrow> int \<Rightarrow> int \<Rightarrow> string list \<Rightarrow> int list \<Rightarrow> (net, int list \<times> int) state" where
  "bind_loop K port backlog [] ipfd = State_Monad.return (ipfd, 1)"
| "bind_loop K port backlog (a # as) ipfd = do {
     fd \<leftarrow> (if CHR '':'' \<in> set a then tcp6Server K port (Some (c_str a)) backlog
            else tcpServer K port (Some (c_str a)) backlog);
     if fd = -1 then State_Monad.return (ipfd, -1)
     else do {
       ipfd \<leftarrow> keep_fd K fd ipfd;
       bind_loop K port backlog as ipfd
     }
   }"

text \<open>The results are the new \<open>ipfd\<close> and the return value.\<close>

definition listenToPort :: "os \<Rightarrow> settings \<Rightarrow> int \<Rightarrow> int list \<Rightarrow> (net, int list \<times> int) state" where
  "listenToPort K st backlog ipfd =
     (if st_bindAddrs st = [] then do {
        fd6 \<leftarrow> tcp6Server K (st_port st) None backlog;
        ipfd1 \<leftarrow> (if fd6 \<noteq> -1 then keep_fd K fd6 ipfd else State_Monad.return ipfd);
        fd4 \<leftarrow> tcpServer K (st_port st) None backlog;
        ipfd2 \<leftarrow> (if fd4 \<noteq> -1 then keep_fd K fd4 ipfd1 else State_Monad.return ipfd1);
        State_Monad.return (ipfd2, if fd6 = -1 \<and> fd4 = -1 then -1 else 1)
      }
      else bind_loop K (st_port st) backlog (st_bindAddrs st) ipfd)"

text \<open>The unix socket, if one is configured; None is a descriptor that is never set.\<close>

definition open_unix :: "os \<Rightarrow> settings \<Rightarrow> int \<Rightarrow> (net, int option res) state" where
  "open_unix K st backlog =
     (case st_unixsocket st of
        None \<Rightarrow> State_Monad.return (Ret None)
      | Some path \<Rightarrow> do {
          _ \<leftarrow> sys K (Unlink path);
          fd \<leftarrow> unixServer K path (unat (st_unixsocketperm st)) backlog;
          if fd = -1 then State_Monad.return (Fault ProcessExit)
          else do {
            _ \<leftarrow> no_err (setBlock K fd False);
            State_Monad.return (Ret (Some fd))
          }
        })"

section \<open>The server\<close>

definition CONFIG_DEFAULT_HZ :: int where "CONFIG_DEFAULT_HZ = 10"

text \<open>
  What the constructors find: the global \<open>canResize\<close>, the hash of strings, which log files can be opened, the limit on open files, the time in
  seconds and milliseconds, and what memory they do not set holds (the syslog facility, the backlog,
  the next client id, the masks of the events, the sentinel part).
\<close>

record boot_env =
  be_canResize :: bool
  be_hash :: "string \<Rightarrow> nat"
  be_opens :: "string \<Rightarrow> bool"
  be_limit :: "int option \<times> (int \<Rightarrow> bool)"
  be_seconds :: int
  be_msnow :: int
  be_facility :: int
  be_backlog :: int
  be_nextId :: "64 word"
  be_raw :: "nat \<Rightarrow> client_proc file_event"
  be_sentinel :: sentinel

record server_init =
  si_commands :: "(string, command_entry) dict"
  si_maxClients :: int
  si_settings :: settings
  si_ipfd :: "int list"
  si_usfd :: "int option"

text \<open>The result of \<open>listenToPort\<close> is ignored.\<close>

definition initGeneralServer :: "os \<Rightarrow> boot_env \<Rightarrow> config_cache \<Rightarrow> (net, server_init res) state" where
  "initGeneralServer K env cfg =
     (case new_command_table (be_canResize env) (be_hash env) of
        Fault e \<Rightarrow> State_Monad.return (Fault e)
      | Ret d \<Rightarrow>
          case setMaxClientLimit (fst (be_limit env)) (snd (be_limit env)) of
            Fault e \<Rightarrow> State_Monad.return (Fault e)
          | Ret m \<Rightarrow> do {
              let st = loadFromConfig cfg;
              (ipfd, r) \<leftarrow> listenToPort K st (be_backlog env) [];
              u \<leftarrow> open_unix K st (be_backlog env);
              State_Monad.return (res_bind u (\<lambda>usfd.
                Ret \<lparr>si_commands = d, si_maxClients = m, si_settings = st, si_ipfd = ipfd, si_usfd = usfd\<rparr>))
            })"

definition new_server :: "boot_env \<Rightarrow> server_init \<Rightarrow> client_proc event_loop \<Rightarrow> server" where
  "new_server env i l =
     \<lparr>objs = [], clients = [], clientsPendingWrite = [], clientsToClose = [], sv_loop = l,
      maxClients = nat (si_maxClients i), nextClientId = be_nextId env, statRejectedConn = 0,
      clientMaxQuerybufLen = of_nat PROTO_MAX_QUERYBUF_LEN, cronloops = 0, sv_nowt = be_seconds env,
      commands = si_commands i, chans = [], pats = [],
      sn = (be_sentinel env)\<lparr>myid := [], sv_port := st_port (si_settings i), sv_hz := CONFIG_DEFAULT_HZ\<rparr>,
      net_out = [], closed_fds = []\<rparr>"

section \<open>The coordinator\<close>

record process =
  ps_config :: config_cache
  ps_logger :: log_handler
  ps_openlog :: "(string \<times> int) option"
  ps_ipfd :: "int list"
  ps_usfd :: "int option"
  ps_server :: server

definition init_logger :: "config_cache \<Rightarrow> log_handler" where
  "init_logger c = log_init (cf_logfile c) (cf_syslogEnabled c) (word_of_int (cf_verbosity c))"

definition openlog_call :: "config_cache \<Rightarrow> (string \<times> int) option" where
  "openlog_call c = (if cf_syslogEnabled c \<noteq> 0 then Some (cf_syslogIdent c, cf_syslogFacility c) else None)"

text \<open>The text of the configuration file; None if it cannot be opened.\<close>

definition read_config :: "boot_env \<Rightarrow> string option \<Rightarrow> config_cache res" where
  "read_config env inp =
     (case inp of
        None \<Rightarrow> Fault ProcessExit
      | Some txt \<Rightarrow>
          res_bind (new_reader (be_canResize env) (be_hash env) (be_facility env)) (\<lambda>r.
            loadConfig (be_hash env) (be_opens env) txt r))"

definition new_process :: "boot_env \<Rightarrow> config_cache \<Rightarrow> server_init \<Rightarrow> process res" where
  "new_process env cfg i =
     res_bind (createEvent (si_ipfd i) (new_loop (be_raw env) (be_msnow env) (nat (si_maxClients i + CONFIG_FDSET_INCR))))
       (\<lambda>l. Ret \<lparr>ps_config = cfg, ps_logger = init_logger cfg, ps_openlog = openlog_call cfg,
                 ps_ipfd = si_ipfd i, ps_usfd = si_usfd i, ps_server = new_server env i l\<rparr>)"

text \<open>The constructor of \<open>Coordinator\<close>, up to the parts that have no state at the start.\<close>

definition new_coordinator :: "os \<Rightarrow> boot_env \<Rightarrow> string option \<Rightarrow> (net, process res) state" where
  "new_coordinator K env inp =
     (case read_config env inp of
        Fault e \<Rightarrow> State_Monad.return (Fault e)
      | Ret cfg \<Rightarrow> do {
          i \<leftarrow> initGeneralServer K env cfg;
          State_Monad.return (res_bind i (new_process env cfg))
        })"

definition boot :: "os \<Rightarrow> boot_env \<Rightarrow> string option \<Rightarrow> net \<Rightarrow> process res \<times> net" where
  "boot K env inp st = run_state (new_coordinator K env inp) st"

end
