(* ===== verification/EventFacts.thy ===== *)
theory EventFacts imports EventLoop "HOL-Library.Multiset" begin

text \<open>
  What the event loop guarantees: the registered masks, the select sets and the largest descriptor
  agree, polling reports exactly the registered and ready descriptors, and the timers stay sorted
  and are rescheduled. The interface between the loop and the file procs is the locale
  \<open>file_procs\<close>.
\<close>

section \<open>The invariant\<close>

definition masks_ok :: "'p event_loop \<Rightarrow> nat \<Rightarrow> bool" where
  "masks_ok l i \<longleftrightarrow>
     (let e = fileEvents l ! i in
      fe_fd e = int i \<and> fe_mask e AND NOT 3 = 0 \<and>
      (int i \<in> rfds l \<longleftrightarrow> has_flag (fe_mask e) ES_READABLE) \<and>
      (int i \<in> wfds l \<longleftrightarrow> has_flag (fe_mask e) ES_WRITABLE) \<and>
      (has_flag (fe_mask e) ES_READABLE \<longrightarrow> rfileProc e \<noteq> None) \<and>
      (has_flag (fe_mask e) ES_WRITABLE \<longrightarrow> wfileProc e \<noteq> None) \<and>
      (maxfd l < int i \<longrightarrow> fe_mask e = ES_NONE))"

definition el_inv :: "'p event_loop \<Rightarrow> bool" where
  "el_inv l \<longleftrightarrow> int (length (fileEvents l)) = setSize l \<and>
     -1 \<le> maxfd l \<and> maxfd l < setSize l \<and> maxfd l < FD_SETSIZE \<and> (\<forall>i < length (fileEvents l). masks_ok l i)"

lemma event_flags [simp]:
  "has_flag ES_READABLE ES_READABLE" "has_flag ES_WRITABLE ES_WRITABLE"
  "\<not> has_flag ES_READABLE ES_WRITABLE" "\<not> has_flag ES_WRITABLE ES_READABLE"
  "\<not> has_flag ES_NONE b"
  by (simp_all add: has_flag_def ES_READABLE_def ES_WRITABLE_def ES_NONE_def)

lemma fired_mask_none: "fired_mask em r w = ES_NONE \<longleftrightarrow>
    \<not> (has_flag em ES_READABLE \<and> r) \<and> \<not> (has_flag em ES_WRITABLE \<and> w)"
  by (simp add: fired_mask_def ES_NONE_def ES_READABLE_def ES_WRITABLE_def)

lemma mask_none:
  fixes m :: flags
  assumes "m AND NOT 3 = 0"
  shows "m = ES_NONE \<longleftrightarrow> \<not> has_flag m ES_READABLE \<and> \<not> has_flag m ES_WRITABLE"
proof -
  have "m = (m AND 3) OR (m AND NOT 3)"
    by (simp flip: bit.conj_disj_distrib)
  then have "m = m AND 3" using assms by simp
  also have "(3 :: flags) = 1 OR 2" by simp
  finally have "m = (m AND 1) OR (m AND 2)" by (simp only: bit.conj_disj_distrib)
  then show ?thesis by (auto simp: has_flag_def ES_NONE_def ES_READABLE_def ES_WRITABLE_def)
qed

lemma new_loop_inv:
  assumes "\<forall>i < n. fe_mask (raw i) = ES_NONE"
  shows "el_inv (new_loop raw nowt n)"
  using assms by (simp add: el_inv_def new_loop_def masks_ok_def Let_def ES_NONE_def FD_SETSIZE_def flag_simps)

lemma event_at_ok: "el_inv l \<Longrightarrow> 0 \<le> fd \<Longrightarrow> fd < setSize l \<Longrightarrow> event_at fd l = Ret (fileEvents l ! nat fd)"
  by (auto simp: el_inv_def event_at_def)

lemma create_ok:
  assumes inv: "el_inv l" and fd: "0 \<le> fd" "fd < setSize l" "fd < FD_SETSIZE" and m: "m AND NOT 3 = 0"
  shows "\<exists>l'. createFileEvent fd m proc d l = Ret (l', 1) \<and> el_inv l' \<and> setSize l' = setSize l \<and>
    fileEvents l' = (fileEvents l)[nat fd := addFileProc m proc d (fileEvents l ! nat fd)] \<and>
    maxfd l' = max (maxfd l) fd"
proof -
  let ?e = "fileEvents l ! nat fd"
  let ?l = "set_event fd (addFileProc m proc d ?e) l"
  let ?r = "if has_flag m ES_READABLE then insert fd (rfds l) else rfds l"
  let ?w = "if has_flag m ES_WRITABLE then insert fd (wfds l) else wfds l"
  let ?l' = "?l\<lparr>rfds := ?r, wfds := ?w, maxfd := max (maxfd l) fd\<rparr>"
  have "poll_add fd m ?l = Ret (?l\<lparr>rfds := ?r, wfds := ?w\<rparr>)"
    using fd by (auto simp: poll_add_def el_inv_def set_event_def)
  then have "createFileEvent fd m proc d l = Ret (?l', 1)"
    using event_at_ok [OF inv fd(1,2)] fd by (simp add: createFileEvent_def set_event_def max_def)
  moreover have "el_inv ?l'"
  proof -
    have "masks_ok ?l' i" if i: "i < length (fileEvents l)" for i
    proof (cases "i = nat fd")
      case True
      have old: "masks_ok l i" using inv i by (simp add: el_inv_def)
      have "(fe_mask ?e OR m) AND NOT 3 = 0"
        using old m True by (simp add: masks_ok_def Let_def word_ao_dist)
      then show ?thesis
        using old True i fd by (auto simp: masks_ok_def Let_def set_event_def addFileProc_def has_flag_or)
    next
      case False
      then have "int i \<noteq> fd" using fd by auto
      with inv i False show ?thesis
        by (auto simp: el_inv_def masks_ok_def Let_def set_event_def)
    qed
    then show ?thesis using inv fd by (auto simp: el_inv_def set_event_def)
  qed
  ultimately show ?thesis by (simp add: set_event_def)
qed

lemma last_used_Some: "last_used es n = Some i \<Longrightarrow> i < n \<and> \<not> noneMask (es ! i) \<and> (\<forall>j. i < j \<and> j < n \<longrightarrow> noneMask (es ! j))"
proof (induction n)
  case (Suc n)
  then show ?case by (cases "noneMask (es ! n)") (auto simp: less_Suc_eq)
qed simp

lemma last_used_None: "last_used es n = None \<longleftrightarrow> (\<forall>j < n. noneMask (es ! j))"
  by (induction n) (auto simp: less_Suc_eq)

lemma and_not_and: "(a :: flags) AND NOT 3 = 0 \<Longrightarrow> (a AND NOT b) AND NOT 3 = 0"
  by (metis and.assoc and.commute and_zero_eq)

lemma has_flag_bit: "has_flag x ES_READABLE \<longleftrightarrow> bit x 0" "has_flag x ES_WRITABLE \<longleftrightarrow> bit x 1"
  using and_exp_eq_0_iff_not_bit [of x 0] and_exp_eq_0_iff_not_bit [of x 1]
  by (simp_all add: has_flag_def ES_READABLE_def ES_WRITABLE_def)

lemma has_flag_and_not:
  "has_flag (a AND NOT m) ES_READABLE \<longleftrightarrow> has_flag a ES_READABLE \<and> \<not> has_flag m ES_READABLE"
  "has_flag (a AND NOT m) ES_WRITABLE \<longleftrightarrow> has_flag a ES_WRITABLE \<and> \<not> has_flag m ES_WRITABLE"
  by (simp_all add: has_flag_bit bit_simps)

lemma masks_ok_other:
  "masks_ok l i \<Longrightarrow> i \<noteq> nat fd \<Longrightarrow> 0 \<le> fd \<Longrightarrow>
    masks_ok (l\<lparr>fileEvents := (fileEvents l)[nat fd := e],
      rfds := (if b then rfds l - {fd} else rfds l), wfds := (if c then wfds l - {fd} else wfds l)\<rparr>) i"
  by (auto simp: masks_ok_def Let_def)

lemma delete_ok:
  assumes inv: "el_inv l" and fd: "0 \<le> fd" "fd < setSize l"
    and reg: "fe_mask (fileEvents l ! nat fd) \<noteq> ES_NONE"
  shows "\<exists>l'. deleteFileEvent fd m l = Ret (l', 1) \<and> el_inv l' \<and> setSize l' = setSize l \<and>
    fileEvents l' = (fileEvents l)[nat fd := delFileProc m (fileEvents l ! nat fd)] \<and> maxfd l' \<le> maxfd l"
proof -
  let ?e = "fileEvents l ! nat fd"
  let ?l = "l\<lparr>fileEvents := (fileEvents l)[nat fd := delFileProc m ?e],
      rfds := (if has_flag m ES_READABLE then rfds l - {fd} else rfds l),
      wfds := (if has_flag m ES_WRITABLE then wfds l - {fd} else wfds l)\<rparr>"
  have len: "nat fd < length (fileEvents l)" using inv fd by (auto simp: el_inv_def)
  have "masks_ok l (nat fd)" using inv len by (simp add: el_inv_def)
  then have "fd \<le> maxfd l" using reg fd by (auto simp: masks_ok_def Let_def)
  then have small: "fd < FD_SETSIZE" using inv by (simp add: el_inv_def)
  have p: "poll_del fd m (set_event fd (delFileProc m ?e) l) = Ret ?l"
    using fd small by (auto simp: poll_del_def set_event_def)
  have d: "deleteFileEvent fd m l = Ret
      (if fd = maxfd l \<and> noneMask (delFileProc m ?e)
       then case last_used (fileEvents ?l) (nat (maxfd l)) of None \<Rightarrow> ?l | Some i \<Rightarrow> ?l\<lparr>maxfd := int i\<rparr>
       else ?l, 1)"
  proof -
    define l1 where "l1 = ?l"
    have l1: "poll_del fd m (set_event fd (delFileProc m ?e) l) = Ret l1" "maxfd l1 = maxfd l"
      using p by (simp_all add: l1_def)
    show ?thesis
      unfolding l1_def [symmetric]
      using event_at_ok [OF inv fd] fd reg l1 by (cases "fd = maxfd l") (simp_all add: deleteFileEvent_def Let_def)
  qed
  have ok: "masks_ok ?l i" if i: "i < length (fileEvents l)" for i
  proof (cases "i = nat fd")
    case True
    have old: "masks_ok l i" using inv i by (simp add: el_inv_def)
    have "(fe_mask ?e AND NOT m) AND NOT 3 = 0"
      using old True by (intro and_not_and) (simp add: masks_ok_def Let_def)
    then show ?thesis
      using old True i fd by (auto simp: masks_ok_def Let_def delFileProc_def has_flag_and_not ES_NONE_def)
  next
    case False
    with inv i fd show ?thesis by (intro masks_ok_other) (auto simp: el_inv_def)
  qed
  have inv': "el_inv ?l" using inv ok by (simp add: el_inv_def)
  show ?thesis
  proof (cases "fd = maxfd l \<and> noneMask (delFileProc m ?e)")
    case False
    then show ?thesis using d inv' by auto
  next
    case top: True
    show ?thesis
    proof (cases "last_used (fileEvents ?l) (nat (maxfd l))")
      case None
      then show ?thesis using d top inv' by auto
    next
      case (Some k)
      have k: "int k < maxfd l" "\<forall>j. k < j \<and> int j < maxfd l \<longrightarrow> noneMask (fileEvents ?l ! j)"
        using last_used_Some [OF Some] by auto
      have zero: "fe_mask (fileEvents ?l ! j) = ES_NONE" if "j < length (fileEvents l)" "k < j" for j
      proof -
        consider "int j < maxfd l" | "int j = maxfd l" | "int j > maxfd l" by linarith
        then show ?thesis
        proof cases
          case 1
          then show ?thesis using k(2) that by (simp add: noneMask_def)
        next
          case 2
          then have "j = nat fd" using top by simp
          moreover have "ES_NONE = fe_mask (delFileProc m ?e)" using top unfolding noneMask_def by (rule conjunct2)
          ultimately show ?thesis using len by simp
        next
          case 3
          then show ?thesis using ok [OF that(1)] by (simp add: masks_ok_def Let_def)
        qed
      qed
      have "el_inv (?l\<lparr>maxfd := int k\<rparr>)"
        using inv' ok zero k(1) by (auto simp: el_inv_def masks_ok_def Let_def)
      then show ?thesis using d top Some k(1) by auto
    qed
  qed
qed

section \<open>Reachable loops\<close>

text \<open>
  The ways the program changes the registrations: any proc, on any descriptor, for reading,
  writing or both; deletions, of registered or unregistered descriptors; timers.
\<close>

inductive el_step :: "'p event_loop \<Rightarrow> 'p event_loop \<Rightarrow> bool" where
  el_create: "\<lbrakk>m \<in> {1, 2, 3}; createFileEvent fd m proc d l = Ret (l', r)\<rbrakk> \<Longrightarrow> el_step l l'"
| el_delete: "deleteFileEvent fd m l = Ret (l', r) \<Longrightarrow> el_step l l'"
| el_timer: "el_step l (createTimeEvent ms proc d fin l)"
| el_stopped: "el_step l (el_stop l)"

inductive_cases el_stepE: "el_step l l'"

inductive el_reach :: "'p event_loop \<Rightarrow> 'p event_loop \<Rightarrow> bool" where
  el_refl: "el_reach l l"
| el_trans: "el_reach l l' \<Longrightarrow> el_step l' l'' \<Longrightarrow> el_reach l l''"

lemma el_inv_cong:
  "el_inv l \<Longrightarrow> fileEvents l' = fileEvents l \<Longrightarrow> setSize l' = setSize l \<Longrightarrow> maxfd l' = maxfd l \<Longrightarrow>
   rfds l' = rfds l \<Longrightarrow> wfds l' = wfds l \<Longrightarrow> el_inv l'"
  by (simp add: el_inv_def masks_ok_def)

lemma el_step_inv:
  assumes "el_step l l'" and "el_inv l"
  shows "el_inv l'"
  using assms
proof (cases rule: el_step.cases)
  case (el_create m fd proc d r)
  have m: "m AND NOT 3 = 0" "has_flag m ES_READABLE \<or> has_flag m ES_WRITABLE" using el_create(1) by (auto simp: has_flag_bit)
  consider "\<not> fd < setSize l" | "fd < setSize l" "\<not> (0 \<le> fd \<and> fd < FD_SETSIZE)" | "0 \<le> fd" "fd < setSize l" "fd < FD_SETSIZE"
    by blast
  then show ?thesis
  proof cases
    case 1
    then show ?thesis using el_create(2) assms(2) by (auto simp: createFileEvent_def)
  next
    case 2
    then have False using el_create(2) m(2) by (auto simp: createFileEvent_def poll_add_def res_bind_eq_Ret)
    then show ?thesis ..
  next
    case 3
    from create_ok [OF assms(2) 3 m(1), of proc d] el_create(2) show ?thesis by auto
  qed
next
  case (el_delete fd m r)
  show ?thesis
  proof (cases "0 \<le> fd \<and> fd < setSize l \<and> fe_mask (fileEvents l ! nat fd) \<noteq> ES_NONE")
    case True
    with delete_ok [OF assms(2), of fd m] el_delete show ?thesis by auto
  next
    case False
    have "l' = l"
    proof (cases "0 \<le> fd \<and> fd < setSize l")
      case True
      then show ?thesis using el_delete False event_at_ok [OF assms(2), of fd] by (auto simp: deleteFileEvent_def)
    next
      case out: False
      then have "fd \<le> setSize l \<longrightarrow> event_at fd l = Fault OutOfBounds"
        using assms(2) by (auto simp: event_at_def el_inv_def)
      then show ?thesis using el_delete by (auto simp: deleteFileEvent_def split: if_splits)
    qed
    with assms(2) show ?thesis by simp
  qed
next
  case (el_timer ms proc d fin)
  then show ?thesis using assms(2) by (auto intro: el_inv_cong simp: createTimeEvent_def)
next
  case el_stopped
  then show ?thesis using assms(2) by (auto intro: el_inv_cong simp: el_stop_def)
qed

lemma el_reach_inv: "el_reach l l' \<Longrightarrow> el_inv l \<Longrightarrow> el_inv l'"
  by (induction rule: el_reach.induct) (auto intro: el_step_inv)

section \<open>Polling\<close>

lemma poll_loop_ok:
  assumes inv: "el_inv l" and "\<forall>i \<in> set is. 0 \<le> i \<and> i < setSize l"
  shows "poll_loop rs ws l is = Ret (map (\<lambda>i. (i, fired_mask (fe_mask (fileEvents l ! nat i)) (i \<in> rs) (i \<in> ws)))
    (filter (\<lambda>i. fired_mask (fe_mask (fileEvents l ! nat i)) (i \<in> rs) (i \<in> ws) \<noteq> ES_NONE) is))"
  using assms(2)
proof (induction "is")
  case (Cons i "is")
  then show ?case using event_at_ok [OF inv, of i] by (simp add: getFileEvents_def Let_def)
qed simp

lemma poll_ok:
  assumes inv: "el_inv l" and r: "retval > 0" "rs \<subseteq> rfds l" "ws \<subseteq> wfds l"
  shows "\<exists>fs. poll (retval, rs, ws) l = Ret fs \<and> sorted_wrt (<) (map fst fs) \<and>
    (\<forall>i m. (i, m) \<in> set fs \<longleftrightarrow> 0 \<le> i \<and> i < setSize l \<and> (i \<in> rs \<or> i \<in> ws) \<and>
       m = ((if i \<in> rs then ES_READABLE else ES_NONE) OR (if i \<in> ws then ES_WRITABLE else ES_NONE)))"
proof -
  let ?m = "\<lambda>i. fired_mask (fe_mask (fileEvents l ! nat i)) (i \<in> rs) (i \<in> ws)"
  let ?fs = "map (\<lambda>i. (i, ?m i)) (filter (\<lambda>i. ?m i \<noteq> ES_NONE) [0..maxfd l])"
  have "poll (retval, rs, ws) l = Ret ?fs"
    using poll_loop_ok [OF inv, of "[0..maxfd l]" rs ws] inv r by (auto simp: poll_def el_inv_def)
  moreover have "sorted_wrt (<) (map fst ?fs)"
    by (simp add: comp_def sorted_wrt_filter)
  moreover have "(i, m) \<in> set ?fs \<longleftrightarrow> 0 \<le> i \<and> i < setSize l \<and> (i \<in> rs \<or> i \<in> ws) \<and>
       m = ((if i \<in> rs then ES_READABLE else ES_NONE) OR (if i \<in> ws then ES_WRITABLE else ES_NONE))" for i m
  proof (cases "0 \<le> i \<and> i < setSize l")
    case True
    then have "masks_ok l (nat i)" using inv by (auto simp: el_inv_def)
    then have "i \<in> rs \<longrightarrow> has_flag (fe_mask (fileEvents l ! nat i)) ES_READABLE"
      "i \<in> ws \<longrightarrow> has_flag (fe_mask (fileEvents l ! nat i)) ES_WRITABLE"
      "maxfd l < i \<longrightarrow> fe_mask (fileEvents l ! nat i) = ES_NONE"
      using r True by (auto simp: masks_ok_def Let_def)
    then show ?thesis using True by (auto simp: fired_mask_none) (auto simp: fired_mask_def)
  next
    case False
    then show ?thesis using inv by (auto simp: el_inv_def)
  qed
  ultimately show ?thesis by blast
qed

section \<open>The procs of other components\<close>

text \<open>
  The interface: whatever a registered proc does, it does it through the operations above, so that an
  invariant \<open>inv\<close> of the loop and the rest of the program, which implies the loop's own, is kept when
  the proc runs on the argument it was registered with.
\<close>

locale file_procs =
  fixes inv :: "'p event_loop \<times> 'w \<Rightarrow> bool"
    and run :: "'p \<Rightarrow> int \<Rightarrow> nat option \<Rightarrow> flags \<Rightarrow> 'p event_loop \<times> 'w \<Rightarrow> ('p event_loop \<times> 'w) res"
  assumes inv_loop: "inv (l, w) \<Longrightarrow> el_inv l"
    and run_inv: "\<lbrakk>inv (l, w); e \<in> set (fileEvents l); rfileProc e = Some p \<or> wfileProc e = Some p;
      run p fd (fe_privdata e) m (l, w) = Ret (l', w')\<rbrakk> \<Longrightarrow> inv (l', w')"
begin

lemma event_at_set: "event_at fd l = Ret e \<Longrightarrow> e \<in> set (fileEvents l)"
  by (auto simp: event_at_def split: if_splits)

lemma call_inv:
  assumes "inv (l, w)" "e \<in> set (fileEvents l)" "p = rfileProc e \<or> p = wfileProc e"
    and "call_proc run p fd (fe_privdata e) m (l, w) = Ret (l', w')"
  shows "inv (l', w')"
proof -
  obtain f where "p = Some f" "run f fd (fe_privdata e) m (l, w) = Ret (l', w')"
    using assms(4) by (auto simp: call_proc_def split: option.splits)
  then show ?thesis using run_inv [OF assms(1,2)] assms(3) by metis
qed

lemma process_inv:
  assumes "inv (l, w)" and "fe_process run fd m (l, w) = Ret (l', w')"
  shows "inv (l', w')"
proof -
  obtain e l1 w1 where e: "event_at fd l = Ret e"
    "(if has_flag m ES_READABLE then call_proc run (rfileProc e) (fe_fd e) (fe_privdata e) m (l, w) else Ret (l, w)) =
       Ret (l1, w1)"
    using assms(2) by (auto simp: fe_process_def res_bind_eq_Ret)
  have l1: "inv (l1, w1)"
  proof (cases "has_flag m ES_READABLE")
    case True
    then have "call_proc run (rfileProc e) (fe_fd e) (fe_privdata e) m (l, w) = Ret (l1, w1)" using e by simp
    then show ?thesis using call_inv [OF assms(1) event_at_set [OF e(1)]] by blast
  qed (use e assms(1) in simp)
  show ?thesis
  proof (cases "has_flag m ES_WRITABLE")
    case False
    then show ?thesis using l1 e assms(2) by (auto simp: fe_process_def)
  next
    case True
    then obtain e1 where e1: "event_at fd l1 = Ret e1"
      "(if wfileProc e1 \<noteq> rfileProc e1 \<or> \<not> has_flag m ES_READABLE
        then call_proc run (wfileProc e1) (fe_fd e1) (fe_privdata e1) m (l1, w1) else Ret (l1, w1)) = Ret (l', w')"
      using e assms(2) by (auto simp: fe_process_def res_bind_eq_Ret)
    show ?thesis
    proof (cases "wfileProc e1 \<noteq> rfileProc e1 \<or> \<not> has_flag m ES_READABLE")
      case True
      then have "call_proc run (wfileProc e1) (fe_fd e1) (fe_privdata e1) m (l1, w1) = Ret (l', w')" using e1 by simp
      then show ?thesis using call_inv [OF l1 event_at_set [OF e1(1)]] by blast
    next
      case False
      then show ?thesis using e1 l1 by auto
    qed
  qed
qed

lemma fired_inv: "inv (l, w) \<Longrightarrow> process_fired run fs (l, w) = Ret (l', w') \<Longrightarrow> inv (l', w')"
proof (induction fs arbitrary: l w)
  case (Cons f fs)
  obtain fd m where f: "f = (fd, m)" by force
  then obtain l1 w1 where "fe_process run fd m (l, w) = Ret (l1, w1)" "process_fired run fs (l1, w1) = Ret (l', w')"
    using Cons.prems(2) by (auto simp: res_bind_eq_Ret)
  then show ?case using Cons.IH process_inv Cons.prems(1) by blast
qed simp

end

text \<open>
  The hooks of the hiredis contexts: their procs are registered with a null argument, so that they
  never reach hiredis, whatever \<open>redis\<close> would do.
\<close>

definition async_inv :: "async_proc event_loop \<Rightarrow> bool" where
  "async_inv l \<longleftrightarrow> el_inv l \<and>
     (\<forall>e \<in> set (fileEvents l). rfileProc e \<noteq> None \<or> wfileProc e \<noteq> None \<longrightarrow> fe_privdata e = None)"

interpretation async_procs: file_procs "\<lambda>s. async_inv (fst s)" "run_async redis"
proof
  fix l :: "async_proc event_loop" and w :: 'a assume "async_inv (fst (l, w))"
  then show "el_inv l" by (simp add: async_inv_def)
next
  fix l l' :: "async_proc event_loop" and e p fd m and w w' :: 'a
  assume i: "async_inv (fst (l, w))" and e: "e \<in> set (fileEvents l)" "rfileProc e = Some p \<or> wfileProc e = Some p"
    and r: "run_async redis p fd (fe_privdata e) m (l, w) = Ret (l', w')"
  from i e have "fe_privdata e = None" by (auto simp: async_inv_def)
  with r i show "async_inv (fst (l', w'))" by (simp add: run_async_def)
qed

lemma async_never:
  assumes "async_inv l" and "process_fired (run_async redis) fs (l, w) = Ret s"
  shows "s = (l, w)"
  using assms(2)
proof (induction fs)
  case (Cons f fs)
  obtain fd m where f: "f = (fd, m)" by force
  have c: "call_proc (run_async redis) p fd' (fe_privdata e) m' (l, w) \<in> {Fault UninitRead, Ret (l, w)}"
    if "e \<in> set (fileEvents l)" "p = rfileProc e \<or> p = wfileProc e" for e p fd' m'
    using assms(1) that by (cases p) (auto simp: call_proc_def run_async_def async_inv_def)
  obtain e where e: "event_at fd l = Ret e"
    using Cons.prems f by (auto simp: fe_process_def res_bind_eq_Ret)
  then have es: "e \<in> set (fileEvents l)" by (rule async_procs.event_at_set)
  have "fe_process (run_async redis) fd m (l, w) \<in> {Fault UninitRead, Ret (l, w)}"
    using e c [OF es, of "rfileProc e" "fe_fd e" m] c [OF es, of "wfileProc e" "fe_fd e" m]
    by (cases "wfileProc e = rfileProc e") (auto simp: fe_process_def)
  then show ?case using Cons f by (auto simp: res_bind_eq_Ret)
qed simp

section \<open>Timers\<close>

text \<open>
  What a pass over the timers is to do: call the procs of the given timers once each, in order, with the
  ids and client data of the timers, each in the world the one before left. A proc that does not ask to be
  called again ends the pass, because the loop then steps from the timer it has erased.
\<close>

fun run_procs ::
  "('p \<Rightarrow> 64 word \<Rightarrow> nat option \<Rightarrow> 'w \<Rightarrow> ('w \<times> int) res) \<Rightarrow> 'p time_event list \<Rightarrow> 'w \<Rightarrow> ('w \<times> int list) res" where
  "run_procs run [] w = Ret (w, [])"
| "run_procs run (e # es) w =
     res_bind (run (timeProc e) (te_id e) (te_clientData e) w) (\<lambda>(w, r).
       if r > 0 then res_bind (run_procs run es w) (\<lambda>(w, rs). Ret (w, r # rs))
       else Fault UseAfterFree)"

abbreviation due :: "int \<Rightarrow> 'p time_event \<Rightarrow> bool" where
  "due nowt e \<equiv> te_when e < nowt"

text \<open>The timers in their places, the due ones with their next times.\<close>

fun rescheduled :: "int \<Rightarrow> 'p time_event list \<Rightarrow> int list \<Rightarrow> 'p time_event list" where
  "rescheduled nowt [] rs = []"
| "rescheduled nowt (e # es) rs =
     (if due nowt e then e\<lparr>te_when := nowt + hd rs\<rparr> # rescheduled nowt es (tl rs)
      else e # rescheduled nowt es rs)"

lemma time_loop_procs:
  "time_loop run nowt es w =
     res_bind (run_procs run (filter (due nowt) es) w) (\<lambda>(w, rs).
       Ret (rescheduled nowt es rs, w, length (filter (due nowt) es), filter (due nowt) es \<noteq> []))"
proof (induction es arbitrary: w)
  case (Cons e es)
  show ?case
  proof (cases "due nowt e")
    case True
    show ?thesis
    proof (cases "run (timeProc e) (te_id e) (te_clientData e) w")
      case (Ret wr)
      obtain w1 r where "wr = (w1, r)" by force
      then show ?thesis using Ret True Cons [of w1]
        by (cases "run_procs run (filter (due nowt) es) w1") (auto split: prod.splits)
    qed (use True in simp)
  next
    case False
    then show ?thesis using Cons [of w]
      by (cases "run_procs run (filter (due nowt) es) w") (auto split: prod.splits)
  qed
qed simp

lemma run_procs_results:
  "run_procs run es w = Ret (w', rs) \<Longrightarrow> length rs = length es \<and> (\<forall>r \<in> set rs. r > 0)"
  by (induction es arbitrary: w rs) (auto simp: res_bind_eq_Ret split: if_splits)

lemma rescheduled_ok:
  "length rs = length (filter (due nowt) es) \<Longrightarrow> \<forall>r \<in> set rs. r > 0 \<Longrightarrow>
    mset (rescheduled nowt es rs) = mset (filter (\<lambda>e. \<not> due nowt e) es) +
      mset (map2 (\<lambda>e r. e\<lparr>te_when := nowt + r\<rparr>) (filter (due nowt) es) rs) \<and>
    (\<forall>e \<in> set (rescheduled nowt es rs). te_when e \<ge> nowt)"
proof (induction nowt es rs rule: rescheduled.induct)
  case (2 nowt e es rs)
  show ?case
  proof (cases "due nowt e")
    case True
    then obtain r rs' where "rs = r # rs'" using 2(3) by (cases rs) auto
    then show ?thesis using 2 True by simp
  next
    case False
    then show ?thesis using 2 by simp
  qed
qed simp

lemma rescheduled_none: "filter (due nowt) es = [] \<Longrightarrow> rescheduled nowt es rs = es"
  by (induction nowt es rs rule: rescheduled.induct) (auto split: if_splits)

text \<open>The timers as a pass finds them: a clock that was set back makes the code forget their times.\<close>

definition pass_timers :: "int \<Rightarrow> 'p event_loop \<Rightarrow> 'p time_event list" where
  "pass_timers nowt l =
     (if nowt < lastTime l then map (\<lambda>e. e\<lparr>te_when := 0\<rparr>) (timeEvents l) else timeEvents l)"

lemma pass_timers_sorted: "sorted (map te_when (timeEvents l)) \<Longrightarrow> sorted (map te_when (pass_timers nowt l))"
proof -
  have "sorted (map (\<lambda>x. 0 :: int) es)" for es :: "'a time_event list" by (induction es) auto
  then show "sorted (map te_when (timeEvents l)) \<Longrightarrow> sorted (map te_when (pass_timers nowt l))"
    by (simp add: pass_timers_def comp_def)
qed

lemma timers_fault:
  "run_procs run (filter (due nowt) (pass_timers nowt l)) w = Fault e \<Longrightarrow> processTimeEvents run nowt (l, w) = Fault e"
  by (simp add: processTimeEvents_def pass_timers_def [symmetric] time_loop_procs)

lemma timers_ok:
  assumes s: "sorted (map te_when (timeEvents l))"
    and r: "run_procs run (filter (due nowt) (pass_timers nowt l)) w = Ret (w', rs)"
  shows "\<exists>es'. processTimeEvents run nowt (l, w) =
      Ret ((l\<lparr>timeEvents := es'\<rparr>, w'), length (filter (due nowt) (pass_timers nowt l))) \<and>
    mset es' = mset (filter (\<lambda>e. \<not> due nowt e) (pass_timers nowt l)) +
      mset (map2 (\<lambda>e r. e\<lparr>te_when := nowt + r\<rparr>) (filter (due nowt) (pass_timers nowt l)) rs) \<and>
    (\<forall>e \<in> set es'. te_when e \<ge> nowt) \<and> sorted (map te_when es')"
proof -
  let ?es = "pass_timers nowt l"
  let ?b = "filter (due nowt) ?es \<noteq> []"
  let ?es' = "if ?b then sort_key te_when (rescheduled nowt ?es rs) else rescheduled nowt ?es rs"
  have "processTimeEvents run nowt (l, w) = Ret ((l\<lparr>timeEvents := ?es'\<rparr>, w'), length (filter (due nowt) ?es))"
    by (simp add: processTimeEvents_def pass_timers_def [symmetric] time_loop_procs r Let_def)
  moreover have "sorted (map te_when ?es')"
    using pass_timers_sorted [OF s, of nowt] rescheduled_none [of nowt ?es rs] by (cases ?b) simp_all
  moreover have "mset ?es' = mset (rescheduled nowt ?es rs)" "set ?es' = set (rescheduled nowt ?es rs)" by simp_all
  ultimately show ?thesis
    using rescheduled_ok [of rs nowt ?es] run_procs_results [OF r] by (intro exI [of _ ?es']) metis
qed

lemma timeout_ok:
  assumes "timeEvents l = e # es" and "nowt < te_when e"
  shows "\<exists>sec usec. poll_timeout fl nowt l = Some (sec, usec) \<and> usec < 1000 \<and>
    sec * 1000000 + usec \<le> (te_when e - nowt) * 1000 \<and>
    (sec * 1000000 + usec = (te_when e - nowt) * 1000 \<longleftrightarrow> (te_when e - nowt) mod 1000 = 0)"
proof -
  define d where "d = te_when e - nowt"
  define q r where "q = d div 1000" and "r = d mod 1000"
  have "d = q * 1000 + r" "0 \<le> r" "r < 1000" by (simp_all add: q_def r_def)
  then have "q * 1000000 + r \<le> d * 1000" "q * 1000000 + r = d * 1000 \<longleftrightarrow> r = 0" "r < 1000" by auto
  moreover have "poll_timeout fl nowt l = Some (q, r)"
    using assms by (simp add: poll_timeout_def q_def r_def d_def)
  ultimately show ?thesis by (auto simp: d_def r_def)
qed

section \<open>A sample loop\<close>

definition blank_event :: "async_proc file_event" where
  "blank_event = \<lparr>fe_fd = 0, fe_mask = 0, fe_privdata = None, rfileProc = None, wfileProc = None\<rparr>"

definition sample_loop :: "async_proc event_loop" where
  "sample_loop = (new_loop (\<lambda>_. blank_event) 0 4)
     \<lparr>maxfd := 2, fileEvents := [blank_event, blank_event\<lparr>fe_fd := 1\<rparr>,
        blank_event\<lparr>fe_fd := 2, fe_mask := 1, rfileProc := Some HandleRead\<rparr>, blank_event\<lparr>fe_fd := 3\<rparr>],
      rfds := {2}\<rparr>"

lemma sample_loop_created:
  "createFileEvent 2 1 HandleRead None (new_loop (\<lambda>_. blank_event) 0 4) = Ret (sample_loop, 1)"
proof -
  have "[0..<4] = [0, 1, 2, 3 :: nat]" by (simp add: upt_rec)
  moreover have "has_flag 1 ES_READABLE" "\<not> has_flag 1 ES_WRITABLE"
    by (simp_all add: has_flag_def ES_READABLE_def ES_WRITABLE_def)
  ultimately show ?thesis
    by (simp add: createFileEvent_def new_loop_def sample_loop_def event_at_def poll_add_def set_event_def
      addFileProc_def FD_SETSIZE_def blank_event_def)
qed

lemma sample_loop_reach: "el_reach (new_loop (\<lambda>_. blank_event) 0 4) sample_loop"
  by (rule el_trans [OF el_refl el_create [OF _ sample_loop_created]]) simp_all

lemma sample_loop_inv: "el_inv sample_loop"
  by (rule el_reach_inv [OF sample_loop_reach], rule new_loop_inv)
    (simp_all add: blank_event_def ES_NONE_def FD_SETSIZE_def)

section \<open>Properties\<close>

text \<open>
  C5 Invariant of the event loop: in every state reached by registering and deleting file events and
  timers, the two select sets hold exactly the descriptors whose mask has the bit, a set bit has a
  proc, no descriptor above the maximum is registered, and the maximum is within the table. It needs
  what the constructor does not ensure: masks that start at zero.
\<close>

theorem event_loop_invariant:
  assumes "el_reach (new_loop raw nowt n) l" and "\<forall>i < n. fe_mask (raw i) = ES_NONE"
  shows "el_inv l"
  using el_reach_inv [OF assms(1) new_loop_inv [OF assms(2)]] .

theorem event_loop_invariant_witness: "el_inv sample_loop"
  by (rule event_loop_invariant [OF sample_loop_reach])
    (simp_all add: blank_event_def ES_NONE_def FD_SETSIZE_def)

text \<open>
  C19 When the invariant holds and select succeeds, polling reports, in increasing order and once each,
  exactly the descriptors that select left in one of its sets, with the bits of the sets they are in.
\<close>

theorem poll_reports_ready:
  assumes "el_inv l" and "retval > 0" "rs \<subseteq> rfds l" "ws \<subseteq> wfds l"
  shows "\<exists>fs. poll (retval, rs, ws) l = Ret fs \<and> sorted_wrt (<) (map fst fs) \<and>
    (\<forall>i m. (i, m) \<in> set fs \<longleftrightarrow> 0 \<le> i \<and> i < setSize l \<and> (i \<in> rs \<or> i \<in> ws) \<and>
       m = ((if i \<in> rs then ES_READABLE else ES_NONE) OR (if i \<in> ws then ES_WRITABLE else ES_NONE)))"
  using assms by (rule poll_ok)

theorem poll_reports_ready_witness:
  "\<exists>fs. poll (1, {2}, {}) sample_loop = Ret fs \<and> set fs = {(2, ES_READABLE)}"
proof -
  have "{2} \<subseteq> rfds sample_loop" "setSize sample_loop = 4" by (simp_all add: sample_loop_def new_loop_def)
  then obtain fs where f: "poll (1, {2}, {}) sample_loop = Ret fs"
    "\<forall>i m. (i, m) \<in> set fs \<longleftrightarrow> 0 \<le> i \<and> i < 4 \<and> i = 2 \<and>
       m = ((if i = 2 then ES_READABLE else ES_NONE) OR ES_NONE)"
    using poll_reports_ready [OF sample_loop_inv, of 1 "{2}" "{}"] by auto
  then have "set fs = {(2, ES_READABLE)}" by (auto simp: ES_NONE_def split: if_splits)
  with f show ?thesis by blast
qed

text \<open>
  C28 A pass over the timers calls the procs of exactly the due timers, once each and in the order of the
  list, which is that of their times: it ends in the world that running these procs leaves, keeps the timers
  that are not due as they are, gives each due one the time its own proc asked for, loses none, and
  leaves them sorted, none before the time of the pass. If one of the procs faults or does not ask
  to be called again, the pass faults in the same way (the loop steps from a timer it has erased). A
  clock that reads less than at the start of the loop (the field is never updated) counts as 0 for
  every timer, so that all are due.
\<close>

theorem timers_rescheduled:
  assumes "sorted (map te_when (timeEvents l))"
    and "es = (if nowt < lastTime l then map (\<lambda>e. e\<lparr>te_when := 0\<rparr>) (timeEvents l) else timeEvents l)"
  shows "case run_procs run (filter (\<lambda>e. te_when e < nowt) es) w of
      Fault e \<Rightarrow> processTimeEvents run nowt (l, w) = Fault e
    | Ret (w', rs) \<Rightarrow> \<exists>es'.
        processTimeEvents run nowt (l, w) = Ret ((l\<lparr>timeEvents := es'\<rparr>, w'), length (filter (\<lambda>e. te_when e < nowt) es)) \<and>
        mset es' = mset (filter (\<lambda>e. \<not> te_when e < nowt) es) +
          mset (map2 (\<lambda>e r. e\<lparr>te_when := nowt + r\<rparr>) (filter (\<lambda>e. te_when e < nowt) es) rs) \<and>
        (\<forall>e \<in> set es'. te_when e \<ge> nowt) \<and> sorted (map te_when es')"
  using timers_fault [of run nowt l w] timers_ok [OF assms(1), of run nowt w]
  unfolding assms(2) pass_timers_def [symmetric] by (auto split: res.split)

theorem timers_rescheduled_witness:
  "\<exists>es'. processTimeEvents (\<lambda>p i d w. Ret (w @ [i], 100)) 50
      (createTimeEvent 10 HandleRead None None sample_loop, []) =
    Ret (((createTimeEvent 10 HandleRead None None sample_loop)\<lparr>timeEvents := es'\<rparr>, [0]), 1) \<and>
    map te_when es' = [150]"
proof -
  let ?l = "createTimeEvent 10 HandleRead None None sample_loop"
  have l: "timeEvents ?l = [\<lparr>te_id = 0, te_when = 10, timeProc = HandleRead, finalizerProc = None, te_clientData = None\<rparr>]"
    "\<not> 50 < lastTime ?l"
    by (simp_all add: createTimeEvent_def sample_loop_def new_loop_def)
  have "sorted (map te_when (timeEvents ?l))" by (simp add: l)
  from timers_rescheduled [OF this HOL.refl, where nowt = 50 and run = "\<lambda>p i d w. Ret (w @ [i], 100)" and w = "[]"] show ?thesis
    by (auto simp: l)
qed

text \<open>
  The procs that the hiredis hooks register never do anything: they are registered with a null
  argument and return at once when it is null, so no reply of a monitored instance is ever read.
\<close>

lemma async_never_reads:
  assumes "async_inv l" and "process_fired (run_async redis) fs (l, w) = Ret s"
  shows "s = (l, w)"
  using assms by (rule async_never)

text \<open>
  The wait for the next timer, as select understands it, is never longer than the distance to the
  timer, but the milliseconds beyond full seconds are passed as microseconds: it is right only for
  distances of whole seconds.
\<close>

lemma poll_timeout_short:
  assumes "timeEvents l = e # es" and "nowt < te_when e"
  shows "\<exists>sec usec. poll_timeout fl nowt l = Some (sec, usec) \<and> usec < 1000 \<and>
    sec * 1000000 + usec \<le> (te_when e - nowt) * 1000 \<and>
    (sec * 1000000 + usec = (te_when e - nowt) * 1000 \<longleftrightarrow> (te_when e - nowt) mod 1000 = 0)"
  using assms by (rule timeout_ok)

end

