(* ===== verification/ServerInv.thy ===== *)
theory ServerInv imports Commands EventFacts begin

text \<open>
  The invariant of the server side: what holds in every state the process can reach through its file
  procs, the flushing of replies before each sleep and the cron. The collection \<open>sv_keep\<close> holds, for
  every operation, that it keeps the invariant. The theory also interprets the interface
  \<open>file_procs\<close> of the event loop on the file procs of the clients.
\<close>

named_theorems sv_keep "operations that keep the server invariant"

section \<open>The invariant\<close>

text \<open>
  A client never has a reply list, and its output buffer is within its bounds; no client is ever
  subscribed. Every registered client is a known object, under its own descriptor (or one it has
  lost), within the event table; there are at most \<open>maxClients\<close>; the command table still means what
  it was filled with.
\<close>

definition client_ok :: "fly_client \<Rightarrow> bool" where
  "client_ok x \<longleftrightarrow> replies x = [] \<and> out_inv x \<and> fc_channels x = [] \<and> fc_patterns x = []"

definition known :: "server \<Rightarrow> cid list \<Rightarrow> bool" where
  "known s cs \<longleftrightarrow> (\<forall>c \<in> set cs. c < length (objs s))"

definition registered_ok :: "fly_client list \<Rightarrow> int \<Rightarrow> (int, cid) omap \<Rightarrow> bool" where
  "registered_ok xs n m \<longleftrightarrow> omap m \<and>
     (\<forall>(fd, c) \<in> set m. c < length xs \<and> 0 < fd \<and> fd < n \<and> fc_fd (xs ! c) \<in> {fd, -1})"

definition table_ok :: "(string \<Rightarrow> nat) \<Rightarrow> (string, command_entry) dict \<Rightarrow> bool" where
  "table_ok hash d \<longleftrightarrow> dict_ok hash d \<and> dict_abs d = map_of registered"

definition sv_inv :: "(string \<Rightarrow> nat) \<Rightarrow> server \<Rightarrow> bool" where
  "sv_inv hash s \<longleftrightarrow>
     (\<forall>x \<in> set (objs s). client_ok x) \<and> registered_ok (objs s) (setSize (sv_loop s)) (clients s) \<and>
     length (clients s) \<le> maxClients s \<and> known s (clientsPendingWrite s) \<and> known s (clientsToClose s) \<and>
     el_inv (sv_loop s) \<and> chans s = [] \<and> pats s = [] \<and> table_ok hash (commands s)"

text \<open>For the proofs: the invariant, and the descriptors that are to stay registered.\<close>

definition sv_kinv :: "(string \<Rightarrow> nat) \<Rightarrow> int set \<Rightarrow> server \<Rightarrow> bool" where
  "sv_kinv hash K s \<longleftrightarrow> sv_inv hash s \<and> K \<subseteq> fst ` set (clients s)"

lemma sv_obj: "sv_kinv h K s \<Longrightarrow> obj s c = Ret x \<Longrightarrow> client_ok x"
  by (auto simp: sv_kinv_def sv_inv_def obj_def split: if_splits)

lemma registered_upd:
  assumes "registered_ok xs n m" and "fc_fd y \<in> {fc_fd (xs ! c), -1}"
  shows "registered_ok (xs[c := y]) n m"
proof -
  have m: "d < length xs \<and> 0 < fd \<and> fd < n \<and> fc_fd (xs ! d) \<in> {fd, -1}" if "(fd, d) \<in> set m" for fd d
    using assms(1) that by (auto simp: registered_ok_def)
  have "d < length (xs[c := y]) \<and> 0 < fd \<and> fd < n \<and> fc_fd (xs[c := y] ! d) \<in> {fd, -1}"
    if "(fd, d) \<in> set m" for fd d
    using m [OF that] assms(2) by (cases "d = c") auto
  then show ?thesis using assms(1) unfolding registered_ok_def by blast
qed

lemma sv_upd:
  assumes "sv_kinv h K s" and "\<And>x. obj s c = Ret x \<Longrightarrow> client_ok (f x) \<and> fc_fd (f x) \<in> {fc_fd x, -1}"
  shows "sv_kinv h K (upd_obj c f s)"
proof (cases "c < length (objs s)")
  case True
  then have f: "client_ok (f (objs s ! c))" "fc_fd (f (objs s ! c)) \<in> {fc_fd (objs s ! c), -1}"
    using assms(2) by (auto simp: obj_def)
  have "\<forall>x \<in> set ((objs s)[c := f (objs s ! c)]). client_ok x"
    using assms(1) f(1) set_update_subset_insert [of "objs s" c "f (objs s ! c)"] by (auto simp: sv_kinv_def sv_inv_def)
  moreover have "registered_ok ((objs s)[c := f (objs s ! c)]) (setSize (sv_loop s)) (clients s)"
    using registered_upd [OF _ f(2)] assms(1) by (simp add: sv_kinv_def sv_inv_def)
  ultimately show ?thesis
    using assms(1) True by (simp add: sv_kinv_def sv_inv_def upd_obj_def known_def)
qed (use assms(1) in \<open>simp add: upd_obj_def\<close>)

lemma sv_upd_const:
  "sv_kinv h K s \<Longrightarrow> obj s c = Ret x \<Longrightarrow> client_ok y \<Longrightarrow> fc_fd y \<in> {fc_fd x, -1} \<Longrightarrow> sv_kinv h K (upd_obj c (\<lambda>_. y) s)"
  by (rule sv_upd) auto

text \<open>Fields the invariant does not speak of, and lists of known clients.\<close>

lemma sv_fields [simp]:
  "sv_kinv h K (s\<lparr>net_out := a\<rparr>) = sv_kinv h K s" "sv_kinv h K (s\<lparr>closed_fds := b\<rparr>) = sv_kinv h K s"
  "sv_kinv h K (s\<lparr>statRejectedConn := w\<rparr>) = sv_kinv h K s" "sv_kinv h K (s\<lparr>clientMaxQuerybufLen := w\<rparr>) = sv_kinv h K s"
  "sv_kinv h K (s\<lparr>cronloops := w\<rparr>) = sv_kinv h K s" "sv_kinv h K (s\<lparr>sv_nowt := t\<rparr>) = sv_kinv h K s"
  "sv_kinv h K (s\<lparr>sn := x\<rparr>) = sv_kinv h K s" "sv_kinv h K (s\<lparr>nextClientId := w\<rparr>) = sv_kinv h K s"
  by (simp_all add: sv_kinv_def sv_inv_def known_def)

lemma sv_lists:
  "sv_kinv h K s \<Longrightarrow> known s cs \<Longrightarrow> sv_kinv h K (s\<lparr>clientsPendingWrite := cs\<rparr>)"
  "sv_kinv h K s \<Longrightarrow> known s cs \<Longrightarrow> sv_kinv h K (s\<lparr>clientsToClose := cs\<rparr>)"
  by (simp_all add: sv_kinv_def sv_inv_def known_def)

lemma sv_known: "sv_kinv h K s \<Longrightarrow> known s (clientsPendingWrite s) \<and> known s (clientsToClose s)"
  by (simp add: sv_kinv_def sv_inv_def)

lemma sv_loop_upd: "sv_kinv h K s \<Longrightarrow> el_inv l \<Longrightarrow> setSize l = setSize (sv_loop s) \<Longrightarrow> sv_kinv h K (s\<lparr>sv_loop := l\<rparr>)"
  by (simp add: sv_kinv_def sv_inv_def known_def)

lemma sv_getFlyClient: "sv_kinv h K s \<Longrightarrow> getFlyClient fd s = Some c \<Longrightarrow> c < length (objs s)"
  by (auto simp: getFlyClient_def sv_kinv_def sv_inv_def registered_ok_def dest!: map_of_SomeD)

lemma known_remove: "known s cs \<Longrightarrow> known s (remove_fd xs fd cs)"
  by (induction xs fd cs rule: remove_fd.induct) (auto simp: known_def)

lemma create_setSize: "createFileEvent fd m p d l = Ret (l', r) \<Longrightarrow> setSize l' = setSize l"
  by (auto simp: createFileEvent_def poll_add_def set_event_def res_bind_eq_Ret split: if_splits)

lemma delete_setSize: "deleteFileEvent fd m l = Ret (l', r) \<Longrightarrow> setSize l' = setSize l"
  by (auto simp: deleteFileEvent_def poll_del_def set_event_def res_bind_eq_Ret Let_def
      split: if_splits option.splits)

lemma sv_create:
  "sv_kinv h K s \<Longrightarrow> createFileEvent fd m p d (sv_loop s) = Ret (l, r) \<Longrightarrow> m \<in> {1, 2, 3} \<Longrightarrow> sv_kinv h K (s\<lparr>sv_loop := l\<rparr>)"
  using el_step_inv [OF el_create [of m fd p d "sv_loop s" l r]] create_setSize by (intro sv_loop_upd) (auto simp: sv_kinv_def sv_inv_def)

lemma sv_delete:
  "sv_kinv h K s \<Longrightarrow> deleteFileEvent fd m (sv_loop s) = Ret (l, r) \<Longrightarrow> sv_kinv h K (s\<lparr>sv_loop := l\<rparr>)"
  using el_step_inv [OF el_delete [of fd m "sv_loop s" l r]] delete_setSize by (intro sv_loop_upd) (auto simp: sv_kinv_def sv_inv_def)

section \<open>Clients\<close>

lemma client_ok_fields [simp]:
  "client_ok (fc_addFlag f x) = client_ok x" "client_ok (fc_delFlag f x) = client_ok x"
  "fc_fd (fc_addFlag f x) = fc_fd x" "fc_fd (fc_delFlag f x) = fc_fd x"
  "client_ok (x\<lparr>fc_flags := fl\<rparr>) = client_ok x" "client_ok (x\<lparr>fc_fd := fd\<rparr>) = client_ok x"
  "client_ok (x\<lparr>reqType := r\<rparr>) = client_ok x" "client_ok (x\<lparr>multiBulkLen := n\<rparr>) = client_ok x"
  "client_ok (x\<lparr>lastInteractionTime := t\<rparr>) = client_ok x" "client_ok (x\<lparr>queryBuf := q\<rparr>) = client_ok x"
  "client_ok (x\<lparr>fc_id := i\<rparr>) = client_ok x" "client_ok (x\<lparr>argv := a\<rparr>) = client_ok x"
  "client_ok (allocArgv k x) = client_ok x" "fc_fd (allocArgv k x) = fc_fd x"
  by (simp_all add: client_ok_def out_inv_def fc_addFlag_def fc_delFlag_def allocArgv_def freeArgv_def
      cong: list.case_cong)

lemma client_ok_new: "client_ok (new_client fd t)"
  by (simp add: client_ok_def out_inv_def new_client_def)

lemma client_ok_trim: "trimQueryBuf n x = Ret y \<Longrightarrow> client_ok y = client_ok x \<and> fc_fd y = fc_fd x"
  by (auto simp: trimQueryBuf_def split: if_splits)

lemma client_ok_argv: "addArgv w x = Ret y \<Longrightarrow> client_ok y = client_ok x \<and> fc_fd y = fc_fd x"
  by (auto simp: addArgv_def split: option.splits if_splits)

lemma client_ok_argvs: "addArgvs ws x = Ret y \<Longrightarrow> client_ok y = client_ok x \<and> fc_fd y = fc_fd x"
proof (induction ws arbitrary: x)
  case (Cons w ws)
  then show ?case by (auto simp: res_bind_eq_Ret dest: client_ok_argv)
qed simp

lemma client_ok_buffer: "client_ok x \<Longrightarrow> addReplyToBuffer s x = (y, r) \<Longrightarrow> client_ok y \<and> fc_fd y = fc_fd x"
  by (auto simp: client_ok_def addReplyToBuffer_def out_inv_def split: if_splits)

lemma client_ok_list: "client_ok x \<Longrightarrow> addReplyToReplyList s x = Ret y \<Longrightarrow> y = x"
  by (auto simp: client_ok_def addReplyToReplyList_def split: if_splits)

lemma client_ok_advance:
  assumes "client_ok x" and "\<not> hasNoPending x" and "0 < n" and "n \<le> length (unsent x)"
  shows "client_ok (advance n x)"
proof -
  have "fc_buf x \<noteq> []" using assms(1,2) by (auto simp: client_ok_def hasNoPending_def)
  then have "replies (advance n x) = replies x" "fc_channels (advance n x) = fc_channels x"
    "fc_patterns (advance n x) = fc_patterns x"
    by (simp_all add: advance_def clearBuf_def Let_def)
  then show ?thesis using assms advance_ok [of x n] by (simp add: client_ok_def)
qed

lemma client_ok_send:
  "send_pending wr k t n x = (y, out, r) \<Longrightarrow> client_ok x \<Longrightarrow> client_ok y \<and> fc_fd y = fc_fd x"
proof (induction wr k t n x arbitrary: y out r rule: send_pending.induct)
  case (1 wr k t n x)
  let ?once = "write_ret wr k (unsent x)"
  show ?case
  proof (cases "hasNoPending x \<or> ?once \<le> 0")
    case True
    then show ?thesis using "1.prems" send_pending_stop [of x wr k t n] by (cases "hasNoPending x") auto
  next
    case False
    then have go: "\<not> hasNoPending x" "\<not> ?once \<le> 0" by auto
    have n: "0 < nat ?once" "nat ?once \<le> length (unsent x)" using go by (auto simp: write_ret_def split: if_splits)
    have ok: "client_ok (advance (nat ?once) x)" using client_ok_advance [OF "1.prems"(2) go(1) n] .
    have fd: "fc_fd (advance (nat ?once) x) = fc_fd x"
      using advance_ok [OF _ go(1) n] "1.prems"(2) by (simp add: client_ok_def)
    show ?thesis
    proof (cases "t + nat ?once > NET_MAX_WRITES_PER_EVENT")
      case True
      then show ?thesis using "1.prems" send_pending_go(1) [OF go HOL.refl True, of n] ok fd by auto
    next
      case F: False
      obtain y2 out2 r2 where s: "send_pending wr (Suc k) (t + nat ?once) ?once (advance (nat ?once) x) = (y2, out2, r2)"
        using prod_cases3 by blast
      then have "y = y2" using "1.prems"(1) send_pending_go(2) [OF go HOL.refl F s, of n] by auto
      then show ?thesis using "1.IH" [OF go(1) HOL.refl go(2) HOL.refl HOL.refl HOL.refl F s ok] fd by simp
    qed
  qed
qed

section \<open>Replies\<close>

lemma sv_pending: "sv_kinv h K s \<Longrightarrow> sv_kinv h K (addToClientsPendingToWrite fd s)"
proof (cases "getFlyClient fd s")
  case (Some c)
  assume i: "sv_kinv h K s"
  have "sv_kinv h K (upd_obj c (fc_addFlag CLIENT_PENDING_WRITE) s)"
    using sv_obj [OF i] by (intro sv_upd [OF i]) auto
  moreover have "known (upd_obj c (fc_addFlag CLIENT_PENDING_WRITE) s) (clientsPendingWrite s @ [c])"
    using sv_known [OF i] sv_getFlyClient [OF i Some] by (auto simp: known_def upd_obj_def)
  ultimately show ?thesis using i Some by (auto simp: addToClientsPendingToWrite_def intro: sv_lists)
qed (simp add: addToClientsPendingToWrite_def)

lemma sv_prepare: "sv_kinv h K s \<Longrightarrow> prepareClientToWrite c s = Ret (t, r) \<Longrightarrow> sv_kinv h K t"
  by (auto simp: prepareClientToWrite_def res_bind_eq_Ret intro: sv_pending split: if_splits)

lemma sv_addReplyRaw [sv_keep]:
  assumes "sv_kinv h K s" and "addReplyRaw msg c s = Ret t"
  shows "sv_kinv h K t"
proof -
  obtain u r where u: "prepareClientToWrite c s = Ret (u, r)" "sv_kinv h K u"
    using assms by (auto simp: addReplyRaw_def res_bind_eq_Ret dest: sv_prepare)
  show ?thesis
  proof (cases "r = -1")
    case True
    then show ?thesis using u assms(2) by (simp add: addReplyRaw_def)
  next
    case False
    then obtain x where x: "obj u c = Ret x" using u assms(2) by (auto simp: addReplyRaw_def res_bind_eq_Ret)
    obtain y k where y: "addReplyToBuffer (c_str msg) x = (y, k)" by force
    have ok: "client_ok x" "client_ok y" "fc_fd y = fc_fd x"
      using sv_obj [OF u(2) x] client_ok_buffer [OF _ y] by auto
    have "t = upd_obj c (\<lambda>_. x) u \<or> t = upd_obj c (\<lambda>_. y) u"
    proof (cases "k = -1")
      case True
      then have "y = x" using y by (auto simp: addReplyToBuffer_def split: if_splits)
      then show ?thesis
        using assms(2) u(1) False x y True client_ok_list [OF ok(1)] by (auto simp: addReplyRaw_def res_bind_eq_Ret)
    qed (use assms(2) u(1) False x y in \<open>auto simp: addReplyRaw_def\<close>)
    then show ?thesis using sv_upd_const [OF u(2) x] ok by auto
  qed
qed

lemma sv_addReply [sv_keep]: "sv_kinv h K s \<Longrightarrow> addReply msg c s = Ret t \<Longrightarrow> sv_kinv h K t"
  by (auto simp: addReply_def res_bind_eq_Ret dest: sv_addReplyRaw)

lemma sv_mem_reply [sv_keep]: "sv_kinv h K s \<Longrightarrow> mem_reply w c s = Ret t \<Longrightarrow> sv_kinv h K t"
  by (auto simp: mem_reply_def res_bind_eq_Ret dest: sv_addReply)

lemma sv_encoded [sv_keep]:
  "sv_kinv h K s \<Longrightarrow> addReplyError msg c s = Ret t \<Longrightarrow> sv_kinv h K t"
  "sv_kinv h K s \<Longrightarrow> addReplyErrorFormat msg c s = Ret t \<Longrightarrow> sv_kinv h K t"
  "sv_kinv h K s \<Longrightarrow> addReplyBulkBuffer msg c s = Ret t \<Longrightarrow> sv_kinv h K t"
  "sv_kinv h K s \<Longrightarrow> addReplyBulkString msg c s = Ret t \<Longrightarrow> sv_kinv h K t"
  "sv_kinv h K s \<Longrightarrow> addReplyLongLong i c s = Ret t \<Longrightarrow> sv_kinv h K t"
  "sv_kinv h K s \<Longrightarrow> addReplyArrayLen i c s = Ret t \<Longrightarrow> sv_kinv h K t"
  by (auto simp: addReplyError_def addReplyErrorFormat_def addReplyBulkBuffer_def addReplyBulkString_def
      addReplyLongLong_def addReplyArrayLen_def dest: sv_mem_reply)

section \<open>Reading\<close>

lemma sv_with_obj [sv_keep]:
  assumes "sv_kinv h K s" and "with_obj f c s = Ret t" and "\<And>x y. f x = Ret y \<Longrightarrow> client_ok y = client_ok x \<and> fc_fd y = fc_fd x"
  shows "sv_kinv h K t"
proof -
  obtain x y where x: "obj s c = Ret x" "f x = Ret y" "t = upd_obj c (\<lambda>_. y) s"
    using assms(2) by (auto simp: with_obj_def res_bind_eq_Ret)
  then show ?thesis using sv_upd_const [OF assms(1) x(1)] sv_obj [OF assms(1) x(1)] assms(3) by auto
qed

lemma sv_trim: "sv_kinv h K s \<Longrightarrow> with_obj (trimQueryBuf n) c s = Ret t \<Longrightarrow> sv_kinv h K t"
  by (erule sv_with_obj) (auto dest: client_ok_trim)

lemma sv_protocol_error [sv_keep]:
  assumes "sv_kinv h K s" and "protocol_error err pos c s = Ret t"
  shows "sv_kinv h K t"
proof -
  obtain u where u: "addReplyError err c s = Ret u" "setProtocolError pos c u = Ret t"
    using assms(2) by (auto simp: protocol_error_def res_bind_eq_Ret)
  show ?thesis
    using u(2) unfolding setProtocolError_def
    by (rule sv_with_obj [OF sv_encoded(1) [OF assms(1) u(1)]]) (auto dest: client_ok_trim)
qed

lemma sv_newline: "sv_kinv h K s \<Longrightarrow> no_newline_yet err c s = Ret t \<Longrightarrow> sv_kinv h K t"
  by (auto simp: no_newline_yet_def res_bind_eq_Ret dest: sv_protocol_error split: if_splits)

lemma sv_inline [sv_keep]:
  assumes "sv_kinv h K s" and "processInlineBuffer c s = Ret (t, r)"
  shows "sv_kinv h K t"
proof -
  obtain x where x: "obj s c = Ret x" using assms(2) by (auto simp: processInlineBuffer_def res_bind_eq_Ret)
  show ?thesis
  proof (cases "str_find (queryBuf x) CRLF 0")
    case None
    then show ?thesis using assms x by (auto simp: processInlineBuffer_def res_bind_eq_Ret dest: sv_newline)
  next
    case (Some pos)
    then consider "t = s"
      | ws where "with_obj (\<lambda>x. res_bind (addArgvs ws (allocArgv (length ws) x)) (trimQueryBuf (pos + 2))) c s = Ret t"
      using assms(2) x
      by (cases "spiltString (substr (queryBuf x) 0 pos) '' ''")
        (auto simp: processInlineBuffer_def res_bind_eq_Ret split: if_splits)
    then show ?thesis
    proof cases
      case 2
      then show ?thesis
        by (rule sv_with_obj [OF assms(1)]) (auto simp: res_bind_eq_Ret dest!: client_ok_trim client_ok_argvs)
    qed (use assms(1) in simp)
  qed
qed

lemma sv_multiLen:
  assumes "sv_kinv h K s" and "analyseMultiBulkLen c s = Ret (t, r)"
  shows "sv_kinv h K t"
proof -
  obtain x where x: "obj s c = Ret x" using assms(2) by (auto simp: analyseMultiBulkLen_def Let_def res_bind_eq_Ret)
  show ?thesis
  proof (cases "str_find (queryBuf x) CRLF 0")
    case None
    then show ?thesis using assms x by (auto simp: analyseMultiBulkLen_def Let_def res_bind_eq_Ret dest: sv_newline)
  next
    case (Some pos)
    obtain k n where n: "string2int64 (substr (queryBuf x) 1 (if pos = 0 then length (queryBuf x) else pos - 1)) 0 = (k, n)"
      by force
    then consider "protocol_error ''Protocol error: invalid multibulk length'' pos c s = Ret t"
      | "with_obj (trimQueryBuf (pos + 2)) c s = Ret t"
      | "with_obj (\<lambda>x. trimQueryBuf (pos + 2) (allocArgv (nat n) (x\<lparr>multiBulkLen := n\<rparr>))) c s = Ret t"
      using assms(2) x Some unfolding analyseMultiBulkLen_def Let_def
      by (cases "k = -1 \<or> n > PROTO_REQ_MULTIBULK_MAX_LEN"; cases "n < 0") (auto simp: res_bind_eq_Ret)
    then show ?thesis
    proof cases
      case 1
      then show ?thesis using assms(1) by (rule sv_protocol_error [rotated])
    next
      case 2
      then show ?thesis using assms(1) by (rule sv_trim [rotated])
    next
      case 3
      then show ?thesis by (rule sv_with_obj [OF assms(1)]) (auto dest!: client_ok_trim)
    qed
  qed
qed

lemma sv_payload:
  assumes "sv_kinv h K s" and "bulk_payload n b c s = Ret (t, r)"
  shows "sv_kinv h K t"
proof -
  obtain x where x: "obj s c = Ret x" using assms(2) by (auto simp: bulk_payload_def Let_def res_bind_eq_Ret)
  show ?thesis
  proof (cases "str_find (queryBuf x) CRLF b")
    case None
    then show ?thesis using assms x by (simp add: bulk_payload_def)
  next
    case (Some pos)
    define wrong where "wrong \<longleftrightarrow> (of_nat (pos - b) :: 64 word) \<noteq> of_int n"
    define w where "w = substr (queryBuf x) b (pos - b)"
    have e: "bulk_payload n b c s =
        (if wrong then res_bind (protocol_error ''Protocol error: not enough bulk space'' pos c s) (\<lambda>s. Ret (s, -1))
         else res_bind (with_obj (\<lambda>x. res_bind (addArgv w x) (trimQueryBuf (pos + 2))) c s) (\<lambda>s. Ret (s, 1)))"
      using x Some by (simp add: bulk_payload_def wrong_def w_def)
    consider "protocol_error ''Protocol error: not enough bulk space'' pos c s = Ret t"
      | "with_obj (\<lambda>x. res_bind (addArgv w x) (trimQueryBuf (pos + 2))) c s = Ret t"
      using assms(2) e by (cases wrong) (auto simp: res_bind_eq_Ret)
    then show ?thesis
    proof cases
      case 1
      then show ?thesis using assms(1) by (rule sv_protocol_error [rotated])
    next
      case 2
      then show ?thesis
        by (rule sv_with_obj [OF assms(1)]) (auto simp: res_bind_eq_Ret dest!: client_ok_trim client_ok_argv)
    qed
  qed
qed

lemma sv_bulk:
  assumes "sv_kinv h K s" and "analyseBulk c s = Ret (t, r)"
  shows "sv_kinv h K t"
proof -
  obtain x where x: "obj s c = Ret x" using assms(2) by (auto simp: analyseBulk_def Let_def res_bind_eq_Ret)
  consider "queryBuf x = []" | ch q where "queryBuf x = ch # q" "ch \<noteq> CHR ''$''" | q where "queryBuf x = CHR ''$'' # q"
    by (cases "queryBuf x") auto
  then show ?thesis
  proof cases
    case 1
    then show ?thesis using assms x by (simp add: analyseBulk_def)
  next
    case 2
    then obtain u msg where u: "addReplyErrorFormat msg c s = Ret u" "setProtocolError 0 c u = Ret t"
      using assms(2) x by (auto simp: analyseBulk_def Let_def res_bind_eq_Ret)
    show ?thesis
      using u(2) unfolding setProtocolError_def
      by (rule sv_with_obj [OF sv_encoded(2) [OF assms(1) u(1)]]) (auto dest: client_ok_trim)
  next
    case 3
    show ?thesis
    proof (cases "str_find (queryBuf x) CRLF 1")
      case None
      then show ?thesis using assms x 3 by (auto simp: analyseBulk_def Let_def res_bind_eq_Ret dest: sv_newline)
    next
      case (Some pos)
      obtain k n where n: "string2int64 (substr (queryBuf x) 1 (pos - 1)) 0 = (k, n)" by force
      obtain u where u: "(if k = -1 \<or> n < 0 \<or> n > PROTO_REQ_BULK_MAX_LEN
            then protocol_error ''Protocol error: invalid bulk length'' pos c s else Ret s) = Ret u"
        "bulk_payload n (pos + 2) c u = Ret (t, r)"
        using assms(2) x 3 Some n unfolding analyseBulk_def Let_def by (auto simp: res_bind_eq_Ret simp del: One_nat_def)
      have "sv_kinv h K u" using u(1) assms(1) sv_protocol_error by (auto split: if_splits)
      then show ?thesis using u(2) by (rule sv_payload)
    qed
  qed
qed

lemma sv_bulks: "sv_kinv h K s \<Longrightarrow> analyse_bulks junk n c s = Ret (t, r) \<Longrightarrow> sv_kinv h K t"
proof (induction junk n c s rule: analyse_bulks.induct)
  case (2 junk n c s)
  then show ?case by (auto simp: res_bind_eq_Ret dest: sv_bulk split: if_splits)
qed simp

lemma sv_multi [sv_keep]:
  assumes "sv_kinv h K s" and "processMultiBulkBuffer junk c s = Ret (t, r)"
  shows "sv_kinv h K t"
proof -
  define s0 where "s0 = upd_obj c (\<lambda>x. x\<lparr>reqType := PROTO_REQ_MULTIBULK\<rparr>) s"
  have s0: "sv_kinv h K s0" unfolding s0_def using sv_obj [OF assms(1)] by (intro sv_upd [OF assms(1)]) auto
  obtain x where x: "obj s0 c = Ret x"
    using assms(2) by (auto simp: processMultiBulkBuffer_def s0_def [symmetric] Let_def res_bind_eq_Ret)
  obtain u k where u: "(if multiBulkLen x = 0 then analyseMultiBulkLen c s0 else Ret (s0, 1)) = Ret (u, k)"
    "(if k = -1 then Ret (u, -1) else res_bind (analyseMultiBulk junk c u) (\<lambda>(s, r).
       if r = -1 then Ret (s, -1) else Ret (upd_obj c (\<lambda>x. x\<lparr>multiBulkLen := 0, reqType := 0\<rparr>) s, 1))) = Ret (t, r)"
    using assms(2) x by (auto simp: processMultiBulkBuffer_def s0_def [symmetric] Let_def res_bind_eq_Ret)
  have u': "sv_kinv h K u"
  proof (cases "multiBulkLen x = 0")
    case True
    then have "analyseMultiBulkLen c s0 = Ret (u, k)" using u(1) by simp
    then show ?thesis by (rule sv_multiLen [OF s0])
  qed (use u(1) s0 in simp)
  show ?thesis
  proof (cases "k = -1")
    case True
    then show ?thesis using u(2) u' by simp
  next
    case False
    then obtain v m where v: "analyseMultiBulk junk c u = Ret (v, m)"
      "t = v \<or> t = upd_obj c (\<lambda>x. x\<lparr>multiBulkLen := 0, reqType := 0\<rparr>) v"
      using u(2) by (auto simp: res_bind_eq_Ret split: if_splits)
    have v': "sv_kinv h K v" using v(1) sv_bulks [OF u'] by (auto simp: analyseMultiBulk_def res_bind_eq_Ret)
    have "sv_kinv h K (upd_obj c (\<lambda>x. x\<lparr>multiBulkLen := 0, reqType := 0\<rparr>) v)"
      using sv_obj [OF v'] by (intro sv_upd [OF v']) auto
    then show ?thesis using v(2) v' by blast
  qed
qed

lemma sv_input_loop [sv_keep]: "sv_kinv h K s \<Longrightarrow> input_loop junk c s = Ret (t, r) \<Longrightarrow> sv_kinv h K t"
proof (induction junk c s arbitrary: t r rule: input_loop.induct)
  case (1 junk c s)
  then obtain x where x: "obj s c = Ret x" by (subst (asm) input_loop.simps) (auto split: res.splits)
  show ?case
  proof (cases "queryBuf x = []")
    case True
    then show ?thesis using "1.prems" x by (subst (asm) input_loop.simps) auto
  next
    case False
    obtain u k where u: "input_round junk c s = Ret (u, k)"
      using "1.prems"(2) x False by (subst (asm) input_loop.simps) (auto split: res.splits)
    have "processMultiBulkBuffer junk c s = Ret (u, k) \<or> processInlineBuffer c s = Ret (u, k)"
      using u x by (simp add: input_round_def split: if_splits)
    then have u': "sv_kinv h K u" using "1.prems"(1) sv_inline sv_multi by blast
    show ?thesis
    proof (cases "k = -1")
      case True
      then show ?thesis using "1.prems"(2) x False u u' by (subst (asm) input_loop.simps) auto
    next
      case k: False
      have "input_loop junk c u = Ret (t, r)" using "1.prems"(2) x False u k by (subst (asm) input_loop.simps) auto
      then show ?thesis using "1.IH" [OF x False u HOL.refl k u'] by blast
    qed
  qed
qed

section \<open>Closing and sending\<close>

lemma sv_close_fd [simp]: "sv_kinv h K (close_fd fd s) = sv_kinv h K s"
  by (simp add: close_fd_def)

lemma sv_free_async:
  assumes "sv_kinv h K s" and "c < length (objs s)"
  shows "sv_kinv h K (freeClientAsync c s)"
proof -
  let ?s = "upd_obj c (\<lambda>x. x\<lparr>fc_flags := CLIENT_CLOSE_ASAP\<rparr>) s"
  have "sv_kinv h K ?s" using sv_obj [OF assms(1)] by (intro sv_upd [OF assms(1)]) auto
  moreover have "known ?s (clientsToClose s @ [c])"
    using sv_known [OF assms(1)] assms(2) by (auto simp: known_def upd_obj_def)
  ultimately show ?thesis using assms(1) by (auto simp: freeClientAsync_def intro: sv_lists)
qed

lemma sv_free_async_fd [sv_keep]: "sv_kinv h K s \<Longrightarrow> sv_kinv h K (freeClientAsyncFd fd s)"
  by (auto simp: freeClientAsyncFd_def dest: sv_getFlyClient intro: sv_free_async split: option.splits)

lemma omap_erase_absent: "k \<notin> fst ` set m \<Longrightarrow> omap_erase k m = m"
  by (induction k m rule: omap_erase.induct) auto

text \<open>The descriptor is already -1 when its entry is erased, so the entry stays.\<close>

lemma sv_erase: "sv_kinv h K s \<Longrightarrow> s\<lparr>clients := omap_erase (-1) (clients s)\<rparr> = s"
proof -
  assume "sv_kinv h K s"
  then have "-1 \<notin> fst ` set (clients s)" by (auto simp: sv_kinv_def sv_inv_def registered_ok_def)
  then show ?thesis by (simp add: omap_erase_absent)
qed

lemma sv_unlink_map:
  assumes "sv_kinv h K s" and "unlink_map c s = Ret t"
  shows "sv_kinv h K t"
proof -
  obtain x where x: "obj s c = Ret x" using assms(2) by (auto simp: unlink_map_def res_bind_eq_Ret)
  show ?thesis
  proof (cases "fc_fd x \<noteq> -1 \<and> getFlyClient (fc_fd x) s \<noteq> None")
    case False
    then show ?thesis using assms x by (auto simp: unlink_map_def)
  next
    case True
    then obtain l r where l: "deleteFileEvent (fc_fd x) (ES_WRITABLE OR ES_READABLE) (sv_loop s) = Ret (l, r)"
      using assms(2) x by (auto simp: unlink_map_def res_bind_eq_Ret)
    define u where "u = upd_obj c (\<lambda>x. x\<lparr>fc_fd := -1\<rparr>) (close_fd (fc_fd x) (s\<lparr>sv_loop := l\<rparr>))"
    have v: "sv_kinv h K (close_fd (fc_fd x) (s\<lparr>sv_loop := l\<rparr>))" using sv_delete [OF assms(1) l] by simp
    have u: "sv_kinv h K u" unfolding u_def using sv_obj [OF v] by (intro sv_upd [OF v]) auto
    have "t = u\<lparr>clients := omap_erase (-1) (clients u)\<rparr>"
      using assms(2) x True l by (simp add: unlink_map_def u_def Let_def)
    then show ?thesis using sv_erase [OF u] u by simp
  qed
qed

lemma sv_unlink:
  assumes "sv_kinv h K s" and "unlinkClient c s = Ret t"
  shows "sv_kinv h K t"
proof -
  obtain u x where u: "unlink_map c s = Ret u" "obj u c = Ret x"
    "t = deleteFromAsyncClose (fc_fd x) (if IsPendingWrite x then deleteFromPending (fc_fd x) u else u)"
    using assms(2) by (auto simp: unlinkClient_def Let_def res_bind_eq_Ret)
  have i: "sv_kinv h K u" using sv_unlink_map [OF assms(1) u(1)] .
  have p: "sv_kinv h K (deleteFromPending fd v)" "sv_kinv h K (deleteFromAsyncClose fd v)" if "sv_kinv h K v" for fd v
    using sv_known [OF that] sv_lists [OF that] by (auto simp: deleteFromPending_def deleteFromAsyncClose_def known_remove)
  show ?thesis using u(3) i p by (cases "IsPendingWrite x") auto
qed

lemma sv_free [sv_keep]: "sv_kinv h K s \<Longrightarrow> freeClient c s = Ret t \<Longrightarrow> sv_kinv h K t"
  by (simp add: freeClient_def sv_unlink)

lemma sv_free_and_close [sv_keep]: "sv_kinv h K s \<Longrightarrow> free_and_close fd s = Ret t \<Longrightarrow> sv_kinv h K t"
  by (auto simp: free_and_close_def res_bind_eq_Ret dest: sv_free split: option.splits)

text \<open>What every \<open>freeClient\<close> keeps, the loop over the closed clients keeps.\<close>

lemma async_free_keeps:
  assumes "\<And>c s t. I s \<Longrightarrow> freeClient c s = Ret t \<Longrightarrow> I t"
  shows "I s \<Longrightarrow> async_free n i s = Ret t \<Longrightarrow> I t"
proof (induction n i s rule: async_free.induct)
  case (2 n i s)
  obtain u x where u: "freeClient (clientsToClose s ! i) s = Ret u" "obj u (clientsToClose s ! i) = Ret x"
    using "2.prems"(2) by (auto simp: Let_def res_bind_eq_Ret)
  have i: "I u" using assms [OF "2.prems"(1) u(1)] .
  show ?case
  proof (cases "first_fd (objs u) (fc_fd x) (clientsToClose s)")
    case None
    then have "async_free n (Suc i) u = Ret t" using "2.prems"(2) u by (simp add: Let_def)
    then show ?thesis using "2.IH"(1) [OF HOL.refl None i] by blast
  next
    case (Some j)
    consider "j < i" "async_free n i u = Ret t" | "j > i" "async_free (n - 1) (Suc i) u = Ret t"
      using "2.prems"(2) u Some by (auto simp: Let_def split: if_splits)
    then show ?thesis
    proof cases
      case 1
      then show ?thesis using "2.IH"(2) [OF HOL.refl Some _ _ i] by auto
    next
      case 2
      then show ?thesis using "2.IH"(3) [OF HOL.refl Some _ _ i] by auto
    qed
  qed
qed simp

lemma sv_async_loop: "sv_kinv h K s \<Longrightarrow> async_free n i s = Ret t \<Longrightarrow> sv_kinv h K t"
  using async_free_keeps [of "sv_kinv h K"] sv_free by blast

lemma sv_async [sv_keep]:
  assumes "sv_kinv h K s" and "freeClientsInAsyncFreeList s = Ret t"
  shows "sv_kinv h K t"
proof -
  obtain u where u: "async_free (length (clientsToClose s)) 0 s = Ret u" "t = u\<lparr>clientsToClose := []\<rparr>"
    using assms(2) by (auto simp: freeClientsInAsyncFreeList_def res_bind_eq_Ret)
  then show ?thesis using sv_lists(2) [OF sv_async_loop [OF assms(1) u(1)], of "[]"] by (simp add: known_def)
qed

lemma sv_write [sv_keep]:
  assumes "sv_kinv h K s" and "writeToClient wr again b c s = Ret (t, r)"
  shows "sv_kinv h K t"
proof -
  obtain x where x: "obj s c = Ret x" using assms(2) by (auto simp: writeToClient_def res_bind_eq_Ret)
  obtain y out k where y: "send_pending wr 0 0 0 x = (y, out, k)" using prod_cases3 by blast
  have ok: "client_ok y" "fc_fd y = fc_fd x" using client_ok_send [OF y] sv_obj [OF assms(1) x] by auto
  define u where "u = (upd_obj c (\<lambda>_. y) s)\<lparr>net_out := net_out s @ [(fc_fd x, out)]\<rparr>"
  have u: "sv_kinv h K u" using sv_upd_const [OF assms(1) x] ok by (simp add: u_def)
  have closed: "sv_kinv h K (close_fd fd (freeClientAsyncFd fd v))" if "sv_kinv h K v" for fd v
    using sv_free_async_fd [OF that] by simp
  note unfold = assms(2) [unfolded writeToClient_def x res_bind.simps Let_def y case_prod_conv u_def [symmetric]]
  show ?thesis
  proof (cases "k \<le> 0 \<and> \<not> again")
    case True
    then show ?thesis using unfold closed [OF u] by auto
  next
    case no: False
    show ?thesis
    proof (cases "hasNoPending y")
      case False
      then show ?thesis using unfold no u by auto
    next
      case True
      define v where "v = upd_obj c (\<lambda>x. x\<lparr>sendLen := 0\<rparr>) u"
      have "obj u c = Ret y" using obj_upd [OF x, of "\<lambda>_. y"] by (simp add: u_def obj_def split: if_splits)
      then have v: "sv_kinv h K v"
        unfolding v_def using True ok by (intro sv_upd [OF u]) (auto simp: hasNoPending_def client_ok_def out_inv_def)
      obtain w where w: "(if b then res_bind (deleteFileEvent (fc_fd x) ES_WRITABLE (sv_loop v)) (\<lambda>(l, r). Ret (v\<lparr>sv_loop := l\<rparr>))
          else Ret v) = Ret w" "t = w \<or> t = close_fd (fc_fd x) (freeClientAsyncFd (fc_fd x) w)"
        using unfold no True unfolding v_def by (auto simp: res_bind_eq_Ret split: if_splits)
      have "sv_kinv h K w" using w(1) v by (auto simp: res_bind_eq_Ret dest: sv_delete [OF v] split: if_splits)
      then show ?thesis using w(2) closed by auto
    qed
  qed
qed

lemma sv_sendReply [sv_keep]: "sv_kinv h K s \<Longrightarrow> sendReplyToClient wr again fd s = Ret t \<Longrightarrow> sv_kinv h K t"
  by (auto simp: sendReplyToClient_def res_bind_eq_Ret dest: sv_write split: option.splits)

lemma write_objs: "writeToClient wr again b c s = Ret (t, r) \<Longrightarrow> obj s c \<noteq> Fault OutOfBounds"
  by (auto simp: writeToClient_def)

lemma sv_write_one:
  assumes "sv_kinv h K s" and "pending_write_one net c s = Ret t"
  shows "sv_kinv h K t"
proof -
  let ?s = "upd_obj c (fc_delFlag CLIENT_PENDING_WRITE) s"
  have s: "sv_kinv h K ?s" using sv_obj [OF assms(1)] by (intro sv_upd [OF assms(1)]) auto
  obtain u r where u: "writeToClient (fst (net c)) (snd (net c)) False c ?s = Ret (u, r)"
    using assms(2) by (auto simp: pending_write_one_def Let_def res_bind_eq_Ret)
  have i: "sv_kinv h K u" using sv_write [OF s u] .
  show ?thesis
  proof (cases "r = -1")
    case True
    then show ?thesis using assms(2) u i by (simp add: pending_write_one_def Let_def)
  next
    case False
    obtain x where x: "obj u c = Ret x" using assms(2) u False by (auto simp: pending_write_one_def Let_def res_bind_eq_Ret)
    show ?thesis
    proof (cases "hasNoPending x")
      case True
      then show ?thesis using assms(2) u False x i by (simp add: pending_write_one_def Let_def)
    next
      case np: False
      obtain l k where l: "createFileEvent (fc_fd x) ES_WRITABLE SendReply None (sv_loop u) = Ret (l, k)"
        "t = (if k = -1 then freeClientAsync c (u\<lparr>sv_loop := l\<rparr>) else u\<lparr>sv_loop := l\<rparr>)"
        using assms(2) u False x np by (auto simp: pending_write_one_def Let_def res_bind_eq_Ret)
      have v: "sv_kinv h K (u\<lparr>sv_loop := l\<rparr>)" using sv_create [OF i l(1)] by (simp add: ES_WRITABLE_def)
      have "c < length (objs u)" using x by (auto simp: obj_def split: if_splits)
      then show ?thesis using l(2) v sv_free_async [OF v, of c] by auto
    qed
  qed
qed

lemma sv_write_all: "sv_kinv h K s \<Longrightarrow> pending_write_all net cs s = Ret t \<Longrightarrow> sv_kinv h K t"
  by (induction net cs s rule: pending_write_all.induct) (auto simp: res_bind_eq_Ret dest: sv_write_one)

lemma sv_flush_all [sv_keep]:
  assumes "sv_kinv h K s" and "handleClientsWithPendingWrites net s = Ret (t, n)"
  shows "sv_kinv h K t"
proof (cases "clientsPendingWrite s = []")
  case False
  then obtain u where u: "pending_write_all net (clientsPendingWrite s) s = Ret u" "t = u\<lparr>clientsPendingWrite := []\<rparr>"
    using assms(2) by (auto simp: handleClientsWithPendingWrites_def res_bind_eq_Ret)
  then show ?thesis using sv_lists(1) [OF sv_write_all [OF assms(1) u(1)], of "[]"] by (simp add: known_def)
qed (use assms in \<open>simp add: handleClientsWithPendingWrites_def\<close>)

section \<open>Accepting\<close>

lemma omap_put_length: "length (omap_put k v m) \<le> Suc (length m)"
  by (induction k v m rule: omap_put.induct) auto

lemma registered_more: "registered_ok xs n m \<Longrightarrow> registered_ok (xs @ [y]) n m"
  by (fastforce simp: registered_ok_def nth_append)

lemma registered_put:
  assumes "registered_ok xs n m" and "c < length xs" and "0 < fd" and "fd < n" and "fc_fd (xs ! c) = fd"
  shows "registered_ok xs n (omap_put fd c m)"
  using assms by (auto simp: registered_ok_def omap_put_ok omap_put_mem split: if_splits)

lemma sv_new_obj:
  assumes "sv_kinv h K s" and "client_ok x"
  shows "sv_kinv h K (s\<lparr>objs := objs s @ [x]\<rparr>)"
  using assms by (auto simp: sv_kinv_def sv_inv_def known_def intro: registered_more)

lemma sv_accepted [sv_keep]:
  assumes "sv_kinv h K s" and "createClient fd s = Ret (t, r)"
  shows "sv_kinv h K t"
proof -
  consider "fd \<le> 0" | "fd > 0" "length (clients s) \<ge> maxClients s" | "fd > 0" "length (clients s) < maxClients s"
    by linarith
  then show ?thesis
  proof cases
    case 3
    let ?x = "(new_client fd (sv_nowt s))\<lparr>fc_id := nextClientId s\<rparr>"
    let ?c = "length (objs s)"
    define u where "u = s\<lparr>objs := objs s @ [?x], nextClientId := nextClientId s + 1\<rparr>"
    have u: "sv_kinv h K u" using sv_new_obj [OF assms(1), of ?x] client_ok_new by (simp add: u_def)
    obtain l k where l: "createFileEvent fd ES_READABLE ReadQuery None (sv_loop u) = Ret (l, k)"
      "t = (if k = -1 then u\<lparr>sv_loop := l\<rparr> else u\<lparr>sv_loop := l, clients := omap_put fd ?c (clients s)\<rparr>)"
      using assms(2) 3 by (auto simp: createClient_def u_def Let_def res_bind_eq_Ret split: if_splits)
    have v: "sv_kinv h K (u\<lparr>sv_loop := l\<rparr>)" using sv_create [OF u l(1)] by (simp add: ES_READABLE_def)
    show ?thesis
    proof (cases "k = -1")
      case False
      then have fd: "fd < setSize l"
        using l(1) create_setSize [OF l(1)] by (auto simp: createFileEvent_def split: if_splits)
      have old: "registered_ok (objs u) (setSize l) (clients s)" "omap (clients s)"
        using v by (simp_all add: sv_kinv_def sv_inv_def u_def registered_ok_def)
      have "fc_fd (objs u ! ?c) = fd" "?c < length (objs u)" by (simp_all add: u_def new_client_def)
      then have "registered_ok (objs u) (setSize l) (omap_put fd ?c (clients s))"
        using registered_put [OF old(1)] fd 3(1) by simp
      moreover have "length (omap_put fd ?c (clients s)) \<le> maxClients u"
        using omap_put_length [of fd ?c "clients s"] 3(2) by (simp add: u_def)
      moreover have "K \<subseteq> fst ` set (omap_put fd ?c (clients s))"
        using v omap_put_keys [of fd ?c "clients s"] by (auto simp: sv_kinv_def u_def)
      ultimately show ?thesis using v l(2) False by (simp add: sv_kinv_def sv_inv_def known_def)
    qed (use v l(2) in simp)
  qed (use assms in \<open>auto simp: createClient_def\<close>)
qed

lemma accept_loop_keeps:
  assumes "\<And>fd s t c. I s \<Longrightarrow> createClient fd s = Ret (t, c) \<Longrightarrow> I t" and "\<And>fd s. I s \<Longrightarrow> I (close_fd fd s)"
  shows "I s \<Longrightarrow> accept_loop n fds s = Ret t \<Longrightarrow> I t"
proof (induction n fds s rule: accept_loop.induct)
  case (3 n fd fds s)
  show ?case
  proof (cases "fd = -1")
    case False
    then obtain u c where u: "createClient fd s = Ret (u, c)" "accept_loop n fds (if c = None then close_fd fd u else u) = Ret t"
      using "3.prems"(2) by (auto simp: res_bind_eq_Ret)
    have "I (if c = None then close_fd fd u else u)" using assms(1) [OF "3.prems"(1) u(1)] assms(2) by simp
    then show ?thesis using "3.IH" [OF False] u(2) by blast
  qed (use 3 in simp)
qed simp_all

lemma sv_accept_loop: "sv_kinv h K s \<Longrightarrow> accept_loop n fds s = Ret t \<Longrightarrow> sv_kinv h K t"
  by (rule accept_loop_keeps [of "sv_kinv h K", OF sv_accepted]) simp_all

section \<open>Commands\<close>

lemma sv_publish: "sv_kinv h K s \<Longrightarrow> publishMessage ch msg s = Ret (s, 0)"
  by (simp add: sv_kinv_def sv_inv_def publish_no_subscriber)

lemma sv_deliver: "sv_kinv h K s \<Longrightarrow> deliver ms s = Ret s"
  by (induction ms) (auto simp: sv_publish)

lemma sv_on_sentinel [sv_keep]: "sv_kinv h K s \<Longrightarrow> on_sentinel f s = Ret t \<Longrightarrow> sv_kinv h K t"
  by (auto simp: on_sentinel_def res_bind_eq_Ret sv_deliver)

lemma each_arg_Nil: "(\<And>a s. \<not> is_ret (f a s)) \<Longrightarrow> each_arg f as s = Ret t \<Longrightarrow> as = [] \<and> t = s"
  by (cases as) (auto simp: res_bind_eq_Ret is_ret_iff)

lemma unsubscribe_all_faults:
  "\<not> is_ret (unsubscribeAllChannels c True s)" "\<not> is_ret (unsubscribeAllPatterns c True s)"
  by (auto simp: is_ret_iff unsubscribeAllChannels_def unsubscribeAllPatterns_def addReplyPubsubUnsubscribed_def
      notify_faults res_bind_eq_Ret split: list.splits)

lemma sv_flag: "sv_kinv h K s \<Longrightarrow> sv_kinv h K (upd_obj c (fc_addFlag f) s)" "sv_kinv h K s \<Longrightarrow> sv_kinv h K (upd_obj c (fc_delFlag f) s)"
  using sv_obj by (fastforce intro!: sv_upd)+

lemma sv_leave: "sv_kinv h K s \<Longrightarrow> leave_pubsub c s = Ret t \<Longrightarrow> sv_kinv h K t"
  by (auto simp: leave_pubsub_def res_bind_eq_Ret intro: sv_flag)

lemma sv_subscribe:
  assumes "sv_kinv h K s" and "subscribeCommand c s = Ret t \<or> psubscribeCommand c s = Ret t"
  shows "sv_kinv h K t"
proof -
  have "t = upd_obj c (fc_addFlag CLIENT_PUBSUB) s"
    using assms(2) subscribe_faults
    by (auto simp: subscribeCommand_def psubscribeCommand_def res_bind_eq_Ret dest!: each_arg_Nil [rotated])
  then show ?thesis using sv_flag(1) [OF assms(1)] by simp
qed

lemma sv_unsubscribe:
  assumes "sv_kinv h K s" and "unsubscribeCommand c s = Ret t \<or> punsubscribeCommand c s = Ret t"
  shows "sv_kinv h K t"
proof -
  have "leave_pubsub c s = Ret t"
    using assms(2) unsubscribe_all_faults [of c s] subscribe_faults
    by (auto simp: unsubscribeCommand_def punsubscribeCommand_def res_bind_eq_Ret is_ret_iff
        split: if_splits dest!: each_arg_Nil [rotated])
  then show ?thesis using sv_leave [OF assms(1)] by blast
qed

lemma sv_each_master: "sv_kinv h K s \<Longrightarrow> each_master c ms s = Ret t \<Longrightarrow> sv_kinv h K t"
  by (induction c ms s rule: each_master.induct) (auto simp: res_bind_eq_Ret dest: sv_encoded(4))

lemma sv_role:
  assumes "sv_kinv h K s" and "sentinelRoleCommand c s = Ret t"
  shows "sv_kinv h K t"
proof -
  obtain u v where u: "addReplyArrayLen 2 c s = Ret u" "addReplyBulkBuffer ''sentinel'' c u = Ret v"
    "each_master c (masters (sn v)) v = Ret t"
    using assms(2) unfolding sentinelRoleCommand_def res_bind_eq_Ret by blast
  show ?thesis using sv_each_master [OF sv_encoded(3) [OF sv_encoded(6) [OF assms(1) u(1)] u(2)] u(3)] .
qed

lemma sv_publishCommand:
  assumes "sv_kinv h K s" and "publishCommand raw now c s = Ret t"
  shows "sv_kinv h K t"
proof -
  obtain x where x: "obj s c = Ret x" using assms(2) by (cases "obj s c") (simp_all add: publishCommand_def)
  note e = assms(2) [unfolded publishCommand_def x res_bind.simps]
  show ?thesis
  proof (cases "argv x ! 1 \<noteq> SENTINEL_HELLO_CHANNEL")
    case True
    then show ?thesis using sv_encoded(1) [OF assms(1) e [unfolded if_P [OF True]]] by blast
  next
    case False
    obtain u where "on_sentinel (processHelloMessage raw now (argv x ! 2)) s = Ret u" "addReplyLongLong 1 c u = Ret t"
      using e [unfolded if_not_P [OF False] res_bind_eq_Ret] by blast
    then show ?thesis using sv_encoded(5) [OF sv_on_sentinel [OF assms(1)]] by blast
  qed
qed

lemma sv_run_command [sv_keep]:
  assumes "sv_kinv h K s" and "run_command raw now p c s = Ret t"
  shows "sv_kinv h K t"
proof -
  note e = assms(2) [unfolded run_command_def]
  show ?thesis
  proof (cases p)
    case PingCommand
    then have "addReply shared_pong c s = Ret t" using e by (simp add: pingCommand_def)
    then show ?thesis by (rule sv_addReply [OF assms(1)])
  next
    case PublishCommand
    then have "publishCommand raw now c s = Ret t" using e by simp
    then show ?thesis by (rule sv_publishCommand [OF assms(1)])
  next
    case RoleCommand
    then have "sentinelRoleCommand c s = Ret t" using e by simp
    then show ?thesis by (rule sv_role [OF assms(1)])
  next
    case SubscribeCommand
    then show ?thesis using e by (intro sv_subscribe [where c = c, OF assms(1)]) simp
  next
    case PsubscribeCommand
    then show ?thesis using e by (intro sv_subscribe [where c = c, OF assms(1)]) simp
  next
    case UnsubscribeCommand
    then show ?thesis using e by (intro sv_unsubscribe [where c = c, OF assms(1)]) simp
  next
    case PunsubscribeCommand
    then show ?thesis using e by (intro sv_unsubscribe [where c = c, OF assms(1)]) simp
  qed
qed

lemma sv_lookup:
  assumes "sv_kinv h K s"
  shows "\<exists>d. findEntry h (commands s) k = Ret (d, map_of registered k) \<and> sv_kinv h K (s\<lparr>commands := d\<rparr>)"
proof -
  obtain d where "findEntry h (commands s) k = Ret (d, map_of registered k)" "table_ok h d"
    using dict_store.find_ok [of h "commands s" k] assms by (auto simp: sv_kinv_def sv_inv_def table_ok_def)
  then show ?thesis using assms by (auto simp: sv_kinv_def sv_inv_def known_def)
qed

lemma sv_dealWith [sv_keep]:
  assumes "sv_kinv h K s" and "dealWithCommand h raw now c s = Ret t"
  shows "sv_kinv h K t"
proof -
  obtain x k where x: "obj s c = Ret x" "argv0 x = Ret k"
    using assms(2) by (auto simp: dealWithCommand_def res_bind_eq_Ret)
  obtain d where d: "findEntry h (commands s) k = Ret (d, map_of registered k)" "sv_kinv h K (s\<lparr>commands := d\<rparr>)"
    using sv_lookup [OF assms(1)] by blast
  show ?thesis
    using assms(2) x d
    by (cases "map_of registered k")
      (auto simp: dealWithCommand_def Let_def dest: sv_addReplyRaw sv_run_command split: if_splits)
qed

lemma sv_input [sv_keep]:
  assumes "sv_kinv h K s" and "processInputBuffer junk h raw now c s = Ret t"
  shows "sv_kinv h K t"
proof -
  obtain u r where u: "input_loop junk c s = Ret (u, r)" using assms(2) by (auto simp: processInputBuffer_def res_bind_eq_Ret)
  have i: "sv_kinv h K u" using sv_input_loop [OF assms(1) u] .
  show ?thesis
    using assms(2) u i
    by (auto simp: processInputBuffer_def serverDealWithCommand_def res_bind_eq_Ret dest: sv_dealWith
        split: if_splits option.splits)
qed

lemma sv_read [sv_keep]:
  assumes "sv_kinv h K s" and "readQueryFromClient junk h raw now rd fd s = Ret t"
  shows "sv_kinv h K t"
proof (cases rd)
  case (ReadBytes bs)
  obtain c where c: "getFlyClient fd s = Some c"
    using assms(2) ReadBytes by (auto simp: readQueryFromClient_def split: option.splits)
  define u where "u = addToStatNetInputBytes (length (c_str bs)) (upd_obj c (\<lambda>x. x\<lparr>lastInteractionTime := sv_nowt s\<rparr>) s)"
  have "sv_kinv h K (upd_obj c (\<lambda>x. x\<lparr>lastInteractionTime := sv_nowt s\<rparr>) s)"
    using sv_obj [OF assms(1)] by (intro sv_upd [OF assms(1)]) auto
  then have u: "sv_kinv h K u" by (simp add: u_def addToStatNetInputBytes_def)
  have "free_and_close fd u = Ret t \<or> processInputBuffer junk h raw now c u = Ret t"
    using assms(2) ReadBytes c by (auto simp: readQueryFromClient_def Let_def u_def res_bind_eq_Ret split: if_splits)
  then show ?thesis using sv_free_and_close [OF u] sv_input [OF u] by blast
qed (use assms sv_free_and_close in \<open>auto simp: readQueryFromClient_def split: if_splits\<close>)

section \<open>The server as a state machine\<close>

lemma sv_handler:
  "sv_kinv (w_hash w) K s \<Longrightarrow> client_handler w p fd s = Ret t \<Longrightarrow> sv_kinv (w_hash w) K t"
  by (cases p) (auto simp: client_handler_def acceptTcpHandler_def dest: sv_read sv_sendReply sv_accept_loop)

lemma sv_cron_step:
  assumes "sv_kinv h K s" and "serverCron seconds now fork waits rand s = Ret (t, killed, ms)"
  shows "sv_kinv h K t"
proof -
  obtain u where u: "freeClientsInAsyncFreeList (s\<lparr>sv_nowt := seconds\<rparr>) = Ret u"
    using assms(2) by (auto simp: serverCron_def res_bind_eq_Ret)
  have i: "sv_kinv h K u" using sv_async [OF _ u] assms(1) by simp
  obtain sn' k where "sentinel_timer now fork waits rand (sn u) = Ret (sn', k)" "t = addCronLoops (u\<lparr>sn := sn'\<rparr>)"
    using assms(2) u i by (auto simp: serverCron_def res_bind_eq_Ret sv_deliver Let_def)
  then show ?thesis using i by (simp add: addCronLoops_def)
qed

text \<open>
  One step: a file proc on any descriptor, the flush before a sleep, or the cron, with whatever the
  world answers.
\<close>

inductive sv_step :: "(string \<Rightarrow> nat) \<Rightarrow> server \<Rightarrow> server \<Rightarrow> bool" for hash where
  step_handler: "w_hash w = hash \<Longrightarrow> client_handler w p fd s = Ret t \<Longrightarrow> sv_step hash s t"
| step_flush: "handleClientsWithPendingWrites net s = Ret (t, n) \<Longrightarrow> sv_step hash s t"
| step_cron: "serverCron seconds now fork waits rand s = Ret (t, killed, ms) \<Longrightarrow> sv_step hash s t"

inductive_cases sv_stepE: "sv_step hash s t"

inductive sv_reach :: "(string \<Rightarrow> nat) \<Rightarrow> server \<Rightarrow> server \<Rightarrow> bool" for hash where
  sv_start: "sv_reach hash s s"
| sv_next: "sv_reach hash s t \<Longrightarrow> sv_step hash t u \<Longrightarrow> sv_reach hash s u"

lemma sv_step_inv: "sv_step h s t \<Longrightarrow> sv_kinv h K s \<Longrightarrow> sv_kinv h K t"
  by (erule sv_stepE) (auto dest: sv_handler sv_flush_all sv_cron_step)

lemma sv_reach_inv: "sv_reach h s t \<Longrightarrow> sv_kinv h K s \<Longrightarrow> sv_kinv h K t"
  by (induction rule: sv_reach.induct) (auto intro: sv_step_inv)

end
