(* ===== verification/ParserFacts.thy ===== *)
theory ParserFacts imports Parser begin

text \<open>
  What the command parser guarantees: a command encoded as an array of bulk strings is read back
  whatever pieces it arrives in, an inline command is split into its words, and what goes wrong.
\<close>

section \<open>The encoding\<close>

definition bulk :: "string \<Rightarrow> string" where
  "bulk a = CHR ''$'' # nat_dec (length a) @ CRLF @ a @ CRLF"

definition resp_encode :: "string list \<Rightarrow> string" where
  "resp_encode args = CHR ''*'' # nat_dec (length args) @ CRLF @ concat (map bulk args)"

definition plain_arg :: "string \<Rightarrow> bool" where
  "plain_arg a \<longleftrightarrow> CHR 0x0D \<notin> set a \<and> length a \<le> 512 * 1024 * 1024"

lemma hd_CRLF [simp]: "hd CRLF = CHR 0x0D" "CRLF \<noteq> []"
  by (simp_all add: CRLF_def)

lemma nat_dec_no_CR: "CHR 0x0D \<notin> set (nat_dec n)"
  using nat_dec_digits [of n] by (auto simp: is_digit_def)

lemma nat_dec_length: "n < 10 ^ k \<Longrightarrow> 0 < k \<Longrightarrow> length (nat_dec n) \<le> k"
proof (induction k arbitrary: n)
  case (Suc k)
  show ?case
  proof (cases "n < 10")
    case False
    then have "n div 10 < 10 ^ k" "0 < k" using Suc.prems by (auto simp: less_mult_imp_div_less intro: Nat.gr0I)
    then have "length (nat_dec (n div 10)) \<le> k" by (rule Suc.IH)
    then show ?thesis using False by (subst nat_dec.simps) simp
  qed (subst nat_dec.simps, simp)
qed simp

text \<open>A line that has not arrived completely has no line break yet.\<close>

lemma line_split:
  assumes "CHR 0x0D \<notin> set w" and "p @ f = w @ CRLF @ r"
  shows "(length p < length w + 2 \<and> find_sub CRLF p = None) \<or>
    (\<exists>p'. p = w @ CRLF @ p' \<and> p' @ f = r \<and> find_sub CRLF p = Some (length w))"
proof (cases "length p < length w + 2")
  case True
  have "find_sub CRLF p = None"
  proof (rule ccontr)
    assume "find_sub CRLF p \<noteq> None"
    then obtain i where i: "find_sub CRLF p = Some i" by blast
    note sp = find_sub_Some_split [OF i]
    have len: "i + 2 \<le> length p" using sp by simp
    have "p ! i = CHR 0x0D"
    proof -
      have "p ! i = (take i p @ CRLF @ drop (i + 2) p) ! i" using sp by simp
      then show ?thesis using len by (simp add: nth_append CRLF_def)
    qed
    moreover have "i < length w" using len True by simp
    then have "p ! i = w ! i" using arg_cong [OF assms(2), of "\<lambda>l. l ! i"] len by (simp add: nth_append)
    ultimately show False using assms(1) \<open>i < length w\<close> nth_mem by metis
  qed
  then show ?thesis using True by simp
next
  case False
  then have "length (w @ CRLF) \<le> length p" by simp
  moreover have "p @ f = (w @ CRLF) @ r" using assms(2) by simp
  ultimately obtain p' where "p = (w @ CRLF) @ p'" "p' @ f = r"
    by (metis append_eq_append_conv_if append_eq_conv_conj append_assoc same_append_eq)
  then show ?thesis using find_sub_first [of CRLF w p'] assms(1) by auto
qed

lemma upd_obj_twice [simp]: "upd_obj c (\<lambda>_. y) (upd_obj c (\<lambda>_. x) s) = upd_obj c (\<lambda>_. y) s"
  by (simp add: upd_obj_def)

lemma upd_obj_same: "obj s c = Ret x \<Longrightarrow> upd_obj c (\<lambda>_. x) s = s"
  by (auto simp: obj_def upd_obj_def split: if_splits)

lemma obj_upd_const: "obj s c = Ret x \<Longrightarrow> obj (upd_obj c (\<lambda>_. y) s) c = Ret y"
  by (simp add: obj_upd)

lemma upd_obj_fun: "obj s c = Ret x \<Longrightarrow> upd_obj c f s = upd_obj c (\<lambda>_. f x) s"
  by (auto simp: obj_def upd_obj_def split: if_splits)

lemma with_obj_Ret: "obj s c = Ret x \<Longrightarrow> f x = Ret y \<Longrightarrow> with_obj f c s = Ret (upd_obj c (\<lambda>_. y) s)"
  by (simp add: with_obj_def)

lemma string2int64_nat: "n < 2 ^ 63 \<Longrightarrow> string2int64 (nat_dec n) 0 = (1, int n)"
  using string2int64_int_dec [of "int n" 0] by (simp add: int_dec_def)

section \<open>One bulk\<close>

lemma bulk_arrives:
  assumes "obj s c = Ret x" and "queryBuf x @ f = bulk a @ r" and "plain_arg a"
    and "argvCap x = Some n" and "length (argv x) < n"
  shows "(length (queryBuf x) < length (bulk a) \<and> analyseBulk c s = Ret (s, -1)) \<or>
    (\<exists>q. queryBuf x = bulk a @ q \<and> q @ f = r \<and>
       analyseBulk c s = Ret (upd_obj c (\<lambda>_. x\<lparr>argv := argv x @ [a], queryBuf := q\<rparr>) s, 1))"
proof (cases "queryBuf x")
  case Nil
  then show ?thesis using assms(1) by (simp add: analyseBulk_def bulk_def)
next
  case (Cons ch p)
  let ?w = "nat_dec (length a)"
  have ch: "ch = CHR ''$''" and p: "p @ f = ?w @ CRLF @ (a @ CRLF @ r)"
    using assms(2) Cons by (simp_all add: bulk_def)
  have find: "str_find (ch # p) CRLF 1 = map_option Suc (find_sub CRLF p)"
    by (cases "find_sub CRLF p") (simp_all add: str_find_def)
  have lena: "int (length a) \<le> PROTO_REQ_BULK_MAX_LEN" "length a < 2 ^ 63"
    using assms(3) by (auto simp: plain_arg_def PROTO_REQ_BULK_MAX_LEN_def)
  from line_split [OF nat_dec_no_CR p] show ?thesis
  proof (elim disjE exE conjE)
    assume short: "length p < length ?w + 2" "find_sub CRLF p = None"
    have "length ?w \<le> 20"
    proof -
      have "length ?w \<le> 10"
        using nat_dec_length [of "length a" 10] assms(3) by (auto simp: plain_arg_def)
      then show ?thesis by simp
    qed
    then have "analyseBulk c s = Ret (s, -1)"
      using assms(1) Cons ch short find
      by (simp add: analyseBulk_def no_newline_yet_def PROTO_INLINE_MAX_SIZE_def)
    moreover have "length (queryBuf x) < length (bulk a)" using short(1) Cons by (simp add: bulk_def)
    ultimately show ?thesis by simp
  next
    fix p' assume p': "p = ?w @ CRLF @ p'" "p' @ f = a @ CRLF @ r" "find_sub CRLF p = Some (length ?w)"
    let ?pos = "Suc (length ?w)"
    have pos: "str_find (ch # p) CRLF 1 = Some ?pos" using find p'(3) by simp
    have num: "string2int64 (substr (ch # p) 1 (?pos - 1)) 0 = (1, int (length a))"
      using string2int64_nat [OF lena(2)] p'(1) by (simp add: substr_def)
    have dropp: "drop (?pos + 2) (ch # p) = p'" "?pos + 2 \<le> length (ch # p)" using p'(1) by simp_all
    then have find2: "str_find (ch # p) CRLF (?pos + 2) = map_option ((+) (?pos + 2)) (find_sub CRLF p')"
      by (simp add: str_find_def)
    have body: "analyseBulk c s = bulk_payload (int (length a)) (?pos + 2) c s"
      using assms(1) Cons ch pos num lena(1) by (simp add: analyseBulk_def)
    have CR: "CHR 0x0D \<notin> set a" using assms(3) by (simp add: plain_arg_def)
    from line_split [OF CR p'(2)] show ?thesis
    proof (elim disjE exE conjE)
      assume short: "length p' < length a + 2" "find_sub CRLF p' = None"
      then have "analyseBulk c s = Ret (s, -1)"
        using assms(1) Cons find2 body by (simp add: bulk_payload_def)
      moreover have "length (queryBuf x) < length (bulk a)" using short(1) Cons p'(1) by (simp add: bulk_def)
      ultimately show ?thesis by simp
    next
      fix q assume q: "p' = a @ CRLF @ q" "q @ f = r" "find_sub CRLF p' = Some (length a)"
      let ?y = "x\<lparr>argv := argv x @ [a], queryBuf := q\<rparr>"
      have "substr (ch # p) (?pos + 2) (?pos + 2 + length a - (?pos + 2)) = a"
        using dropp(1) q(1) by (simp add: substr_def)
      moreover have "drop (?pos + 2 + length a + 2) (ch # p) = drop (length a + 2) p'"
        using dropp(1) by (metis add.assoc add.commute drop_drop)
      then have "drop (?pos + 2 + length a + 2) (ch # p) = q" using q(1) by simp
      moreover have "?pos + 2 + length a + 2 \<le> length (ch # p)" using p'(1) q(1) by simp
      ultimately have "with_obj (\<lambda>x. res_bind (addArgv (substr (ch # p) (?pos + 2) (?pos + 2 + length a - (?pos + 2))) x)
          (trimQueryBuf (?pos + 2 + length a + 2))) c s = Ret (upd_obj c (\<lambda>_. ?y) s)"
        using Cons
        by (intro with_obj_Ret [where x = x and y = ?y, OF assms(1)])
          (simp add: addArgv_def assms(4,5) trimQueryBuf_def)
      then have "analyseBulk c s = Ret (upd_obj c (\<lambda>_. ?y) s, 1)"
        using assms(1) Cons find2 body q(3) by (simp add: bulk_payload_def Let_def)
      then show ?thesis using q Cons ch p'(1) by (auto simp: bulk_def)
    qed
  qed
qed

section \<open>A whole command\<close>

abbreviation bulks :: "string list \<Rightarrow> string" where
  "bulks args \<equiv> concat (map bulk args)"

lemma bulks_arrive:
  assumes "\<forall>a \<in> set args. plain_arg a"
  shows "\<lbrakk>obj s c = Ret x; argvCap x = Some (length args); argv x = take k args; k \<le> length args;
    queryBuf x @ f = bulks (drop k args); m = length args - k\<rbrakk> \<Longrightarrow>
   \<exists>k' q. k \<le> k' \<and> k' \<le> length args \<and> q @ f = bulks (drop k' args) \<and> (f = [] \<longrightarrow> k' = length args) \<and>
     analyse_bulks junk m c s =
       Ret (upd_obj c (\<lambda>_. x\<lparr>argv := take k' args, queryBuf := q\<rparr>) s, if k' = length args then junk else -1)"
proof (induction m arbitrary: s x k)
  case 0
  then have k: "k = length args" "queryBuf x = []" "f = []" by auto
  then have "x\<lparr>argv := take k args, queryBuf := []\<rparr> = x" using 0 by simp
  then have "upd_obj c (\<lambda>_. x\<lparr>argv := take k args, queryBuf := []\<rparr>) s = s" using upd_obj_same [OF 0(1)] by simp
  then show ?case using k 0 by (intro exI [of _ k] exI [of _ "[]"]) simp
next
  case (Suc m)
  then have k: "k < length args" by simp
  then have dk: "drop k args = args ! k # drop (Suc k) args" by (simp add: Cons_nth_drop_Suc)
  have pl: "plain_arg (args ! k)" using assms k by simp
  have st: "queryBuf x @ f = bulk (args ! k) @ bulks (drop (Suc k) args)" using Suc.prems(5) dk by simp
  have "length (argv x) < length args" using Suc.prems(3) k by simp
  from bulk_arrives [OF Suc.prems(1) st pl Suc.prems(2) this] show ?case
  proof (elim disjE exE conjE)
    assume short: "length (queryBuf x) < length (bulk (args ! k))" "analyseBulk c s = Ret (s, -1)"
    have "f \<noteq> []" using short(1) arg_cong [OF st, of length] by auto
    moreover have "x\<lparr>argv := take k args, queryBuf := queryBuf x\<rparr> = x" using Suc.prems(3) by simp
    then have "upd_obj c (\<lambda>_. x\<lparr>argv := take k args, queryBuf := queryBuf x\<rparr>) s = s"
      using upd_obj_same [OF Suc.prems(1)] by simp
    ultimately show ?thesis using short(2) Suc.prems(5) k
      by (intro exI [of _ k] exI [of _ "queryBuf x"]) simp
  next
    fix q assume q: "queryBuf x = bulk (args ! k) @ q" "q @ f = bulks (drop (Suc k) args)"
      "analyseBulk c s = Ret (upd_obj c (\<lambda>_. x\<lparr>argv := argv x @ [args ! k], queryBuf := q\<rparr>) s, 1)"
    let ?x = "x\<lparr>argv := argv x @ [args ! k], queryBuf := q\<rparr>"
    have o1: "obj (upd_obj c (\<lambda>_. ?x) s) c = Ret ?x" using obj_upd_const [OF Suc.prems(1)] .
    have av: "argv ?x = take (Suc k) args" using Suc.prems(3) k by (simp add: take_Suc_conv_app_nth)
    have cap: "argvCap ?x = Some (length args)" "Suc k \<le> length args" "queryBuf ?x @ f = bulks (drop (Suc k) args)"
      "m = length args - Suc k" using Suc.prems(2,6) k q(2) by simp_all
    obtain k' q' where IH: "Suc k \<le> k'" "k' \<le> length args" "q' @ f = bulks (drop k' args)" "f = [] \<longrightarrow> k' = length args"
      "analyse_bulks junk m c (upd_obj c (\<lambda>_. ?x) s) = Ret (upd_obj c (\<lambda>_. ?x\<lparr>argv := take k' args, queryBuf := q'\<rparr>)
          (upd_obj c (\<lambda>_. ?x) s), if k' = length args then junk else -1)"
      using Suc.IH [OF o1 cap(1) av cap(2,3,4)] by blast
    then show ?thesis using q(3)
      by (intro exI [of _ k'] exI [of _ q']) simp
  qed
qed

text \<open>
  Where the parser is in a command, with \<open>f\<close> still to arrive: nothing of it read, the array length and
  some arguments read, everything read.
\<close>

definition reading :: "string list \<Rightarrow> string \<Rightarrow> fly_client \<Rightarrow> bool" where
  "reading args f x \<longleftrightarrow>
     multiBulkLen x = 0 \<and> queryBuf x @ f = resp_encode args \<or>
     multiBulkLen x = int (length args) \<and> reqType x = PROTO_REQ_MULTIBULK \<and> argvCap x = Some (length args) \<and>
       (\<exists>k < length args. argv x = take k args \<and> queryBuf x @ f = bulks (drop k args))"

text \<open>
  After the last byte: the arguments are complete and the buffer is empty. \<open>junk\<close> is what the caller reads
  from \<open>analyseMultiBulk\<close>, which has no return statement behind its loop: if it happens to be -1 the
  caller takes the command for incomplete.
\<close>

definition read_all :: "int \<Rightarrow> string list \<Rightarrow> fly_client \<Rightarrow> bool" where
  "read_all junk args x \<longleftrightarrow> argv x = args \<and> queryBuf x = [] \<and>
     (if junk = -1 then multiBulkLen x = int (length args) \<and> reqType x = PROTO_REQ_MULTIBULK
      else multiBulkLen x = 0 \<and> reqType x = 0)"

lemma bulks_Nil_iff: "bulks (drop k args) = [] \<longleftrightarrow> length args \<le> k"
  by (cases "drop k args") (auto simp: bulk_def)

lemma multibulk_mid:
  assumes "obj s c = Ret x" and "\<forall>a \<in> set args. plain_arg a"
    and "multiBulkLen x = int (length args)" "argvCap x = Some (length args)"
    and "k \<le> length args" "argv x = take k args" "queryBuf x @ f = bulks (drop k args)"
  shows "\<exists>k' q. q @ f = bulks (drop k' args) \<and> k' \<le> length args \<and> (f = [] \<longrightarrow> k' = length args) \<and>
    analyseMultiBulk junk c s =
      Ret (upd_obj c (\<lambda>_. x\<lparr>argv := take k' args, queryBuf := q\<rparr>) s, if k' = length args then junk else -1)"
proof -
  have m: "nat (multiBulkLen x - int (length (argv x))) = length args - k" using assms(3,5,6) by simp
  have "analyseMultiBulk junk c s = analyse_bulks junk (length args - k) c s"
    by (simp only: analyseMultiBulk_def assms(1) res_bind.simps m)
  then show ?thesis
    using bulks_arrive [OF assms(2,1,4,6,5,7) HOL.refl, of junk] by metis
qed

lemma resp_len_arrives:
  assumes "obj s c = Ret x" and "queryBuf x @ f = resp_encode args" and "length args \<le> 1024 * 1024"
  shows "(f \<noteq> [] \<and> analyseMultiBulkLen c s = Ret (s, -1)) \<or>
    (\<exists>q. q @ f = bulks args \<and> analyseMultiBulkLen c s =
       Ret (upd_obj c (\<lambda>_. x\<lparr>multiBulkLen := int (length args), argv := [], argvCap := Some (length args),
         argvGen := Suc (argvGen x), queryBuf := q\<rparr>) s, 1))"
proof -
  let ?w = "nat_dec (length args)"
  have p: "queryBuf x @ f = (CHR ''*'' # ?w) @ CRLF @ bulks args" using assms(2) by (simp add: resp_encode_def)
  have CR: "CHR 0x0D \<notin> set (CHR ''*'' # ?w)" using nat_dec_no_CR by simp
  have len: "length ?w \<le> 7" using nat_dec_length [of "length args" 7] assms(3) by simp
  from line_split [OF CR p] show ?thesis
  proof (elim disjE exE conjE)
    assume short: "length (queryBuf x) < length (CHR ''*'' # ?w) + 2" "find_sub CRLF (queryBuf x) = None"
    then have "analyseMultiBulkLen c s = Ret (s, -1)" using assms(1) len
      by (simp add: analyseMultiBulkLen_def str_find_def no_newline_yet_def PROTO_INLINE_MAX_SIZE_def)
    moreover have "f \<noteq> []" using short(1) arg_cong [OF p, of length] by auto
    ultimately show ?thesis by simp
  next
    fix q assume q: "queryBuf x = (CHR ''*'' # ?w) @ CRLF @ q" "q @ f = bulks args"
      "find_sub CRLF (queryBuf x) = Some (length (CHR ''*'' # ?w))"
    let ?y = "x\<lparr>multiBulkLen := int (length args), argv := [], argvCap := Some (length args),
         argvGen := Suc (argvGen x), queryBuf := q\<rparr>"
    have num: "string2int64 ?w 0 = (1, int (length args))" using string2int64_nat [of "length args"] assms(3) by simp
    have "with_obj (\<lambda>x. trimQueryBuf (Suc (length ?w) + 2) (allocArgv (length args) (x\<lparr>multiBulkLen := int (length args)\<rparr>))) c s
        = Ret (upd_obj c (\<lambda>_. ?y) s)"
      using q(1) by (intro with_obj_Ret [where x = x and y = ?y, OF assms(1)])
        (simp add: trimQueryBuf_def allocArgv_def freeArgv_def)
    then have "analyseMultiBulkLen c s = Ret (upd_obj c (\<lambda>_. ?y) s, 1)"
      using assms(1,3) q num
      by (simp add: analyseMultiBulkLen_def str_find_def substr_def PROTO_REQ_MULTIBULK_MAX_LEN_def)
    then show ?thesis using q(2) by blast
  qed
qed

text \<open>One round of the loop.\<close>

definition round_done :: "int \<Rightarrow> string list \<Rightarrow> string \<Rightarrow> fly_client \<Rightarrow> int \<Rightarrow> bool" where
  "round_done junk args f y r \<longleftrightarrow>
     f \<noteq> [] \<and> r = -1 \<and> reading args f y \<or>
     f = [] \<and> r = (if junk = -1 then -1 else 1) \<and> read_all junk args y"

lemma multibulk_tail:
  assumes o1: "obj s c = Ret x" and plain: "\<forall>a \<in> set args. plain_arg a"
    and x: "multiBulkLen x = int (length args)" "argvCap x = Some (length args)" "reqType x = PROTO_REQ_MULTIBULK"
    and k: "k \<le> length args" "argv x = take k args" "queryBuf x @ f = bulks (drop k args)"
  shows "\<exists>y r. res_bind (analyseMultiBulk junk c s) (\<lambda>(s, r).
       if r = -1 then Ret (s, -1) else Ret (upd_obj c (\<lambda>x. x\<lparr>multiBulkLen := 0, reqType := 0\<rparr>) s, 1)) =
     Ret (upd_obj c (\<lambda>_. y) s, r) \<and> round_done junk args f y r"
proof -
  obtain k' q where q: "q @ f = bulks (drop k' args)" "k' \<le> length args" "f = [] \<longrightarrow> k' = length args"
    "analyseMultiBulk junk c s =
      Ret (upd_obj c (\<lambda>_. x\<lparr>argv := take k' args, queryBuf := q\<rparr>) s, if k' = length args then junk else -1)"
    using multibulk_mid [OF o1 plain x(1,2) k] by blast
  let ?y = "x\<lparr>argv := take k' args, queryBuf := q\<rparr>"
  show ?thesis
  proof (cases "k' = length args")
    case True
    then have e: "q = []" "f = []" using q(1) by auto
    show ?thesis
    proof (cases "junk = -1")
      case j: True
      have "read_all junk args ?y" using True e x j by (simp add: read_all_def)
      then show ?thesis using q(4) True e j by (intro exI [of _ ?y] exI [of _ "-1"]) (simp add: round_done_def)
    next
      case j: False
      let ?z = "?y\<lparr>multiBulkLen := 0, reqType := 0\<rparr>"
      have u: "upd_obj c (\<lambda>x. x\<lparr>multiBulkLen := 0, reqType := 0\<rparr>) (upd_obj c (\<lambda>_. ?y) s) = upd_obj c (\<lambda>_. ?z) s"
        using upd_obj_fun [OF obj_upd_const [OF o1]] by simp
      have "read_all junk args ?z" using True e j by (simp add: read_all_def)
      then show ?thesis using q(4) True e j u by (intro exI [of _ ?z] exI [of _ 1]) (simp add: round_done_def)
    qed
  next
    case False
    then have "reading args f ?y" using q x by (auto simp: reading_def intro!: exI [of _ k'])
    then show ?thesis using q(3,4) False by (intro exI [of _ ?y] exI [of _ "-1"]) (simp add: round_done_def)
  qed
qed

lemma round_reading:
  assumes o: "obj s c = Ret x" and rd: "reading args f x" and plain: "\<forall>a \<in> set args. plain_arg a"
    and n: "length args \<le> 1024 * 1024" "args \<noteq> []" and q: "queryBuf x \<noteq> []"
  shows "\<exists>y r. input_round junk c s = Ret (upd_obj c (\<lambda>_. y) s, r) \<and> round_done junk args f y r"
proof -
  let ?x0 = "x\<lparr>reqType := PROTO_REQ_MULTIBULK\<rparr>"
  let ?s0 = "upd_obj c (\<lambda>_. ?x0) s"
  have "hd (queryBuf x) = CHR ''*'' \<or> reqType x = PROTO_REQ_MULTIBULK"
    using rd q by (cases "queryBuf x") (auto simp: reading_def resp_encode_def)
  then have ir: "input_round junk c s = processMultiBulkBuffer junk c s" using o by (simp add: input_round_def)
  have s0: "upd_obj c (\<lambda>x. x\<lparr>reqType := PROTO_REQ_MULTIBULK\<rparr>) s = ?s0" by (rule upd_obj_fun [OF o])
  have o0: "obj ?s0 c = Ret ?x0" by (rule obj_upd_const [OF o])
  show ?thesis
  proof (cases "multiBulkLen x = 0")
    case True
    then have enc: "queryBuf ?x0 @ f = resp_encode args" using rd n by (auto simp: reading_def)
    from resp_len_arrives [OF o0 enc n(1)] show ?thesis
    proof (elim disjE exE conjE)
      assume "f \<noteq> []" "analyseMultiBulkLen c ?s0 = Ret (?s0, -1)"
      then show ?thesis using ir s0 o0 True enc
        by (intro exI [of _ ?x0] exI [of _ "-1"]) (simp add: processMultiBulkBuffer_def round_done_def reading_def)
    next
      fix q1 assume q1: "q1 @ f = bulks args" "analyseMultiBulkLen c ?s0 =
        Ret (upd_obj c (\<lambda>_. ?x0\<lparr>multiBulkLen := int (length args), argv := [], argvCap := Some (length args),
         argvGen := Suc (argvGen ?x0), queryBuf := q1\<rparr>) ?s0, 1)"
      let ?x1 = "?x0\<lparr>multiBulkLen := int (length args), argv := [], argvCap := Some (length args),
         argvGen := Suc (argvGen ?x0), queryBuf := q1\<rparr>"
      let ?s1 = "upd_obj c (\<lambda>_. ?x1) s"
      have o1: "obj ?s1 c = Ret ?x1" by (rule obj_upd_const [OF o])
      obtain y r where y: "res_bind (analyseMultiBulk junk c ?s1) (\<lambda>(s, r).
           if r = -1 then Ret (s, -1) else Ret (upd_obj c (\<lambda>x. x\<lparr>multiBulkLen := 0, reqType := 0\<rparr>) s, 1)) =
         Ret (upd_obj c (\<lambda>_. y) ?s1, r)" "round_done junk args f y r"
        using multibulk_tail [OF o1 plain, of 0 f junk] q1(1) by auto
      have "input_round junk c s = Ret (upd_obj c (\<lambda>_. y) s, r)"
        using ir s0 o0 True q1(2) y(1) by (simp add: processMultiBulkBuffer_def)
      then show ?thesis using y(2) by blast
    qed
  next
    case False
    then obtain k where "k < length args" and k: "multiBulkLen ?x0 = int (length args)" "argvCap ?x0 = Some (length args)" "k \<le> length args"
      "argv ?x0 = take k args" "queryBuf ?x0 @ f = bulks (drop k args)" "reqType ?x0 = PROTO_REQ_MULTIBULK"
      using rd by (auto simp: reading_def intro: less_imp_le)
    obtain y r where y: "res_bind (analyseMultiBulk junk c ?s0) (\<lambda>(s, r).
         if r = -1 then Ret (s, -1) else Ret (upd_obj c (\<lambda>x. x\<lparr>multiBulkLen := 0, reqType := 0\<rparr>) s, 1)) =
       Ret (upd_obj c (\<lambda>_. y) ?s0, r)" "round_done junk args f y r"
      using multibulk_tail [OF o0 plain k(1,2,6,3,4,5)] by blast
    have "input_round junk c s = Ret (upd_obj c (\<lambda>_. y) s, r)"
      using ir s0 o0 False y(1) by (simp add: processMultiBulkBuffer_def)
    then show ?thesis using y(2) by blast
  qed
qed

lemma reading_over: "reading args [] x \<Longrightarrow> queryBuf x \<noteq> []"
  using bulks_Nil_iff [of _ args] by (force simp: reading_def resp_encode_def)

text \<open>One call of the loop, with something in the buffer.\<close>

lemma loop_reading:
  assumes o: "obj s c = Ret x" and rd: "reading args f x" and q: "queryBuf x \<noteq> []"
    and plain: "\<forall>a \<in> set args. plain_arg a" and n: "length args \<le> 1024 * 1024" "args \<noteq> []"
  shows "\<exists>y r. input_loop junk c s = Ret (upd_obj c (\<lambda>_. y) s, r) \<and> round_done junk args f y r"
proof -
  obtain y r where y: "input_round junk c s = Ret (upd_obj c (\<lambda>_. y) s, r)" "round_done junk args f y r"
    using round_reading [OF o rd plain n q] by blast
  have oy: "obj (upd_obj c (\<lambda>_. y) s) c = Ret y" by (rule obj_upd_const [OF o])
  show ?thesis
  proof (cases "r = -1")
    case True
    then have "input_loop junk c s = Ret (upd_obj c (\<lambda>_. y) s, -1)"
      using o q y(1) by (subst input_loop.simps) simp
    then show ?thesis using y(2) True by blast
  next
    case F: False
    then have ry: "read_all junk args y" "r = 1" using y(2) by (auto simp: round_done_def split: if_splits)
    then have "input_loop junk c (upd_obj c (\<lambda>_. y) s) = Ret (upd_obj c (\<lambda>_. y) s, 1)"
      using oy by (subst input_loop.simps) (simp add: read_all_def)
    then have "input_loop junk c s = Ret (upd_obj c (\<lambda>_. y) s, 1)"
      using o q y(1) F by (subst input_loop.simps) simp
    then show ?thesis using y(2) ry(2) by blast
  qed
qed

lemma piece_read:
  assumes o: "obj s c = Ret u" and rd: "reading args (p @ f) x" and p: "p \<noteq> []"
    and plain: "\<forall>a \<in> set args. plain_arg a" and n: "length args \<le> 1024 * 1024" "args \<noteq> []"
  shows "\<exists>y r. input_loop junk c (upd_obj c (\<lambda>_. addToQueryBuf p x) s) = Ret (upd_obj c (\<lambda>_. y) s, r) \<and>
    round_done junk args f y r"
proof -
  have "reading args f (addToQueryBuf p x)" using rd by (auto simp: reading_def addToQueryBuf_def)
  moreover have "queryBuf (addToQueryBuf p x) \<noteq> []" using p by (simp add: addToQueryBuf_def)
  ultimately obtain y r where "input_loop junk c (upd_obj c (\<lambda>_. addToQueryBuf p x) s) =
      Ret (upd_obj c (\<lambda>_. y) (upd_obj c (\<lambda>_. addToQueryBuf p x) s), r)" "round_done junk args f y r"
    using loop_reading [OF obj_upd_const [OF o] _ _ plain n] by blast
  then show ?thesis by auto
qed

text \<open>
  The states of the client between the pieces: \<open>y\<close> follows \<open>x\<close> when appending the next piece to the
  query buffer and running the loop of \<open>processInputBuffer\<close> leaves the client as \<open>y\<close>.
\<close>

lemma pieces_read:
  assumes o: "obj s c = Ret u" and plain: "\<forall>a \<in> set args. plain_arg a"
    and n: "length args \<le> 1024 * 1024" "args \<noteq> []"
  shows "\<lbrakk>ps \<noteq> []; [] \<notin> set ps; reading args (concat ps) x\<rbrakk> \<Longrightarrow>
    \<exists>zs. length zs = length ps \<and> read_all junk args (last zs) \<and>
      (\<forall>i < length ps. input_loop junk c (upd_obj c (\<lambda>_. addToQueryBuf (ps ! i) ((x # zs) ! i)) s) =
         Ret (upd_obj c (\<lambda>_. zs ! i) s, if Suc i = length ps \<and> junk \<noteq> -1 then 1 else -1))"
proof (induction ps arbitrary: x)
  case (Cons p ps)
  have p: "p \<noteq> []" and rd: "reading args (p @ concat ps) x" using Cons.prems by auto
  obtain y r where y: "input_loop junk c (upd_obj c (\<lambda>_. addToQueryBuf p x) s) = Ret (upd_obj c (\<lambda>_. y) s, r)"
    "round_done junk args (concat ps) y r"
    using piece_read [OF o rd p plain n] by blast
  show ?case
  proof (cases "ps = []")
    case True
    then show ?thesis using y by (intro exI [of _ "[y]"]) (auto simp: round_done_def)
  next
    case False
    then have "concat ps \<noteq> []" using Cons.prems(2) by (cases ps) auto
    then have r: "r = -1" "reading args (concat ps) y" using y(2) by (auto simp: round_done_def)
    obtain zs where zs: "length zs = length ps" "read_all junk args (last zs)"
      "\<forall>i < length ps. input_loop junk c (upd_obj c (\<lambda>_. addToQueryBuf (ps ! i) ((y # zs) ! i)) s) =
         Ret (upd_obj c (\<lambda>_. zs ! i) s, if Suc i = length ps \<and> junk \<noteq> -1 then 1 else -1)"
      using Cons.IH [OF False _ r(2)] Cons.prems(2) by auto
    have "zs \<noteq> []" using zs(1) False by auto
    moreover have "input_loop junk c (upd_obj c (\<lambda>_. addToQueryBuf ((p # ps) ! i) ((x # y # zs) ! i)) s) =
         Ret (upd_obj c (\<lambda>_. (y # zs) ! i) s, if Suc i = length (p # ps) \<and> junk \<noteq> -1 then 1 else -1)"
      if "i < length (p # ps)" for i
      using that zs(3) y(1) r(1) False by (cases i) auto
    ultimately show ?thesis using zs(1,2) by (intro exI [of _ "y # zs"]) simp
  qed
qed simp

section \<open>Inline commands and errors\<close>

lemma addArgvs_all:
  "length (argv x) + length ws \<le> n \<Longrightarrow> argvCap x = Some n \<Longrightarrow> addArgvs ws x = Ret (x\<lparr>argv := argv x @ ws\<rparr>)"
proof (induction ws arbitrary: x)
  case (Cons w ws)
  then have "addArgv w x = Ret (x\<lparr>argv := argv x @ [w]\<rparr>)" by (simp add: addArgv_def)
  then show ?case using Cons.IH [of "x\<lparr>argv := argv x @ [w]\<rparr>"] Cons.prems by simp
qed simp

lemma join_no_CR:
  "\<forall>w \<in> set ws. CHR 0x0D \<notin> set w \<Longrightarrow> CHR 0x0D \<notin> set (join '' '' ws)"
  by (induction "'' ''" ws rule: join.induct) auto

lemma inline_words:
  assumes "obj s c = Ret x" and "queryBuf x = join '' '' ws @ CRLF @ rest" and "ws \<noteq> []"
    and "\<forall>w \<in> set ws. w \<noteq> [] \<and> CHR '' '' \<notin> set w \<and> CHR 0x0D \<notin> set w"
  shows "processInlineBuffer c s =
    Ret (upd_obj c (\<lambda>_. x\<lparr>argv := ws, argvCap := Some (length ws), argvGen := Suc (argvGen x), queryBuf := rest\<rparr>) s, 1)"
proof -
  have CR: "CHR 0x0D \<notin> set (join '' '' ws)" using assms(4) by (intro join_no_CR) blast
  then have pos: "str_find (queryBuf x) CRLF 0 = Some (length (join '' '' ws))"
    using assms(2) find_sub_first [of CRLF "join '' '' ws" rest] by (simp add: str_find_def)
  have "\<forall>w \<in> set ws. splittable '' '' w" using assms(4) by (fastforce simp: splittable_def dest: hd_in_set)
  then have toks: "spiltString (join '' '' ws) '' '' = Some ws"
    by (simp add: spiltString_tokens tokens_join)
  have len: "length (join '' '' ws) + 2 \<le> length (queryBuf x)" using assms(2) by simp
  let ?y = "x\<lparr>argv := ws, argvCap := Some (length ws), argvGen := Suc (argvGen x), queryBuf := rest\<rparr>"
  have "addArgvs ws (allocArgv (length ws) x) = Ret ((allocArgv (length ws) x)\<lparr>argv := ws\<rparr>)"
    using addArgvs_all [of "allocArgv (length ws) x" ws "length ws"] by (simp add: allocArgv_def freeArgv_def)
  then have "with_obj (\<lambda>x. res_bind (addArgvs ws (allocArgv (length ws) x)) (trimQueryBuf (length (join '' '' ws) + 2))) c s =
      Ret (upd_obj c (\<lambda>_. ?y) s)"
    using assms(2) len by (intro with_obj_Ret [where x = x and y = ?y, OF assms(1)])
      (simp add: trimQueryBuf_def allocArgv_def freeArgv_def)
  then show ?thesis
    using assms(1,2,3) pos toks by (simp add: processInlineBuffer_def substr_def)
qed

text \<open>Error replies reach the client as empty text.\<close>

lemma error_is_empty:
  assumes "length (c_str err) < 10 ^ 8"
  shows "addReplyError err c s = addReplyRaw [] c s"
proof -
  define str where "str = ''-ERR '' @ nat_dec (length (c_str err)) @ CRLF"
  have "length str \<le> 16" using nat_dec_length [OF assms] by (simp add: str_def)
  moreover have "NUL \<notin> set str"
    using nat_dec_digits [of "length (c_str err)"] by (auto simp: str_def CRLF_def NUL_def is_digit_def)
  moreover have "str \<noteq> []" by (simp add: str_def)
  ultimately obtain f where f: "fio_write mem_basewrite str (length str) (new_fio new_memfio) = Ret (f, length str)"
    "getStr (dev f) = []"
    using mem_write_short [of str "new_fio new_memfio"] by (auto simp: new_fio_def new_memfio_def getStr_def)
  have "writeBulkError mem_basewrite err (new_fio new_memfio) = Ret (f, length str)"
    using f(1) \<open>str \<noteq> []\<close> by (simp only: writeBulkError_def Let_def str_def [symmetric]) simp
  then show ?thesis
    using f(2) by (simp add: addReplyError_def mem_reply_def addReply_def c_str_def)
qed

lemma addToPending_output:
  "obj s c = Ret x \<Longrightarrow> \<exists>y. obj (addToClientsPendingToWrite fd s) c = Ret y \<and> fc_buf y = fc_buf x \<and> replies y = replies x"
  by (auto simp: addToClientsPendingToWrite_def obj_def upd_obj_def fc_addFlag_def nth_list_update
      split: option.split if_splits)

lemma addReplyRaw_empty:
  assumes "obj s c = Ret x" and "replies x = []"
  shows "\<exists>t y. addReplyRaw [] c s = Ret t \<and> obj t c = Ret y \<and> fc_buf y = fc_buf x \<and> replies y = [] \<and>
    queryBuf y = queryBuf x"
proof -
  obtain t r where t: "prepareClientToWrite c s = Ret (t, r)"
    using assms(1) by (cases "prepareClientToWrite c s") (auto simp: prepareClientToWrite_def split: if_splits)
  obtain y where y: "obj t c = Ret y" "fc_buf y = fc_buf x" "replies y = []"
    using t assms addToPending_output [OF assms(1)]
    by (fastforce simp: prepareClientToWrite_def split: if_splits)
  have q: "queryBuf y = queryBuf x" using same_input_obj [OF prepare_input [OF t] y(1)] assms(1) by auto
  have "addReplyToBuffer [] y = (y, 1)" using y(3) by (simp add: addReplyToBuffer_def)
  then have "addReplyRaw [] c s = Ret t"
    using t y(1) upd_obj_same [OF y(1)] by (simp add: addReplyRaw_def c_str_def)
  then show ?thesis using y q by blast
qed

lemma has_flag_set: "has_flag (f OR b) b \<longleftrightarrow> b \<noteq> 0"
  by (auto simp: has_flag_def word_ao_dist and.assoc word_ao_absorbs(2) bit_eq_iff bit_simps)

lemma protocol_error_effect:
  assumes "obj s c = Ret x" and "replies x = []" and "pos + 2 \<le> length (queryBuf x)" and "length (c_str err) < 10 ^ 8"
  shows "\<exists>t y. protocol_error err pos c s = Ret t \<and> obj t c = Ret y \<and> fc_buf y = fc_buf x \<and> replies y = [] \<and>
    queryBuf y = drop (pos + 2) (queryBuf x) \<and> has_flag (fc_flags y) CLIENT_CLOSE_AFTER_REPLY"
proof -
  obtain u z where u: "addReplyRaw [] c s = Ret u" "obj u c = Ret z" "fc_buf z = fc_buf x" "replies z = []"
    "queryBuf z = queryBuf x"
    using addReplyRaw_empty [OF assms(1,2)] by blast
  let ?y = "(fc_addFlag CLIENT_CLOSE_AFTER_REPLY z)\<lparr>queryBuf := drop (pos + 2) (queryBuf z)\<rparr>"
  have "setProtocolError pos c u = Ret (upd_obj c (\<lambda>_. ?y) u)"
    unfolding setProtocolError_def using assms(3) u(5)
    by (intro with_obj_Ret [where x = z and y = ?y, OF u(2)]) (simp add: trimQueryBuf_def fc_addFlag_def)
  then have "protocol_error err pos c s = Ret (upd_obj c (\<lambda>_. ?y) u)"
    using u(1) error_is_empty [OF assms(4)] by (simp add: protocol_error_def)
  moreover have "has_flag (fc_flags ?y) CLIENT_CLOSE_AFTER_REPLY"
    by (simp add: fc_addFlag_def has_flag_set CLIENT_CLOSE_AFTER_REPLY_def)
  moreover have "fc_buf ?y = fc_buf x" "replies ?y = []" "queryBuf ?y = drop (pos + 2) (queryBuf x)"
    using u by (simp_all add: fc_addFlag_def)
  ultimately show ?thesis using obj_upd_const [OF u(2)] by blast
qed

lemma unat_small: "k < 2 ^ 64 \<Longrightarrow> unat (of_nat k :: 64 word) = k"
  by (simp add: unat_of_nat take_bit_nat_eq_self)

lemma line_break_in_bulk:
  assumes o: "obj s c = Ret x" and r: "replies x = []" and q: "queryBuf x = bulk (u @ CRLF @ v) @ rest"
    and CR: "CHR 0x0D \<notin> set u" and len: "length (u @ CRLF @ v) \<le> 512 * 1024 * 1024"
  shows "\<exists>t y. analyseBulk c s = Ret (t, -1) \<and> obj t c = Ret y \<and> fc_buf y = fc_buf x \<and> replies y = [] \<and>
    has_flag (fc_flags y) CLIENT_CLOSE_AFTER_REPLY \<and> queryBuf y = v @ CRLF @ rest"
proof -
  let ?a = "u @ CRLF @ v" let ?w = "nat_dec (length ?a)"
  let ?pos = "Suc (length ?w)"
  have qq: "queryBuf x = CHR ''$'' # ?w @ CRLF @ u @ CRLF @ v @ CRLF @ rest" using q by (simp add: bulk_def)
  have f1: "str_find (queryBuf x) CRLF 1 = Some ?pos"
    using find_sub_first [of CRLF ?w] nat_dec_no_CR by (simp add: qq str_find_def)
  have n: "string2int64 (substr (queryBuf x) 1 (?pos - 1)) 0 = (1, int (length ?a))"
    using string2int64_nat [of "length ?a"] len by (simp add: qq substr_def)
  have "drop (?pos + 2) (queryBuf x) = u @ CRLF @ v @ CRLF @ rest" by (simp add: qq)
  then have f2: "str_find (queryBuf x) CRLF (?pos + 2) = Some (?pos + 2 + length u)"
    using find_sub_first [of CRLF u] CR by (simp add: str_find_def) (simp add: qq)
  have wrong: "(of_nat (?pos + 2 + length u - (?pos + 2)) :: 64 word) \<noteq> of_int (int (length ?a))"
  proof
    assume "(of_nat (?pos + 2 + length u - (?pos + 2)) :: 64 word) = of_int (int (length ?a))"
    then have "unat (of_nat (length u) :: 64 word) = unat (of_nat (length ?a) :: 64 word)"
      by (simp only: add_diff_cancel_left' of_int_of_nat_eq)
    moreover have small: "length ?a < 2 ^ 64" by (rule le_less_trans [OF len]) simp
    then have "length u < 2 ^ 64" by (rule le_less_trans [rotated]) simp
    ultimately have "length u = length ?a" using small by (simp only: unat_small)
    then show False by simp
  qed
  have body: "analyseBulk c s = bulk_payload (int (length ?a)) (?pos + 2) c s"
    using o f1 n len by (simp add: qq analyseBulk_def PROTO_REQ_BULK_MAX_LEN_def)
  have body2: "bulk_payload (int (length ?a)) (?pos + 2) c s =
      res_bind (protocol_error ''Protocol error: not enough bulk space'' (?pos + 2 + length u) c s) (\<lambda>s. Ret (s, -1))"
    unfolding bulk_payload_def o res_bind.simps Let_def f2 option.case using wrong by (simp only: if_True simp_thms not_False_eq_True)
  obtain t y where "protocol_error ''Protocol error: not enough bulk space'' (?pos + 2 + length u) c s = Ret t"
    "obj t c = Ret y" "fc_buf y = fc_buf x" "replies y = []"
    "queryBuf y = drop (?pos + 2 + length u + 2) (queryBuf x)" "has_flag (fc_flags y) CLIENT_CLOSE_AFTER_REPLY"
    using protocol_error_effect [OF o r, of "?pos + 2 + length u" "''Protocol error: not enough bulk space''"] qq
    by (auto simp: c_str_def NUL_def)
  then show ?thesis using body body2 by (intro exI [of _ t] exI [of _ y]) (simp add: qq)
qed

section \<open>Properties\<close>



text \<open>
  An inline command, words separated by single blanks and ended by a line break, becomes the
  argument array, and exactly its bytes leave the query buffer.
\<close>

lemma inline_command_words:
  assumes "obj s c = Ret x" and "queryBuf x = join '' '' ws @ CRLF @ rest" and "ws \<noteq> []"
    and "\<forall>w \<in> set ws. w \<noteq> [] \<and> CHR '' '' \<notin> set w \<and> CHR 0x0D \<notin> set w"
  shows "\<exists>y. processInlineBuffer c s = Ret (upd_obj c (\<lambda>_. y) s, 1) \<and> argv y = ws \<and> queryBuf y = rest \<and>
    fc_flags y = fc_flags x \<and> fc_fd y = fc_fd x \<and> fc_buf y = fc_buf x"
  using inline_words [OF assms] by auto

text \<open>
  Bulk strings are not binary safe: a payload with a line break in it is refused although its
  announced length is right. The client is marked to be closed, nothing is added to its output (the
  error text goes through a memory device that loses it), and what follows the line break is left in
  the query buffer to be read as a new command.
\<close>

lemma bulk_not_binary_safe:
  assumes "obj s c = Ret x" and "replies x = []" and "queryBuf x = bulk (u @ CRLF @ v) @ rest"
    and "CHR 0x0D \<notin> set u" and "length (u @ CRLF @ v) \<le> 512 * 1024 * 1024"
  shows "\<exists>t y. analyseBulk c s = Ret (t, -1) \<and> obj t c = Ret y \<and> fc_buf y = fc_buf x \<and> replies y = [] \<and>
    has_flag (fc_flags y) CLIENT_CLOSE_AFTER_REPLY \<and> queryBuf y = v @ CRLF @ rest"
  using assms by (rule line_break_in_bulk)

end
