(* ===== verification/ServerFacts.thy ===== *)
theory ServerFacts imports ServerInv ParserFacts begin

text \<open>
  What the server guarantees to its clients, and where it does not: the interface \<open>file_procs\<close> of the
  event loop holds for the file procs of the clients; the invariant holds from the start; accepting,
  answering, closing.
\<close>

section \<open>The file procs of the clients\<close>

text \<open>The loop at hand replaces the one stored in the server.\<close>

definition at_loop :: "(string \<Rightarrow> nat) \<Rightarrow> int set \<Rightarrow> client_proc event_loop \<times> server \<Rightarrow> bool" where
  "at_loop hash K p \<longleftrightarrow> sv_kinv hash K ((snd p)\<lparr>sv_loop := fst p\<rparr>)"

interpretation client_procs: file_procs "at_loop (w_hash w) K" "run_client w" for w K
proof
  fix l :: "client_proc event_loop" and s :: server assume "at_loop (w_hash w) K (l, s)"
  then show "el_inv l" by (simp add: at_loop_def sv_kinv_def sv_inv_def)
next
  fix l l' and s s' :: server and e p fd m
  assume i: "at_loop (w_hash w) K (l, s)" and r: "run_client w p fd (fe_privdata e) m (l, s) = Ret (l', s')"
  from r have h: "client_handler w p fd (s\<lparr>sv_loop := l\<rparr>) = Ret s'" "l' = sv_loop s'"
    by (auto simp: run_client_def res_bind_eq_Ret)
  have "sv_kinv (w_hash w) K (s\<lparr>sv_loop := l\<rparr>)" using i by (simp add: at_loop_def)
  then have "sv_kinv (w_hash w) K s'" using h(1) by (rule sv_handler)
  moreover have "s'\<lparr>sv_loop := l'\<rparr> = s'" using h(2) by simp
  ultimately show "at_loop (w_hash w) K (l', s')" by (simp add: at_loop_def)
qed

section \<open>The start\<close>

lemma new_table_ok: "new_command_table cr hash = Ret d \<Longrightarrow> table_ok hash d"
proof -
  assume d: "new_command_table cr hash = Ret d"
  have e: "new_command_table cr hash = dict_store.add_all cr hash new_dict registered"
    using populate_add_all [OF registered_letters, of cr hash new_dict]
    by (simp add: new_command_table_def registered_def)
  have "dict_count (new_dict :: (string, command_entry) dict) + length registered \<le> HASH_TABLE_INITIAL_SIZE"
    by (simp add: registered_def sentinelCommandTable_def dict_count_def new_dict_def new_table_def HASH_TABLE_INITIAL_SIZE_def)
  then show ?thesis
    using dict_store.add_all_ok [OF new_dict_ok registered_distinct, where hash = hash and cr = cr] d e
    by (auto simp: table_ok_def new_dict_abs)
qed

lemma listen_inv: "el_inv l \<Longrightarrow> listen_events fds l = Ret l' \<Longrightarrow> el_inv l' \<and> setSize l' = setSize l"
proof (induction fds l rule: listen_events.induct)
  case (2 fd fds l)
  then obtain m r where m: "createFileEvent fd ES_READABLE AcceptTcp None l = Ret (m, r)" "r \<noteq> -1"
    "listen_events fds m = Ret l'"
    by (auto simp: res_bind_eq_Ret split: if_splits)
  have "el_inv m" using el_step_inv [OF el_create [OF _ m(1)] "2.prems"(1)] by (simp add: ES_READABLE_def)
  then show ?case using "2.IH" [OF m(2) _ m(3)] create_setSize [OF m(1)] by simp
qed simp

section \<open>A command is answered\<close>

lemma has_flag_none [simp]: "\<not> has_flag 0 f"
  by (simp add: has_flag_def)

lemma pending_flag [simp]: "CLIENT_PENDING_WRITE AND NOT CLIENT_PENDING_WRITE = 0"
  "\<not> has_flag CLIENT_PENDING_WRITE CLIENT_CLOSE_AFTER_REPLY"
  by (simp_all add: CLIENT_PENDING_WRITE_def CLIENT_CLOSE_AFTER_REPLY_def has_flag_def)

lemma obj_fields [simp]:
  "obj (s\<lparr>net_out := a\<rparr>) c = obj s c" "obj (s\<lparr>clientsPendingWrite := p\<rparr>) c = obj s c"
  "obj (s\<lparr>closed_fds := a'\<rparr>) c = obj s c" "obj (s\<lparr>commands := d\<rparr>) c = obj s c" "obj (s\<lparr>sv_loop := l\<rparr>) c = obj s c"
  by (simp_all add: obj_def)

lemma reply_queued:
  assumes o: "obj s c = Ret x" and reg: "getFlyClient (fc_fd x) s = Some c" and fd: "fc_fd x \<ge> 0"
    and idle: "fc_flags x = 0" "hasNoPending x" and len: "length (c_str msg) \<le> FLY_REPLY_CHUNK_BYTES"
  shows "addReplyRaw msg c s =
    Ret ((upd_obj c (\<lambda>_. x\<lparr>fc_flags := CLIENT_PENDING_WRITE, fc_buf := c_str msg\<rparr>) s)
      \<lparr>clientsPendingWrite := clientsPendingWrite s @ [c]\<rparr>)"
proof -
  let ?x = "x\<lparr>fc_flags := CLIENT_PENDING_WRITE\<rparr>"
  define t where "t = (upd_obj c (\<lambda>_. ?x) s)\<lparr>clientsPendingWrite := clientsPendingWrite s @ [c]\<rparr>"
  have c: "c < length (objs s)" "objs s ! c = x" using o by (auto simp: obj_def split: if_splits)
  have "fc_addFlag CLIENT_PENDING_WRITE x = ?x" using idle(1) by (simp add: fc_addFlag_def)
  then have "addToClientsPendingToWrite (fc_fd x) s = t"
    using reg c idle(1) upd_obj_fun [OF o, of "fc_addFlag CLIENT_PENDING_WRITE"]
    by (simp add: addToClientsPendingToWrite_def IsPendingWrite_def t_def)
  then have "prepareClientToWrite c s = Ret (t, 1)"
    using o fd idle by (simp add: prepareClientToWrite_def)
  moreover have "obj t c = Ret ?x" using c by (simp add: t_def obj_def upd_obj_def)
  moreover have "addReplyToBuffer (c_str msg) ?x = (?x\<lparr>fc_buf := c_str msg\<rparr>, 1)"
    using idle(2) len by (auto simp: addReplyToBuffer_def hasNoPending_def)
  moreover have "upd_obj c (\<lambda>_. y) t = (upd_obj c (\<lambda>_. y) s)\<lparr>clientsPendingWrite := clientsPendingWrite s @ [c]\<rparr>" for y
    using c by (simp add: t_def upd_obj_def)
  ultimately show ?thesis by (simp add: addReplyRaw_def)
qed

definition willing :: "(nat \<Rightarrow> string \<Rightarrow> int) \<Rightarrow> bool" where
  "willing wr \<longleftrightarrow> (\<forall>k bs. wr k bs = int (length bs))"

lemma flush_one:
  assumes o: "obj s c = Ret x" and buf: "fc_buf x \<noteq> []" "length (fc_buf x) \<le> FLY_REPLY_CHUNK_BYTES" "replies x = []"
    and sl: "sendLen x = 0" and fl: "fc_flags x = CLIENT_PENDING_WRITE" and w: "willing (fst (net c))"
  shows "\<exists>y u. pending_write_one net c s = Ret u \<and> obj u c = Ret y \<and> hasNoPending y \<and> fc_flags y = 0 \<and>
    net_out u = net_out s @ [(fc_fd x, fc_buf x)] \<and> clients u = clients s"
proof -
  let ?x = "x\<lparr>fc_flags := 0\<rparr>"
  define s0 where "s0 = upd_obj c (fc_delFlag CLIENT_PENDING_WRITE) s"
  have "fc_delFlag CLIENT_PENDING_WRITE x = ?x" using fl by (simp add: fc_delFlag_def)
  then have o0: "obj s0 c = Ret ?x" using obj_upd [OF o] by (simp add: s0_def)
  have inv: "out_inv ?x" using buf sl by (auto simp: out_inv_def)
  have p: "pending_out ?x = fc_buf x" using buf sl by (simp add: pending_out_def)
  have "0 + length (pending_out ?x) \<le> NET_MAX_WRITES_PER_EVENT"
    using p buf(2) by (simp add: FLY_REPLY_CHUNK_BYTES_def NET_MAX_WRITES_PER_EVENT_def)
  then obtain y r where y: "send_pending (fst (net c)) 0 0 0 ?x = (y, fc_buf x, r)" "hasNoPending y" "r > 0"
    using send_pending_all [OF inv, of "fst (net c)" 0 0 0] w p buf by (auto simp: willing_def)
  have fy: "fc_flags y = 0" using send_pending_ok [OF y(1) inv] by simp
  define s1 where "s1 = (upd_obj c (\<lambda>_. y) s0)\<lparr>net_out := net_out s0 @ [(fc_fd x, fc_buf x)]\<rparr>"
  define u where "u = upd_obj c (\<lambda>x. x\<lparr>sendLen := 0\<rparr>) s1"
  have "obj s1 c = Ret y" using obj_upd_const [OF o0, of y] by (simp add: s1_def)
  then have ou: "obj u c = Ret (y\<lparr>sendLen := 0\<rparr>)" using obj_upd by (simp add: u_def)
  have "writeToClient (fst (net c)) (snd (net c)) False c s0 = Ret (u, 1)"
    using o0 y fy by (simp add: writeToClient_def Let_def s1_def [symmetric] u_def [symmetric])
  then have "pending_write_one net c s = Ret u"
    using ou y(2) by (simp add: pending_write_one_def Let_def s0_def [symmetric] hasNoPending_def)
  moreover have "net_out u = net_out s @ [(fc_fd x, fc_buf x)]" "clients u = clients s"
    by (simp_all add: u_def s1_def s0_def upd_obj_def)
  ultimately show ?thesis using ou y(2) fy by (auto simp: hasNoPending_def)
qed

lemma format_no_percent: "CHR ''%'' \<notin> set m \<Longrightarrow> format_plain m = Ret m"
  by (induction m) auto

lemma ping_entry:
  "map_of registered ''ping'' = Some ((new_entry ''ping'' PingCommand 1 ''tF'')\<lparr>ce_flag := CMD_STALE OR CMD_FAST\<rparr>)"
  by (simp add: registered_def sentinelCommandTable_def new_entry_def)

lemma ping_input:
  assumes o: "obj s c = Ret x" and q: "queryBuf x = ''ping'' @ CRLF" and t: "reqType x \<noteq> PROTO_REQ_MULTIBULK"
    and reg: "getFlyClient (fc_fd x) s = Some c" and fd: "fc_fd x \<ge> 0"
    and idle: "fc_flags x = 0" "hasNoPending x" and tab: "table_ok hash (commands s)"
  shows "\<exists>y d. processInputBuffer junk hash raw now c s =
      Ret ((upd_obj c (\<lambda>_. y) (s\<lparr>commands := d\<rparr>))\<lparr>clientsPendingWrite := clientsPendingWrite s @ [c]\<rparr>) \<and>
    fc_buf y = shared_pong \<and> fc_flags y = CLIENT_PENDING_WRITE \<and> replies y = [] \<and> sendLen y = sendLen x \<and>
    fc_fd y = fc_fd x \<and> argv y = [''ping''] \<and> queryBuf y = [] \<and> table_ok hash d"
proof -
  define y where "y = x\<lparr>argv := [''ping''], argvCap := Some 1, argvGen := Suc (argvGen x), queryBuf := []\<rparr>"
  define u where "u = upd_obj c (\<lambda>_. y) s"
  have ou: "obj u c = Ret y" using obj_upd_const [OF o] by (simp add: u_def)
  have "processInlineBuffer c s = Ret (u, 1)"
    using inline_words [OF o, of "[''ping'']" "[]"] q by (simp add: y_def u_def)
  then have "input_round junk c s = Ret (u, 1)" using o q t by (simp add: input_round_def)
  moreover have "input_loop junk c u = Ret (u, 1)" using ou by (subst input_loop.simps) (simp add: y_def)
  ultimately have "input_loop junk c s = Ret (u, 1)" using o q by (subst input_loop.simps) simp
  then have in1: "processInputBuffer junk hash raw now c s = serverDealWithCommand hash raw now (fc_fd y) u"
    using ou by (simp add: processInputBuffer_def)
  have regu: "getFlyClient (fc_fd y) u = Some c" using reg by (simp add: getFlyClient_def u_def y_def upd_obj_def)
  have "commands u = commands s" by (simp add: u_def upd_obj_def)
  then obtain d where d: "findEntry hash (commands u) ''ping'' = Ret (d, map_of registered ''ping'')" "table_ok hash d"
    using dict_store.find_ok [of hash "commands s" "''ping''"] tab by (auto simp: table_ok_def)
  define v where "v = u\<lparr>commands := d\<rparr>"
  have a0: "argv0 y = Ret ''ping''" by (simp add: argv0_def y_def)
  have "dealWithCommand hash raw now c u = pingCommand c v"
    using ou a0 d(1) ping_entry
    by (simp add: dealWithCommand_def v_def [symmetric] new_entry_def run_command_def y_def Let_def)
  also have "\<dots> = addReplyRaw shared_pong c v"
  proof -
    have "c_str shared_pong = shared_pong" "CHR ''%'' \<notin> set shared_pong" "take 1023 shared_pong = shared_pong"
      by (simp_all add: shared_pong_def c_str_def NUL_def CRLF_def)
    then show ?thesis using format_no_percent by (simp add: pingCommand_def addReply_def)
  qed
  also have "\<dots> = Ret ((upd_obj c (\<lambda>_. y\<lparr>fc_flags := CLIENT_PENDING_WRITE, fc_buf := shared_pong\<rparr>) v)
      \<lparr>clientsPendingWrite := clientsPendingWrite v @ [c]\<rparr>)"
  proof -
    have "c_str shared_pong = shared_pong" by (simp add: shared_pong_def c_str_def NUL_def CRLF_def)
    moreover have "obj v c = Ret y" "getFlyClient (fc_fd y) v = Some c" "0 \<le> fc_fd y" "fc_flags y = 0" "hasNoPending y"
      using ou regu fd idle by (simp_all add: v_def getFlyClient_def hasNoPending_def y_def)
    moreover have "length shared_pong \<le> FLY_REPLY_CHUNK_BYTES" by (simp add: shared_pong_def FLY_REPLY_CHUNK_BYTES_def)
    ultimately show ?thesis using reply_queued [of v c y shared_pong] by simp
  qed
  finally have e: "processInputBuffer junk hash raw now c s =
      Ret ((upd_obj c (\<lambda>_. y\<lparr>fc_flags := CLIENT_PENDING_WRITE, fc_buf := shared_pong\<rparr>) v)
        \<lparr>clientsPendingWrite := clientsPendingWrite v @ [c]\<rparr>)"
    using in1 regu by (simp add: serverDealWithCommand_def)
  have "upd_obj c (\<lambda>_. z) v = upd_obj c (\<lambda>_. z) (s\<lparr>commands := d\<rparr>)" "clientsPendingWrite v = clientsPendingWrite s" for z
    by (simp_all add: v_def u_def upd_obj_def)
  then show ?thesis
    using e d(2) idle(2)
    by (intro exI [of _ "y\<lparr>fc_flags := CLIENT_PENDING_WRITE, fc_buf := shared_pong\<rparr>"] exI [of _ d])
      (simp add: y_def hasNoPending_def)
qed

lemma flush_single:
  assumes "clientsPendingWrite s = [c]" and "pending_write_one net c s = Ret u"
  shows "handleClientsWithPendingWrites net s = Ret (u\<lparr>clientsPendingWrite := []\<rparr>, 1)"
  using assms by (simp add: handleClientsWithPendingWrites_def)

lemma ping_ok:
  assumes o: "obj s c = Ret x" and q: "queryBuf x = ''ping'' @ CRLF" and t: "reqType x \<noteq> PROTO_REQ_MULTIBULK"
    and reg: "getFlyClient (fc_fd x) s = Some c" and fd: "fc_fd x \<ge> 0"
    and idle: "fc_flags x = 0" "hasNoPending x" "sendLen x = 0" "clientsPendingWrite s = []"
    and tab: "table_ok hash (commands s)" and w: "willing (fst (net c))"
  shows "\<exists>t u y. processInputBuffer junk hash raw now c s = Ret t \<and> net_out t = net_out s \<and>
    handleClientsWithPendingWrites net t = Ret (u, 1) \<and> net_out u = net_out s @ [(fc_fd x, ''+pong'' @ CRLF)] \<and>
    obj u c = Ret y \<and> hasNoPending y \<and> fc_flags y = 0 \<and> clientsPendingWrite u = [] \<and> clients u = clients s"
proof -
  obtain y d where y: "processInputBuffer junk hash raw now c s =
      Ret ((upd_obj c (\<lambda>_. y) (s\<lparr>commands := d\<rparr>))\<lparr>clientsPendingWrite := [c]\<rparr>)"
    "fc_buf y = shared_pong" "fc_flags y = CLIENT_PENDING_WRITE" "replies y = []" "sendLen y = 0" "fc_fd y = fc_fd x"
    using ping_input [OF o q t reg fd idle(1,2) tab] idle by force
  define v where "v = (upd_obj c (\<lambda>_. y) (s\<lparr>commands := d\<rparr>))\<lparr>clientsPendingWrite := [c]\<rparr>"
  have ov: "obj v c = Ret y" using o obj_upd_const [of "s\<lparr>commands := d\<rparr>" c x y] by (simp add: v_def)
  have len: "fc_buf y \<noteq> []" "length (fc_buf y) \<le> FLY_REPLY_CHUNK_BYTES"
    using y(2) by (simp_all add: shared_pong_def FLY_REPLY_CHUNK_BYTES_def)
  obtain z u where u: "pending_write_one net c v = Ret u" "obj u c = Ret z" "hasNoPending z" "fc_flags z = 0"
    "net_out u = net_out v @ [(fc_fd y, fc_buf y)]" "clients u = clients v"
    using flush_one [where net = net, OF ov len y(4,5,3) w] by blast
  have v: "net_out v = net_out s" "clients v = clients s" "clientsPendingWrite v = [c]"
    by (simp_all add: v_def upd_obj_def)
  have h: "handleClientsWithPendingWrites net v = Ret (u\<lparr>clientsPendingWrite := []\<rparr>, 1)"
    using flush_single [OF v(3) u(1)] .
  show ?thesis
    using y(1) h u v y(2,6)
    by (intro exI [of _ v] exI [of _ "u\<lparr>clientsPendingWrite := []\<rparr>"] exI [of _ z])
      (simp add: v_def [symmetric] shared_pong_def)
qed

section \<open>Accepting and closing\<close>

lemma create_effect:
  assumes inv: "sv_inv hash s"
  shows "createClient fd s =
    (let x = (new_client fd (sv_nowt s))\<lparr>fc_id := nextClientId s\<rparr>;
         s' = s\<lparr>objs := objs s @ [x], nextClientId := nextClientId s + 1\<rparr>
     in if fd \<le> 0 then Ret (s, None)
        else if length (clients s) = maxClients s then Ret (s\<lparr>statRejectedConn := statRejectedConn s + 1\<rparr>, None)
        else if fd \<ge> setSize (sv_loop s) then Ret (s', None)
        else if fd \<ge> FD_SETSIZE then Fault OutOfBounds
        else Ret (s'\<lparr>sv_loop := (sv_loop s)
                      \<lparr>fileEvents := (fileEvents (sv_loop s))[nat fd :=
                         addFileProc ES_READABLE ReadQuery None (fileEvents (sv_loop s) ! nat fd)],
                       rfds := insert fd (rfds (sv_loop s)), maxfd := max (maxfd (sv_loop s)) fd\<rparr>,
                    clients := omap_put fd (length (objs s)) (clients s)\<rparr>, Some (length (objs s))))"
proof -
  have i: "el_inv (sv_loop s)" "length (clients s) \<le> maxClients s" using inv by (simp_all add: sv_inv_def)
  then have full: "maxClients s \<le> length (clients s) \<longleftrightarrow> length (clients s) = maxClients s" by auto
  show ?thesis
  proof (cases "0 < fd \<and> fd < setSize (sv_loop s)")
    case True
    then have "event_at fd (sv_loop s) = Ret (fileEvents (sv_loop s) ! nat fd)"
      using event_at_ok [OF i(1)] by simp
    then show ?thesis using True full
      by (simp add: createClient_def createFileEvent_def poll_add_def set_event_def Let_def max_def)
  next
    case False
    then show ?thesis using full by (auto simp: createClient_def createFileEvent_def Let_def)
  qed
qed

text \<open>The cron stops at the first client queued for closing.\<close>

lemma async_stops: "clientsToClose s \<noteq> [] \<Longrightarrow> \<not> is_ret (freeClientsInAsyncFreeList s)"
proof -
  assume "clientsToClose s \<noteq> []"
  then obtain c cs where c: "clientsToClose s = c # cs" by (cases "clientsToClose s") auto
  show ?thesis
  proof
    assume "is_ret (freeClientsInAsyncFreeList s)"
    then obtain t where "async_free (Suc (length cs)) 0 s = Ret t"
      using c by (auto simp: freeClientsInAsyncFreeList_def is_ret_iff res_bind_eq_Ret)
    then show False using c by (auto simp: Let_def res_bind_eq_Ret obj_def split: if_splits)
  qed
qed

lemma reach_keeps_keys:
  assumes "sv_reach hash s t" and "sv_inv hash s"
  shows "fst ` set (clients s) \<subseteq> fst ` set (clients t)"
proof -
  have "sv_kinv hash (fst ` set (clients s)) s" using assms(2) by (simp add: sv_kinv_def)
  then have "sv_kinv hash (fst ` set (clients s)) t" by (rule sv_reach_inv [OF assms(1)])
  then show ?thesis by (simp add: sv_kinv_def)
qed

lemma reach_inv: "sv_reach hash s t \<Longrightarrow> sv_inv hash s \<Longrightarrow> sv_inv hash t"
  using sv_reach_inv [of hash s t "{}"] by (simp add: sv_kinv_def)

lemma keys_count: "sv_inv hash s \<Longrightarrow> card (fst ` set (clients s)) = length (clients s)"
  using distinct_card [of "map fst (clients s)"] omap_distinct
  by (fastforce simp: sv_inv_def registered_ok_def)

section \<open>The limit on clients\<close>

lemma raise_limit_bounds:
  "soft < cur \<Longrightarrow> raise_limit f soft cur \<le> cur \<and> (raise_limit f soft cur > soft \<longrightarrow> f (raise_limit f soft cur))"
proof (induction f soft cur rule: raise_limit.induct)
  case (1 f soft cur)
  show ?case
  proof (cases "f cur")
    case False
    show ?thesis
    proof (cases "soft < cur - 16")
      case True
      then show ?thesis using 1 False by (subst (1 2 3) raise_limit.simps) auto
    next
      case F: False
      have "raise_limit f soft (cur - 16) = cur - 16" using F by (subst raise_limit.simps) simp
      then have "raise_limit f soft cur = cur - 16" using 1(2) False by (subst raise_limit.simps) simp
      then show ?thesis using F by simp
    qed
  qed (use 1(2) in \<open>subst (1 2 3) raise_limit.simps, simp\<close>)
qed

lemma limit_bounds:
  assumes "setMaxClientLimit (Some soft) f = Ret m"
  shows "0 < m \<and> m \<le> CONFIG_DEFAULT_MAX_CLIENTS \<and>
    (m + CONFIG_MIN_RESERVED_FDS \<le> soft \<or> f (m + CONFIG_MIN_RESERVED_FDS))"
proof (cases "soft < CONFIG_DEFAULT_MAX_CLIENTS + CONFIG_MIN_RESERVED_FDS")
  case True
  then show ?thesis
    using assms raise_limit_bounds [OF True, of f]
    by (auto simp: setMaxClientLimit_def Let_def CONFIG_MIN_RESERVED_FDS_def split: if_splits)
qed (use assms in \<open>auto simp: setMaxClientLimit_def CONFIG_DEFAULT_MAX_CLIENTS_def\<close>)

lemma free_registered:
  assumes inv: "sv_inv hash s" and o: "obj s c = Ret x" and reg: "getFlyClient (fc_fd x) s = Some c"
    and ev: "fe_mask (fileEvents (sv_loop s) ! nat (fc_fd x)) \<noteq> ES_NONE"
    and idle: "\<not> IsPendingWrite x" "clientsToClose s = []"
  shows "\<exists>t. free_and_close (fc_fd x) s = Ret t \<and> closed_fds t = closed_fds s @ [fc_fd x, fc_fd x]"
proof -
  have k: "sv_kinv hash {} s" using inv by (simp add: sv_kinv_def)
  have fd: "0 < fc_fd x" "fc_fd x < setSize (sv_loop s)"
    using inv reg by (auto simp: sv_inv_def registered_ok_def getFlyClient_def dest!: map_of_SomeD)
  obtain l where l: "deleteFileEvent (fc_fd x) (ES_WRITABLE OR ES_READABLE) (sv_loop s) = Ret (l, 1)"
    using delete_ok [OF _ _ fd(2) ev] inv fd(1) by (auto simp: sv_inv_def)
  define u where "u = upd_obj c (\<lambda>x. x\<lparr>fc_fd := -1\<rparr>) (close_fd (fc_fd x) (s\<lparr>sv_loop := l\<rparr>))"
  have ou: "obj u c = Ret (x\<lparr>fc_fd := -1\<rparr>)"
    unfolding u_def using o by (intro obj_upd) (simp add: close_fd_def)
  have "s\<lparr>clients := omap_erase (-1) (clients s)\<rparr> = s" by (rule sv_erase [OF k])
  then have "omap_erase (-1) (clients s) = clients s" by (metis server.select_convs(2) server.update_convs(2) server.surjective)
  moreover have "clients u = clients s" by (simp add: u_def upd_obj_def close_fd_def)
  ultimately have "unlink_map c s = Ret u"
    using o fd reg l by (simp add: unlink_map_def Let_def u_def [symmetric])
  then have "free_and_close (fc_fd x) s = Ret (close_fd (fc_fd x) (deleteFromAsyncClose (-1) u))"
    using ou idle reg by (simp add: free_and_close_def freeClient_def unlinkClient_def IsPendingWrite_def)
  then show ?thesis by (simp add: close_fd_def deleteFromAsyncClose_def u_def upd_obj_def)
qed

section \<open>Reading, subscribing, overflowing\<close>

lemma read_empty:
  assumes "getFlyClient fd s = Some c" and "obj s c = Ret x" and "queryBuf x = []" and "argvCap x = None"
    and "fc_fd x = fd" and "length bs < PROTO_IOBUF_LEN"
  shows "readQueryFromClient junk hash raw now (ReadBytes bs) fd s = Fault NullDeref"
proof -
  let ?x = "x\<lparr>lastInteractionTime := sv_nowt s\<rparr>"
  define u where "u = addToStatNetInputBytes (length (c_str bs)) (upd_obj c (\<lambda>x. x\<lparr>lastInteractionTime := sv_nowt s\<rparr>) s)"
  have ou: "obj u c = Ret ?x"
    using obj_upd [OF assms(2), of "\<lambda>x. x\<lparr>lastInteractionTime := sv_nowt s\<rparr>"]
    by (simp add: u_def addToStatNetInputBytes_def obj_def split: if_splits)
  have "input_loop junk c u = Ret (u, 1)" using ou assms(3) by (subst input_loop.simps) simp
  moreover have "getFlyClient fd u = Some c"
    using assms(1) by (simp add: u_def addToStatNetInputBytes_def upd_obj_def getFlyClient_def)
  moreover have "dealWithCommand hash raw now c u = Fault NullDeref"
    using ou assms(4) by (simp add: dealWithCommand_def argv0_def)
  ultimately have "processInputBuffer junk hash raw now c u = Fault NullDeref"
    using ou assms(5) by (simp add: processInputBuffer_def serverDealWithCommand_def)
  then show ?thesis
    using assms(1,3,6) ou by (simp add: readQueryFromClient_def Let_def u_def [symmetric])
qed

lemma each_arg_stops: "(\<And>a s. \<not> is_ret (f a s)) \<Longrightarrow> as \<noteq> [] \<Longrightarrow> \<not> is_ret (each_arg f as s)"
  using each_arg_Nil [of f as s] by (auto simp: is_ret_iff)

lemma subscription_stops:
  assumes "p \<in> {SubscribeCommand, UnsubscribeCommand, PsubscribeCommand, PunsubscribeCommand}"
    and "obj s c = Ret x" and "argv x \<noteq> []"
  shows "\<not> is_ret (run_command raw now p c s)"
proof -
  have e: "\<not> is_ret (each_arg (subscribeChannel c) (argv x) s)" "\<not> is_ret (each_arg (subscribePattern c) (argv x) s)"
    "\<not> is_ret (each_arg (\<lambda>a. unsubscribeChannel c a True) (argv x) s)"
    "\<not> is_ret (each_arg (\<lambda>a. unsubscribePattern c a True) (argv x) s)"
    using subscribe_faults assms(3) by (intro each_arg_stops; simp)+
  show ?thesis
    using assms(1,2) e unsubscribe_all_faults [of c s]
    by (auto simp: run_command_def subscribeCommand_def psubscribeCommand_def unsubscribeCommand_def
        punsubscribeCommand_def is_ret_iff res_bind_eq_Ret split: if_splits)
qed

lemma pending_disjoint: "CLIENT_PENDING_WRITE AND CLIENT_CLOSE_AFTER_REPLY = 0"
  by (simp add: CLIENT_PENDING_WRITE_def CLIENT_CLOSE_AFTER_REPLY_def)

lemma reply_overflow:
  assumes "obj s c = Ret x" and "fc_fd x \<ge> 0" and "\<not> has_flag (fc_flags x) CLIENT_MASTER"
    and "\<not> has_flag (fc_flags x) CLIENT_CLOSE_AFTER_REPLY" and "replies x = []"
    and "length (c_str msg) > FLY_REPLY_CHUNK_BYTES - length (fc_buf x)"
  shows "addReplyRaw msg c s = Fault EmptyListBack"
proof -
  obtain t where t: "prepareClientToWrite c s = Ret (t, 1)" "t = s \<or> t = addToClientsPendingToWrite (fc_fd x) s"
    using assms(1-3) by (auto simp: prepareClientToWrite_def)
  obtain y where y: "obj t c = Ret y" "fc_buf y = fc_buf x" "replies y = []"
    using t(2) addToPending_output [OF assms(1), of "fc_fd x"] assms(1,5) by auto
  have fl: "\<not> has_flag (fc_flags y) CLIENT_CLOSE_AFTER_REPLY"
  proof -
    have "fc_flags y AND NOT CLIENT_PENDING_WRITE = fc_flags x AND NOT CLIENT_PENDING_WRITE"
      using prepare_input [OF t(1)] y(1) assms(1) by (auto simp: same_input_def obj_def Let_def split: if_splits)
    then have "has_flag (fc_flags y) CLIENT_CLOSE_AFTER_REPLY \<longleftrightarrow> has_flag (fc_flags x) CLIENT_CLOSE_AFTER_REPLY"
      using has_flag_del_disjoint [of CLIENT_PENDING_WRITE CLIENT_CLOSE_AFTER_REPLY]
      by (metis pending_disjoint)
    then show ?thesis using assms(4) by simp
  qed
  have "addReplyToBuffer (c_str msg) y = (y, -1)" using fl y assms(6) by (simp add: addReplyToBuffer_def)
  moreover have "addReplyToReplyList (c_str msg) y = Fault EmptyListBack" using fl y by (simp add: addReplyToReplyList_def)
  ultimately show ?thesis using t(1) y(1) by (simp add: addReplyRaw_def)
qed

section \<open>A sample\<close>

definition sample_world :: world where
  "sample_world = \<lparr>w_junk = 0, w_hash = \<lambda>_. 0, w_raw = sample_master, w_now = 0, w_read = \<lambda>_. ReadEof,
     w_accept = \<lambda>_. [], w_write = \<lambda>_ k bs. int (length bs), w_again = \<lambda>_. False\<rparr>"

definition sample_table :: "(string, command_entry) dict" where
  "sample_table = (case new_command_table True (\<lambda>_. 0) of Ret d \<Rightarrow> d | Fault e \<Rightarrow> new_dict)"

definition sample_start :: server where
  "sample_start = (sample_server [] [])\<lparr>commands := sample_table\<rparr>"

lemma sample_start_ok:
  "sv_inv (\<lambda>_. 0) sample_start" "clients sample_start = []" "maxClients sample_start = 8" "objs sample_start = []"
  "setSize (sv_loop sample_start) = 16" "clientsToClose sample_start = []" "closed_fds sample_start = []"
  "sv_nowt sample_start = 0" "nextClientId sample_start = 0" "length (fileEvents (sv_loop sample_start)) = 16"
  "fe_mask (fileEvents (sv_loop sample_start) ! 5) = 0"
proof -
  obtain d where d: "new_command_table True (\<lambda>_. 0) = Ret d" using command_table_ok [of True "\<lambda>_. 0" "[]" "[]"] by auto
  have "el_inv (sample_loop_of 16)" unfolding sample_loop_of_def by (rule new_loop_inv) (simp add: ES_NONE_def)
  then show "sv_inv (\<lambda>_. 0) sample_start"
    using new_table_ok [OF d] d
    by (simp add: sample_start_def sample_table_def sv_inv_def sample_server_def registered_ok_def known_def)
qed (simp_all add: sample_start_def sample_server_def sample_loop_of_def new_loop_def)

section \<open>Properties\<close>

text \<open>
  C10 A ping is answered: when its bytes are in the query buffer of an idle client, processing the buffer
  runs the handler found in the command table, nothing is sent yet, and the flush before the next sleep
  writes exactly the reply to the client's socket, empties its buffer and clears its flag.
\<close>

theorem ping_answered:
  assumes "obj s c = Ret x" and "queryBuf x = ''ping'' @ CRLF" and "reqType x \<noteq> PROTO_REQ_MULTIBULK"
    and "getFlyClient (fc_fd x) s = Some c" and "fc_fd x \<ge> 0"
    and "fc_flags x = 0" "hasNoPending x" "sendLen x = 0" "clientsPendingWrite s = []"
    and "table_ok hash (commands s)" and "willing (fst (net c))"
  shows "\<exists>t u y. processInputBuffer junk hash raw now c s = Ret t \<and> net_out t = net_out s \<and>
    handleClientsWithPendingWrites net t = Ret (u, 1) \<and> net_out u = net_out s @ [(fc_fd x, ''+pong'' @ CRLF)] \<and>
    obj u c = Ret y \<and> hasNoPending y \<and> fc_flags y = 0 \<and> clientsPendingWrite u = [] \<and> clients u = clients s"
  using assms by (rule ping_ok)

theorem ping_answered_witness:
  "\<exists>d t u. table_ok (\<lambda>_. 0) d \<and>
     processInputBuffer 0 (\<lambda>_. 0) sample_master 0 0
       ((sample_server [(new_client 5 0)\<lparr>queryBuf := ''ping'' @ CRLF\<rparr>] [(5, 0)])\<lparr>commands := d\<rparr>) = Ret t \<and>
     handleClientsWithPendingWrites (\<lambda>c. (\<lambda>k bs. int (length bs), False)) t = Ret (u, 1) \<and>
     net_out u = [(5, ''+pong'' @ CRLF)]"
proof -
  obtain d where d: "new_command_table True (\<lambda>_. 0) = Ret d" using command_table_ok [of True "\<lambda>_. 0" "[]" "[]"] by auto
  define x where "x = (new_client 5 0)\<lparr>queryBuf := ''ping'' @ CRLF\<rparr>"
  define s where "s = (sample_server [x] [(5, 0)])\<lparr>commands := d\<rparr>"
  have x: "queryBuf x = ''ping'' @ CRLF" "reqType x \<noteq> PROTO_REQ_MULTIBULK" "fc_fd x = 5" "fc_flags x = 0"
    "hasNoPending x" "sendLen x = 0" "fc_fd x \<ge> 0"
    by (simp_all add: x_def new_client_def PROTO_REQ_MULTIBULK_def hasNoPending_def)
  have s: "obj s 0 = Ret x" "getFlyClient (fc_fd x) s = Some 0" "clientsPendingWrite s = []" "net_out s = []"
    by (simp_all add: s_def sample_server_def obj_def getFlyClient_def x(3))
  have tab: "table_ok (\<lambda>_. 0) (commands s)" using new_table_ok [OF d] by (simp add: s_def)
  have w: "willing (fst ((\<lambda>c. (\<lambda>k bs. int (length bs), False)) (0 :: nat)))" by (simp add: willing_def)
  obtain t u where "processInputBuffer 0 (\<lambda>_. 0) sample_master 0 0 s = Ret t"
    "handleClientsWithPendingWrites (\<lambda>c. (\<lambda>k bs. int (length bs), False)) t = Ret (u, 1)"
    "net_out u = net_out s @ [(fc_fd x, ''+pong'' @ CRLF)]"
    using ping_answered [OF s(1) x(1,2) s(2) x(7,4-6) s(3) tab w, of 0 sample_master 0] by blast
  then show ?thesis using s(4) x(3) tab by (intro exI [of _ d] exI [of _ t] exI [of _ u]) (simp add: s_def x_def)
qed

text \<open>
  Closing a client never makes room: along any run every descriptor that ever was registered stays
  registered (the client's descriptor is overwritten before its entry is erased), so the number of
  clients never falls, and a full table stays full.
\<close>

lemma clients_never_shrink:
  assumes "sv_inv hash s" and "sv_reach hash s t"
  shows "fst ` set (clients s) \<subseteq> fst ` set (clients t) \<and> length (clients s) \<le> length (clients t)"
proof -
  have sub: "fst ` set (clients s) \<subseteq> fst ` set (clients t)" using reach_keeps_keys [OF assms(2,1)] .
  then show ?thesis
    using card_mono [OF _ sub] keys_count [OF assms(1)] keys_count [OF reach_inv [OF assms(2,1)]] by simp
qed

text \<open>
  C32 The limit on clients is positive, at most 10000, and with the 32 reserved descriptors within the
  number of descriptors the process may open: either within the soft limit it had or a limit that
  setrlimit granted.
\<close>

theorem max_clients_within_limit:
  assumes "setMaxClientLimit (Some soft) f = Ret m"
  shows "0 < m \<and> m \<le> CONFIG_DEFAULT_MAX_CLIENTS \<and>
    (m + CONFIG_MIN_RESERVED_FDS \<le> soft \<or> f (m + CONFIG_MIN_RESERVED_FDS))"
  using assms by (rule limit_bounds)

theorem max_clients_within_limit_witness:
  "setMaxClientLimit (Some 10010) (\<lambda>n. n \<le> 10020) = Ret 9984 \<and> (9984 + CONFIG_MIN_RESERVED_FDS \<le> 10020)"
proof -
  have "raise_limit (\<lambda>n. n \<le> 10020) 10010 10032 = 10016"
    by (simp add: raise_limit.simps)
  then have r: "setMaxClientLimit (Some 10010) (\<lambda>n. n \<le> 10020) = Ret 9984"
    by (simp add: setMaxClientLimit_def CONFIG_DEFAULT_MAX_CLIENTS_def CONFIG_MIN_RESERVED_FDS_def)
  then show ?thesis using max_clients_within_limit [OF r] by (auto simp: CONFIG_MIN_RESERVED_FDS_def)
qed

text \<open>
  C31 The command table: after the start a lookup returns exactly the entry of the static list (with
  the flags of its letters), and nothing for any other name, whatever other lookups came before.
\<close>

theorem command_table_lookup:
  "\<exists>d1 d2 d3. new_command_table cr hash = Ret d1 \<and> dict_store.find_all hash d1 ks = Ret d2 \<and>
     findEntry hash d2 k = Ret (d3, map_of registered k)"
  by (rule command_table_ok)

text \<open>
  What a client sends is never parsed: the bytes read from a client that was just accepted do not
  get into its query buffer, and the dispatch of the empty command dereferences the argument array
  that was never allocated.
\<close>

lemma first_input_faults:
  assumes "createClient fd s = Ret (t, Some c)" and "omap (clients s)" and "length bs < PROTO_IOBUF_LEN"
  shows "readQueryFromClient junk hash raw now (ReadBytes bs) fd t = Fault NullDeref"
proof -
  let ?x = "(new_client fd (sv_nowt s))\<lparr>fc_id := nextClientId s\<rparr>"
  have c: "c = length (objs s)" "clients t = omap_put fd c (clients s)" "objs t = objs s @ [?x]"
    using assms(1) by (auto simp: createClient_def Let_def res_bind_eq_Ret split: if_splits)
  then have "obj t c = Ret ?x" "getFlyClient fd t = Some c"
    using assms(2) by (simp_all add: obj_def getFlyClient_def map_of_omap_put)
  moreover have "queryBuf ?x = []" "argvCap ?x = None" "fc_fd ?x = fd" by (simp_all add: new_client_def)
  ultimately show ?thesis using read_empty assms(3) by blast
qed

text \<open>
  C33 No subscription command ever completes: for any client and any arguments (the command's own name is
  one of them) each of the four handlers runs into a null reply header or an erased list node.
\<close>

theorem subscriptions_fault:
  assumes "p \<in> {SubscribeCommand, UnsubscribeCommand, PsubscribeCommand, PunsubscribeCommand}"
    and "obj s c = Ret x" and "argv x \<noteq> []"
  shows "\<not> is_ret (run_command raw now p c s)"
  using assms by (rule subscription_stops)

theorem subscriptions_fault_witness:
  "\<not> is_ret (run_command sample_master 0 SubscribeCommand 0
      (sample_server [(new_client 5 0)\<lparr>argv := [''subscribe'', ''news'']\<rparr>] [(5, 0)]))"
  by (rule subscriptions_fault [of _ _ _ "(new_client 5 0)\<lparr>argv := [''subscribe'', ''news'']\<rparr>"])
    (simp_all add: obj_def sample_server_def)

text \<open>
  A reply that does not fit what is left of the fixed output buffer faults: the reply list it
  should go to is empty, and its last element is read all the same.
\<close>

lemma reply_overflow_faults:
  assumes "obj s c = Ret x" and "fc_fd x \<ge> 0" and "\<not> has_flag (fc_flags x) CLIENT_MASTER"
    and "\<not> has_flag (fc_flags x) CLIENT_CLOSE_AFTER_REPLY" and "replies x = []"
    and "length (c_str msg) > FLY_REPLY_CHUNK_BYTES - length (fc_buf x)"
  shows "addReplyRaw msg c s = Fault EmptyListBack"
  using assms by (rule reply_overflow)

text \<open>
  Once a client is queued for closing (a write to it failed, or its last reply went out), the next
  run of the cron never returns: freeing the client erases the list node the loop stands on.
\<close>

lemma async_close_stops_cron:
  assumes "clientsToClose s \<noteq> []"
  shows "\<not> is_ret (serverCron seconds now fork waits rand s)"
  using async_stops [of "s\<lparr>sv_nowt := seconds\<rparr>"] assms
  by (auto simp: serverCron_def is_ret_iff res_bind_eq_Ret)

end
