(* ===== verification/NetFacts.thy ===== *)
theory NetFacts imports NetHandler begin

text \<open>
  Facts about the socket layer. The ledger of a history is the multiset of descriptors it opened and
  the one it closed; \<open>leaves p m F\<close> says that the program \<open>m\<close>, entered with the sockets
  \<open>p\<close> in hand, ends with the sockets \<open>F r\<close> in hand for its result \<open>r\<close> and has closed every other
  one exactly once. Its rules follow the constructs of the state monad. The timed loops are shown
  to end when the clock moves on.
\<close>

section \<open>The ledger of descriptors\<close>

fun opens_of :: "syscall \<times> answer \<Rightarrow> int multiset" where
  "opens_of (Socket f t p, a) = (if an_ret a = -1 then {#} else {#an_ret a#})"
| "opens_of (Accept s, a) = (if an_ret a = -1 then {#} else {#an_ret a#})"
| "opens_of (_, a) = {#}"

fun closes_of :: "syscall \<times> answer \<Rightarrow> int multiset" where
  "closes_of (Close s, a) = {#s#}"
| "closes_of (_, a) = {#}"

fun all_opens :: "(syscall \<times> answer) list \<Rightarrow> int multiset" where
  "all_opens [] = {#}"
| "all_opens (e # h) = opens_of e + all_opens h"

fun all_closes :: "(syscall \<times> answer) list \<Rightarrow> int multiset" where
  "all_closes [] = {#}"
| "all_closes (e # h) = closes_of e + all_closes h"

definition opened :: "net \<Rightarrow> int multiset" where
  "opened st = all_opens (history st)"

definition closed :: "net \<Rightarrow> int multiset" where
  "closed st = all_closes (history st)"

definition leaves :: "int multiset \<Rightarrow> (net, 'a) state \<Rightarrow> ('a \<Rightarrow> int multiset) \<Rightarrow> bool" where
  "leaves p m F \<longleftrightarrow> (\<forall>st. case run_state m st of
     (r, st') \<Rightarrow> opened st' + closed st + p = opened st + closed st' + F r)"

definition socket_result :: "int \<Rightarrow> int multiset" where
  "socket_result r = (if r = -1 then {#} else {#r#})"

lemma socket_result_simps [simp]: "socket_result (-1) = {#}" "r \<noteq> -1 \<Longrightarrow> socket_result r = {#r#}"
  by (simp_all add: socket_result_def)

lemma leaves_return: "F r = p \<Longrightarrow> leaves p (State_Monad.return r) F"
  by (simp add: leaves_def)

lemma leaves_bind:
  assumes "leaves p m F" and "\<And>a. leaves (F a) (f a) G"
  shows "leaves p (State_Monad.bind m f) G"
  unfolding leaves_def
proof
  fix st
  obtain a st1 where m: "run_state m st = (a, st1)" by (cases "run_state m st")
  obtain r st2 where f: "run_state (f a) st1 = (r, st2)" by (cases "run_state (f a) st1")
  have "opened st1 + closed st + p = opened st + closed st1 + F a"
    using assms(1) m by (auto simp: leaves_def dest: spec [of _ st])
  moreover have "opened st2 + closed st1 + F a = opened st1 + closed st2 + G r"
    using assms(2) [of a] f by (auto simp: leaves_def dest: spec [of _ st1])
  ultimately have "opened st2 + closed st + p + (opened st1 + closed st1 + F a) =
      opened st + closed st2 + G r + (opened st1 + closed st1 + F a)"
    by (metis (no_types, lifting) add.assoc add.commute)
  then show "case run_state (State_Monad.bind m f) st of
      (r, st') \<Rightarrow> opened st' + closed st + p = opened st + closed st' + G r"
    using m f by simp
qed

lemma leaves_sys:
  assumes "\<And>a. opens_of (c, a) = {#} \<and> closes_of (c, a) = {#}"
  shows "leaves p (sys K c) (\<lambda>a. p)"
  using assms by (simp add: leaves_def sys_def opened_def closed_def Let_def)

lemma leaves_socket:
  "leaves p (sys K (Socket f t q)) (\<lambda>a. if an_ret a = -1 then p else add_mset (an_ret a) p)"
  by (simp add: leaves_def sys_def opened_def closed_def Let_def)

lemma leaves_close: "leaves (add_mset s p) (sys K (Close s)) (\<lambda>a. p)"
  by (simp add: leaves_def sys_def opened_def closed_def Let_def)

lemma leaves_setError: "leaves p (setError msg) (\<lambda>a. p)"
  by (simp add: leaves_def setError_def opened_def closed_def)

lemma leaves_get_errno: "leaves p get_errno (\<lambda>a. p)"
  by (simp add: leaves_def get_errno_def)

lemma leaves_sys_error: "F (-1) = p \<Longrightarrow> leaves p (sys_error K what tail) F"
  unfolding sys_error_def
  by (intro leaves_bind [OF leaves_get_errno] leaves_bind [OF leaves_setError] leaves_return)

lemma leaves_if: "(b \<Longrightarrow> leaves p m F) \<Longrightarrow> (\<not> b \<Longrightarrow> leaves p n F) \<Longrightarrow> leaves p (if b then m else n) F"
  by simp

lemmas leaves_quiet = leaves_sys [where c = "Setsockopt f opt v" for f opt v, simplified]
  leaves_sys [where c = "FcntlGet f" for f, simplified]
  leaves_sys [where c = "FcntlSet f v" for f v, simplified]
  leaves_sys [where c = "Bind f sa" for f sa, simplified]
  leaves_sys [where c = "Listen f n" for f n, simplified]
  leaves_sys [where c = "Connect f sa" for f sa, simplified]
  leaves_sys [where c = "Getaddrinfo h q f t v" for h q f t v, simplified]
  leaves_sys [where c = Freeaddrinfo, simplified]
  leaves_sys [where c = "Chmod f n" for f n, simplified]

lemma leaves_option: "leaves p (setReuseAddr K s) (\<lambda>r. p)" "leaves p (setV6Only K s) (\<lambda>r. p)"
  unfolding setReuseAddr_def setV6Only_def
  by (intro leaves_bind [OF leaves_quiet(1)] leaves_if leaves_sys_error leaves_return; simp)+

lemma leaves_setBlock: "leaves p (setBlock K s b) (\<lambda>r. p)"
  unfolding setBlock_def Let_def
  by (intro leaves_bind [OF leaves_quiet(2)] leaves_bind [OF leaves_quiet(3)] leaves_if leaves_sys_error
      leaves_return; simp)

lemma leaves_bind_any: "leaves p (bind_any K s bs) (\<lambda>r. p)"
proof (induction bs)
  case Nil
  then show ?case by (simp add: leaves_return)
next
  case (Cons b bs)
  show ?case unfolding bind_any.simps
    by (intro leaves_bind [OF leaves_quiet(4)] leaves_if leaves_return Cons.IH; simp)
qed

lemma leaves_bind_source: "leaves p (bind_source K s src) (\<lambda>r. p)"
proof (cases src)
  case None
  then show ?thesis by (simp add: bind_source_def leaves_return)
next
  case (Some a)
  show ?thesis unfolding bind_source_def Some option.case
    by (intro leaves_bind [OF leaves_quiet(7)] leaves_bind [OF leaves_quiet(8)] leaves_bind [OF leaves_setError]
        leaves_bind [OF leaves_bind_any] leaves_bind [OF leaves_sys_error [where F = "\<lambda>r. p"]]
        leaves_if leaves_return; simp)
qed

lemma leaves_give_up: "leaves {#s#} (give_up K s) socket_result"
  unfolding give_up_def by (intro leaves_bind [OF leaves_close] leaves_return) simp

lemma leaves_nonblock:
  "leaves p (if b then setBlock K s c else State_Monad.return 1) (\<lambda>r. p)"
  by (intro leaves_if leaves_setBlock leaves_return) simp

lemma leaves_connect_loop: "leaves {#} (connect_loop K src fl ps) socket_result"
proof (induction ps)
  case Nil
  then show ?case by (simp add: leaves_sys_error)
next
  case (Cons p ps)
  have one: "leaves {#s#} (do {
       r \<leftarrow> setReuseAddr K s;
       if r = -1 then give_up K s
       else do {
         n \<leftarrow> (if has_flag fl NET_CONNECT_NONBLOCK then setBlock K s False else State_Monad.return 1);
         if n = -1 then give_up K s
         else do {
           b \<leftarrow> bind_source K s src;
           if \<not> b then give_up K s
           else do {
             c \<leftarrow> sys K (Connect s (ai_addr p));
             if an_ret c \<noteq> -1 then State_Monad.return s
             else if an_errno c = EINPROGRESS \<and> has_flag fl NET_CONNECT_NONBLOCK
             then State_Monad.return s
             else do { _ \<leftarrow> sys K (Close s); connect_loop K src fl ps }
           }
         }
       }
     }) socket_result" if "s \<noteq> -1" for s
    by (intro leaves_bind [OF leaves_option(1)] leaves_bind [OF leaves_nonblock]
        leaves_bind [OF leaves_bind_source] leaves_bind [OF leaves_quiet(6)] leaves_bind [OF leaves_close]
        leaves_if leaves_give_up leaves_return Cons.IH) (simp_all add: that)
  show ?case unfolding connect_loop.simps Let_def
    by (rule leaves_bind [OF leaves_socket]) (simp add: one Cons.IH)
qed

lemma leaves_connect_once: "leaves {#} (connect_once K addr port src fl) (\<lambda>(s, b). socket_result s)"
  unfolding connect_once_def
  by (intro leaves_bind [OF leaves_quiet(7)] leaves_bind [OF leaves_setError]
      leaves_bind [OF leaves_connect_loop] leaves_bind [OF leaves_quiet(8)] leaves_if leaves_return; simp)

lemma leaves_case_prod: "leaves p (f (fst x) (snd x)) F \<Longrightarrow> leaves p (case x of (a, b) \<Rightarrow> f a b) F"
  by (simp add: case_prod_beta)

lemma leaves_tcpGenericConnect: "leaves {#} (tcpGenericConnect K addr port src fl) socket_result"
proof -
  have retry: "leaves {#} (State_Monad.bind (connect_once K addr port None fl)
      (\<lambda>(s', b). State_Monad.return s')) socket_result"
    by (rule leaves_bind [OF leaves_connect_once]) (auto intro: leaves_return)
  show ?thesis unfolding tcpGenericConnect_def
  proof (rule leaves_bind [OF leaves_connect_once])
    fix x :: "int \<times> bool"
    obtain s b where x: "x = (s, b)" by (cases x)
    show "leaves (case x of (s, b) \<Rightarrow> socket_result s)
        (case x of (s, resolved) \<Rightarrow>
           if resolved \<and> s = -1 \<and> src \<noteq> None \<and> has_flag fl NET_CONNECT_BE_BINDING
           then State_Monad.bind (connect_once K addr port None fl) (\<lambda>(s', b). State_Monad.return s')
           else State_Monad.return s) socket_result"
      using retry by (cases "s = -1") (auto simp: x intro: leaves_return leaves_if)
  qed
qed

lemma leaves_setListen: "leaves {#s#} (setListen K s sa backlog) (\<lambda>r. if r = -1 then {#} else {#s#})"
  unfolding setListen_def
  by (intro leaves_bind [OF leaves_quiet(4)] leaves_bind [OF leaves_quiet(5)]
      leaves_bind [OF leaves_sys_error [where F = "\<lambda>r. {#s#}"]] leaves_bind [OF leaves_close] leaves_if
      leaves_return; simp)

lemma leaves_createSocket: "leaves {#} (createSocket K domain) socket_result"
proof -
  have one: "leaves {#s#} (do {
       r \<leftarrow> setReuseAddr K s;
       if r = -1 then do { _ \<leftarrow> sys K (Close s); State_Monad.return (-1) }
       else State_Monad.return s }) socket_result" if "s \<noteq> -1" for s
    by (intro leaves_bind [OF leaves_option(1)] leaves_bind [OF leaves_close] leaves_if leaves_return)
      (simp_all add: that)
  show ?thesis unfolding createSocket_def
    by (rule leaves_bind [OF leaves_socket]) (simp add: one leaves_sys_error)
qed

lemma leaves_unixServer: "leaves {#} (unixServer K path perm backlog) socket_result"
proof -
  have one: "leaves {#s#} (do {
       l \<leftarrow> setListen K s (unix_sockaddr path) backlog;
       if l = -1 then State_Monad.return (-1)
       else do {
         (if perm \<noteq> 0 then do { _ \<leftarrow> sys K (Chmod (sun_path (unix_sockaddr path)) perm); State_Monad.return () }
          else State_Monad.return ());
         State_Monad.return s }}) socket_result" if "s \<noteq> -1" for s
    by (rule leaves_bind [OF leaves_setListen])
      (auto simp: that intro!: leaves_return leaves_bind [OF leaves_quiet(9)])
  show ?thesis unfolding unixServer_def
    by (rule leaves_bind [OF leaves_createSocket]) (auto simp: one intro: leaves_return)
qed

section \<open>Servers: the second close\<close>

lemma run_sys: "run_state (sys K c) st =
    (kernel K (history st) c,
     st\<lparr>history := (c, kernel K (history st) c) # history st, net_errno := an_errno (kernel K (history st) c)\<rparr>)"
  by (simp add: sys_def Let_def)

lemma run_sys_error: "run_state (sys_error K what tail) st =
    (-1, st\<lparr>errbuf := map_option (\<lambda>_. take (NET_ERR_LEN - 1) (what @ strerror K (net_errno st) @ tail)) (errbuf st)\<rparr>)"
  by (simp add: sys_error_def get_errno_def setError_def)

section \<open>Loops that end when the kernel lets them\<close>

text \<open>The clock as the kernel would tell it after the history \<open>h\<close>.\<close>

definition clock :: "os \<Rightarrow> (syscall \<times> answer) list \<Rightarrow> 64 word" where
  "clock K h = mstime (an_sec (kernel K h Gettimeofday)) (an_usec (kernel K h Gettimeofday))"

lemma run_mstime_now: "run_state (mstime_now K) st = (clock K (history st), snd (run_state (sys K Gettimeofday) st))"
  by (simp add: mstime_now_def run_sys clock_def)

lemma history_wait: "length (history (snd (run_state (wait_fd K fd m ms) st))) = Suc (length (history st))"
  by (simp add: wait_fd_def run_sys)

text \<open>
  Every turn of a timed loop asks the clock and makes a call: once the history has \<open>N\<close> entries the
  timeout has passed.
\<close>

lemma syncRead_loop_ends:
  assumes "\<And>h. N \<le> length h \<Longrightarrow> \<not> (clock K h - start < timeout)"
    and "\<And>h n. 0 < an_ret (kernel K h (ReadCall fd n)) \<Longrightarrow> an_ret (kernel K h (ReadCall fd n)) \<le> n"
    and "\<And>h n. 0 < an_ret (kernel K h (ReadCall fd n)) \<Longrightarrow>
           an_ret (kernel K h (ReadCall fd n)) \<le> int (length (an_data (kernel K h (ReadCall fd n))))"
    and "int (length buf) = n" and "n \<le> sz"
  shows "\<exists>r buf' st'. syncRead_loop K fd sz timeout start n buf st = Some ((r, buf'), st') \<and>
           (r = -1 \<or> (r = int (length buf') \<and> r \<le> sz))"
  using assms(4,5)
proof (induction "N - length (history st)" arbitrary: st n buf rule: less_induct)
  case less
  define st1 where "st1 = snd (run_state (sys K Gettimeofday) st)"
  define a where "a = kernel K (history st1) (ReadCall fd (sz - n))"
  define st2 where "st2 = snd (run_state (sys K (ReadCall fd (sz - n))) st1)"
  have h1: "length (history st1) = Suc (length (history st))" by (simp add: st1_def run_sys)
  have h2: "length (history st2) = Suc (Suc (length (history st)))" by (simp add: st2_def run_sys h1)
  have rd: "run_state (sys K (ReadCall fd (sz - n))) st1 = (a, st2)"
    by (simp add: a_def st2_def run_sys)
  have step: "syncRead_loop K fd sz timeout start n buf st =
      (if \<not> clock K (history st) - start < timeout then Some ((n, buf), st1)
       else if an_ret a \<le> 0 then
          if an_ret a = -1 \<and> an_errno a = EAGAIN then syncRead_loop K fd sz timeout start n buf st2
          else if an_ret a = 0 then Some ((n, buf), st2) else Some ((-1, buf), st2)
       else if n + an_ret a = sz then Some ((n + an_ret a, buf @ take (nat (an_ret a)) (an_data a)), st2)
       else syncRead_loop K fd sz timeout start (n + an_ret a) (buf @ take (nat (an_ret a)) (an_data a))
          (snd (run_state (wait_fd K fd ES_READABLE
             (wait_ms (timeout - (clock K (history st) - start)))) st2)))"
    by (subst syncRead_loop.simps) (simp add: run_mstime_now st1_def [symmetric] rd Let_def)
  show ?case
  proof (cases "clock K (history st) - start < timeout")
    case False
    then show ?thesis using less.prems by (auto simp: step)
  next
    case True
    then have lt: "length (history st) < N" using assms(1) by (meson not_le)
    show ?thesis
    proof (cases "an_ret a \<le> 0")
      case neg: True
      have "\<exists>r buf' st'. syncRead_loop K fd sz timeout start n buf st2 = Some ((r, buf'), st') \<and>
           (r = -1 \<or> (r = int (length buf') \<and> r \<le> sz))"
        by (rule less.hyps [OF _ less.prems]) (use lt h2 in simp)
      with neg less.prems True show ?thesis by (auto simp: step)
    next
      case pos: False
      define buf' where "buf' = buf @ take (nat (an_ret a)) (an_data a)"
      have le: "n + an_ret a \<le> sz" and len: "int (length buf') = n + an_ret a"
        using pos assms(2) [of "history st1" "sz - n"] assms(3) [of "history st1" "sz - n"] less.prems
        by (simp_all add: a_def buf'_def)
      have "\<exists>r buf'' st'. syncRead_loop K fd sz timeout start (n + an_ret a) buf'
           (snd (run_state (wait_fd K fd ES_READABLE ms) st2)) = Some ((r, buf''), st') \<and>
           (r = -1 \<or> (r = int (length buf'') \<and> r \<le> sz))" for ms
        by (rule less.hyps [OF _ len le]) (use lt h2 history_wait in simp)
      with pos True len le show ?thesis by (auto simp: step buf'_def [symmetric])
    qed
  qed
qed

definition calls :: "net \<Rightarrow> syscall set" where
  "calls st = fst ` set (history st)"

lemma calls_wait: "calls st \<subseteq> calls (snd (run_state (wait_fd K fd m ms) st))"
  by (auto simp: wait_fd_def run_sys calls_def)

lemma write_turn:
  assumes "\<And>h. clock K h = t" and "timeout \<noteq> 0"
    and ans: "\<And>h. an_ret (kernel K h (WriteCall fd (drop (nat w) str))) = n"
    and "0 < n" and "n \<noteq> int (length str)"
  shows "\<exists>st2. syncWrite_loop K fd str timeout t w st = syncWrite_loop K fd str timeout t (w + n) st2 \<and>
           insert (WriteCall fd (drop (nat w) str)) (calls st) \<subseteq> calls st2"
proof -
  define st1 where "st1 = snd (run_state (sys K Gettimeofday) st)"
  define st2 where "st2 = snd (run_state (sys K (WriteCall fd (drop (nat w) str))) st1)"
  define st3 where "st3 = snd (run_state (wait_fd K fd ES_WRITABLE (wait_ms timeout)) st2)"
  have "insert (WriteCall fd (drop (nat w) str)) (calls st) \<subseteq> calls st2"
    by (auto simp: st2_def st1_def run_sys calls_def)
  then have "insert (WriteCall fd (drop (nat w) str)) (calls st) \<subseteq> calls st3"
    using calls_wait unfolding st3_def by blast
  moreover have "syncWrite_loop K fd str timeout t w st = syncWrite_loop K fd str timeout t (w + n) st3"
    using assms(2,4,5) run_sys [of K "WriteCall fd (drop (nat w) str)" st1]
    by (subst syncWrite_loop.simps)
      (simp add: run_mstime_now assms(1) st1_def [symmetric] st3_def st2_def ans word_gt_0 Let_def)
  ultimately show ?thesis by blast
qed

lemma write_turn_zero:
  assumes "\<And>h. clock K h = t" and "timeout \<noteq> 0"
    and ans: "\<And>h. an_ret (kernel K h (WriteCall fd (drop (nat w) str))) = 0"
  shows "\<exists>st2. syncWrite_loop K fd str timeout t w st = Some (-1, st2) \<and> calls st \<subseteq> calls st2"
  using assms(2)
  by (subst syncWrite_loop.simps) (auto simp: run_mstime_now run_sys assms(1) ans word_gt_0 calls_def)

section \<open>Reading a line\<close>

definition reads :: "int \<Rightarrow> (syscall \<times> answer) list \<Rightarrow> nat" where
  "reads fd h = length (filter (\<lambda>e. fst e = ReadCall fd 1) h)"

text \<open>
  A descriptor that hands out the bytes of a text one by one, and a clock by which less than the timeout
  passes from one reading to the next when nothing but the first reading lies between them (as it does
  between the start of \<open>syncRead\<close> and the test of its loop). The clock may advance as far as it likes over
  the whole line.
\<close>

definition serves :: "os \<Rightarrow> int \<Rightarrow> 64 word \<Rightarrow> string \<Rightarrow> bool" where
  "serves K fd timeout input \<longleftrightarrow>
     (\<forall>h a. clock K ((Gettimeofday, a) # h) - clock K h < timeout) \<and>
     (\<forall>h. reads fd h < length input \<longrightarrow>
        an_ret (kernel K h (ReadCall fd 1)) = 1 \<and> an_data (kernel K h (ReadCall fd 1)) = [input ! reads fd h])"

lemma read_one:
  assumes "serves K fd timeout input" and "reads fd (history st) < length input"
  shows "\<exists>st'. syncRead K fd 1 timeout st = Some ((1, [input ! reads fd (history st)]), st') \<and>
           reads fd (history st') = Suc (reads fd (history st))"
proof -
  have "reads fd ((Gettimeofday, a) # h) = reads fd h" for a h by (simp add: reads_def)
  moreover have "reads fd ((ReadCall fd 1, a) # h) = Suc (reads fd h)" for a h by (simp add: reads_def)
  ultimately show ?thesis
    using assms unfolding serves_def
    by (simp add: syncRead_def syncRead_loop.simps [where readCount = 0 and buf = "[]"] run_mstime_now run_sys)
qed

lemma readLine_plain:
  assumes "serves K fd timeout input" and "reads fd (history st) + length cs \<le> length input"
    and "take (length cs) (drop (reads fd (history st)) input) = cs"
    and "CHR 0x0A \<notin> set cs" and "int (length cs) < sz" and "cs \<noteq> []"
  shows "\<exists>st'. readLine_loop K fd timeout sz line w st =
             readLine_loop K fd timeout (sz - int (length cs)) (line @ cs) True st' \<and>
           reads fd (history st') = reads fd (history st) + length cs"
  using assms(2-)
proof (induction cs arbitrary: line w st sz)
  case Nil
  then show ?case by simp
next
  case (Cons c cs)
  let ?k = "reads fd (history st)"
  have k: "?k < length input" "input ! ?k = c" "take (length cs) (drop (Suc ?k) input) = cs"
    using Cons.prems by (simp_all add: take_Suc_conv_app_nth Cons_nth_drop_Suc [symmetric])
  have nl: "c \<noteq> CHR 0x0A" using Cons.prems(3) by auto
  obtain st1 where r: "syncRead K fd 1 timeout st = Some ((1, [c]), st1)"
      "reads fd (history st1) = Suc ?k"
    using read_one [OF assms(1) k(1)] k(2) by auto
  have e: "readLine_loop K fd timeout sz line w st = readLine_loop K fd timeout (sz - 1) (line @ [c]) True st1"
    using Cons.prems(4) nl by (subst readLine_loop.simps) (simp add: r(1))
  show ?case
  proof (cases "cs = []")
    case True
    then show ?thesis using e r(2) by auto
  next
    case False
    have "\<exists>st'. readLine_loop K fd timeout (sz - 1) (line @ [c]) True st1 =
             readLine_loop K fd timeout (sz - 1 - int (length cs)) ((line @ [c]) @ cs) True st' \<and>
           reads fd (history st') = reads fd (history st1) + length cs"
      using Cons.prems k(3) r(2) False by (intro Cons.IH) simp_all
    then show ?thesis using e r(2) by (auto simp: algebra_simps)
  qed
qed

section \<open>Concrete kernels\<close>

definition plain_answer :: "int \<Rightarrow> answer" where
  "plain_answer r =
     \<lparr>an_ret = r, an_errno = 0, an_infos = [], an_sa = unix_sockaddr [], an_data = [], an_revents = 0, an_sec = 0,
      an_usec = 0\<rparr>"

definition plain_os :: "((syscall \<times> answer) list \<Rightarrow> syscall \<Rightarrow> answer) \<Rightarrow> os" where
  "plain_os k =
     \<lparr>kernel = k, strerror = (\<lambda>e. ''error''), gai_strerror = (\<lambda>e. ''error''), ntop6 = (\<lambda>bs. ''::''), is_linux = True,
      junk_int = 0, junk_bytes = []\<rparr>"

definition sample_info :: addrinfo where
  "sample_info =
     \<lparr>ai_family = AF_INET, ai_socktype = SOCK_STREAM, ai_protocol = 0, ai_addr = unix_sockaddr []\<rparr>"

fun busy_port :: "(syscall \<times> answer) list \<Rightarrow> syscall \<Rightarrow> answer" where
  "busy_port h (Getaddrinfo a b c d e) = (plain_answer 0)\<lparr>an_infos := [sample_info]\<rparr>"
| "busy_port h (Socket a b c) = plain_answer 7"
| "busy_port h (Bind a b) = plain_answer (-1)"
| "busy_port h c = plain_answer 0"

fun slow_peer :: "(syscall \<times> answer) list \<Rightarrow> syscall \<Rightarrow> answer" where
  "slow_peer h Gettimeofday = (plain_answer 0)\<lparr>an_usec := 1000 * of_nat (min (length h) 8)\<rparr>"
| "slow_peer h (ReadCall fd n) = (plain_answer (-1))\<lparr>an_errno := EAGAIN\<rparr>"
| "slow_peer h c = plain_answer 0"

fun byte_writer :: "(syscall \<times> answer) list \<Rightarrow> syscall \<Rightarrow> answer" where
  "byte_writer h (WriteCall fd str) = plain_answer (int (min 1 (length str)))"
| "byte_writer h c = plain_answer 0"

text \<open>A byte server whose clock advances by a millisecond per call, to 50.\<close>

fun text_server :: "string \<Rightarrow> (syscall \<times> answer) list \<Rightarrow> syscall \<Rightarrow> answer" where
  "text_server input h (ReadCall fd n) = (plain_answer 1)\<lparr>an_data := [input ! reads fd h]\<rparr>"
| "text_server input h Gettimeofday = (plain_answer 0)\<lparr>an_usec := 1000 * of_nat (min (length h) 50)\<rparr>"
| "text_server input h c = plain_answer 0"

lemma ticks_list:
  "\<forall>k \<in> set [0..<51]. (1000 * word_of_nat (min (Suc k) 50)) div 1000 - (1000 * word_of_nat k) div 1000 < (100 :: 64 word)"
  by code_simp

lemma ticks:
  "(1000 * word_of_nat (min (Suc n) 50)) div 1000 - (1000 * word_of_nat (min n 50)) div 1000 < (100 :: 64 word)"
proof -
  have "min n 50 \<in> set [0..<51]" by simp
  moreover have "min (Suc (min n 50)) 50 = min (Suc n) 50" by simp
  ultimately show ?thesis using ticks_list by metis
qed

lemma text_server_serves: "serves (plain_os (text_server input)) fd 100 input"
proof -
  have "clock (plain_os (text_server input)) h = (1000 * word_of_nat (min (length h) 50)) div 1000" for h
    by (simp add: clock_def plain_os_def plain_answer_def mstime_def ustime_def)
  then show ?thesis
    using ticks by (simp add: serves_def) (simp add: plain_os_def plain_answer_def)
qed

definition new_net :: net where
  "new_net = \<lparr>history = [], net_errno = 0, errbuf = None\<rparr>"

section \<open>Properties\<close>

text \<open>
  C20 Connecting and listening on a path account for every socket: whatever the kernel answers, the
  descriptors that tcpGenericConnect (with all addresses tried, the bound source and the second
  attempt of best effort binding), createSocket and unixServer open are each closed exactly
  once, except the one they return; with the result -1 none stays open.
\<close>

theorem sockets_accounted:
  "leaves {#} (tcpGenericConnect K addr port src fl) socket_result \<and>
   leaves {#} (createSocket K domain) socket_result \<and>
   leaves {#} (unixServer K path perm backlog) socket_result"
  by (intro conjI leaves_tcpGenericConnect leaves_createSocket leaves_unixServer)

text \<open>
  When the address of a listening socket cannot be bound, tcpGenericServer reports -1 and
  closes the one socket it created twice: setListen closes it, then dealError does again.
\<close>

lemma server_closes_twice:
  assumes "\<And>h. an_ret (kernel K h (Getaddrinfo bindaddr (Some (portstr port)) af SOCK_STREAM AI_PASSIVE)) = 0"
    and "\<And>h. an_infos (kernel K h (Getaddrinfo bindaddr (Some (portstr port)) af SOCK_STREAM AI_PASSIVE)) = p # ps"
    and "\<And>h. an_ret (kernel K h (Socket (ai_family p) (ai_socktype p) (ai_protocol p))) = s" and "s \<noteq> -1"
    and "\<And>h opt v. an_ret (kernel K h (Setsockopt s opt v)) = 0"
    and "\<And>h. an_ret (kernel K h (Bind s (ai_addr p))) = -1"
    and "run_state (tcpGenericServer K port bindaddr af backlog) st = (r, st')"
  shows "r = -1 \<and> opened st' = opened st + {#s#} \<and> closed st' = closed st + {#s, s#}"
  using assms
  by (auto simp: tcpGenericServer_def run_sys setV6Only_def setReuseAddr_def setListen_def dealError_def
      run_sys_error opened_def closed_def Let_def split: if_splits)

text \<open>
  C22 syncRead ends: when the clock has passed the timeout after some number of system calls, the
  read loop returns, with -1 or with the number of bytes it put into the buffer, which is at most
  the size asked for, however often the descriptor is not ready.
\<close>

theorem sync_read_ends:
  assumes "\<And>h. N \<le> length h \<Longrightarrow> \<not> (clock K h - clock K (history st) < timeout)"
    and "\<And>h n. 0 < an_ret (kernel K h (ReadCall fd n)) \<Longrightarrow> an_ret (kernel K h (ReadCall fd n)) \<le> n"
    and "\<And>h n. 0 < an_ret (kernel K h (ReadCall fd n)) \<Longrightarrow>
           an_ret (kernel K h (ReadCall fd n)) \<le> int (length (an_data (kernel K h (ReadCall fd n))))"
    and "0 \<le> sz"
  shows "\<exists>r buf st'. syncRead K fd sz timeout st = Some ((r, buf), st') \<and>
           (r = -1 \<or> (r = int (length buf) \<and> r \<le> sz))"
proof (cases "sz = 0")
  case True
  then show ?thesis by (simp add: syncRead_def)
next
  case False
  show ?thesis
    using syncRead_loop_ends [where N = N and start = "clock K (history st)" and n = 0 and buf = "[]",
        OF assms(1-3)] assms(4) False
    by (simp add: syncRead_def run_mstime_now)
qed

theorem sync_read_ends_witness:
  "\<exists>r buf st'. syncRead (plain_os slow_peer) 3 4 5 new_net = Some ((r, buf), st') \<and>
     (r = -1 \<or> (r = int (length buf) \<and> r \<le> 4))"
proof (rule sync_read_ends [where N = 8])
  fix h :: "(syscall \<times> answer) list" assume "8 \<le> length h"
  then show "\<not> (clock (plain_os slow_peer) h - clock (plain_os slow_peer) (history new_net) < 5)"
    by (simp add: clock_def plain_os_def plain_answer_def new_net_def mstime_def ustime_def min_def)
qed (simp_all add: plain_os_def plain_answer_def)

text \<open>
  C21 syncReadLine reads a line: from a descriptor that delivers a text byte by byte, of which the
  next bytes are a line without line feed, a carriage return and a line feed, it leaves the line in the
  buffer, returns its length and consumes the line with its end, when the buffer has room for it. Every byte
  is read with a timeout of its own; the clock may move, but not by the whole timeout between the two
  readings of it that open one such read.
\<close>

theorem sync_read_line_reads:
  assumes "serves K fd timeout (pre @ line @ CRLF @ rest)" and "reads fd (history st) = length pre"
    and "CHR 0x0A \<notin> set line" and "int (length line) + 2 < sz"
  shows "\<exists>st'. syncReadLine K fd sz timeout st = Some ((int (length line), Some line), st') \<and>
           reads fd (history st') = length (pre @ line @ CRLF)"
proof -
  let ?cs = "line @ [CHR 0x0D]"
  obtain st1 where 1: "syncReadLine K fd sz timeout st =
        readLine_loop K fd timeout (sz - 1 - int (length ?cs)) ?cs True st1"
      "reads fd (history st1) = length pre + length ?cs"
    using readLine_plain [OF assms(1), where cs = ?cs and st = st and sz = "sz - 1" and line = "[]" and w = False] assms(2-)
    by (auto simp: syncReadLine_def CRLF_def)
  obtain st2 where 2: "syncRead K fd 1 timeout st1 = Some ((1, [CHR 0x0A]), st2)"
      "reads fd (history st2) = length (pre @ line @ CRLF)"
    using read_one [OF assms(1), of st1] 1(2) by (auto simp: CRLF_def nth_append)
  have "readLine_loop K fd timeout (sz - 1 - int (length ?cs)) ?cs True st1 = Some ((int (length line), Some line), st2)"
    using assms(4) by (subst readLine_loop.simps) (simp add: 2(1))
  with 1(1) 2(2) show ?thesis by simp
qed

theorem sync_read_line_reads_witness:
  "\<exists>st'. syncReadLine (plain_os (text_server (''+OK'' @ CRLF @ ''x''))) 3 16 100 new_net = Some ((3, Some ''+OK''), st') \<and>
     reads 3 (history st') = 5"
  using sync_read_line_reads [of "plain_os (text_server (''+OK'' @ CRLF @ ''x''))" 3 100 "[]" "''+OK''" "''x''" new_net 16]
    text_server_serves [of "''+OK'' @ CRLF @ ''x''" 3]
  by (simp add: new_net_def reads_def)

text \<open>
  A string that goes out in two writes is reported as an error: the loop of syncWrite
  compares the last write with the length of the whole string, so it writes the empty rest once more and
  returns -1, although every byte has been sent.
\<close>

lemma sync_write_in_pieces_fails:
  assumes "\<And>h. clock K h = t" and "timeout \<noteq> 0" and "0 < k" and "k < length str"
    and "\<And>h. an_ret (kernel K h (WriteCall fd str)) = int k"
    and "\<And>h. an_ret (kernel K h (WriteCall fd (drop k str))) = int (length str - k)"
    and "\<And>h. an_ret (kernel K h (WriteCall fd [])) = 0"
  shows "\<exists>st'. syncWrite K fd str timeout st = Some (-1, st') \<and>
           WriteCall fd str \<in> calls st' \<and> WriteCall fd (drop k str) \<in> calls st'"
proof -
  define st0 where "st0 = snd (run_state (sys K Gettimeofday) st)"
  obtain st1 where 1: "syncWrite_loop K fd str timeout t 0 st0 = syncWrite_loop K fd str timeout t (int k) st1"
      "WriteCall fd str \<in> calls st1"
    using write_turn [OF assms(1,2), where w = 0 and n = "int k" and str = str and fd = fd and st = st0]
      assms(3,4,5) by auto
  obtain st2 where 2: "syncWrite_loop K fd str timeout t (int k) st1 =
        syncWrite_loop K fd str timeout t (int (length str)) st2"
      "WriteCall fd (drop k str) \<in> calls st2" "calls st1 \<subseteq> calls st2"
    using write_turn [OF assms(1,2), where w = "int k" and n = "int (length str - k)" and str = str
        and fd = fd and st = st1] assms(3,4,6) by (auto simp: of_nat_diff)
  obtain st3 where 3: "syncWrite_loop K fd str timeout t (int (length str)) st2 = Some (-1, st3)"
      "calls st2 \<subseteq> calls st3"
    using write_turn_zero [OF assms(1,2), where w = "int (length str)" and str = str and fd = fd and st = st2]
      assms(7) by auto
  show ?thesis
    using 1 2 3 by (auto simp: syncWrite_def run_mstime_now assms(1) st0_def [symmetric])
qed

end
