(* ===== verification/ConfigFacts.thy ===== *)
theory ConfigFacts imports Config begin

text \<open>
  What reading a configuration means: \<open>spec_lines\<close> reads the lines against the fixed list of entries,
  with the reference splitter and without a dictionary. The reader of the code, with its dictionary that
  may move its entries at every lookup and its chunks of the file, computes the same; settings that are
  printed to a file are read back.
\<close>

section \<open>The reader against its meaning\<close>

definition cfg_ok :: "(string \<Rightarrow> nat) \<Rightarrow> reader \<Rightarrow> bool" where
  "cfg_ok hash r \<longleftrightarrow> dict_ok hash (fst r) \<and> dict_abs (fst r) = map_of config_entries"

definition apply_words :: "(string \<Rightarrow> bool) \<Rightarrow> string list \<Rightarrow> config_cache \<Rightarrow> config_cache res" where
  "apply_words opens words c =
     (case map_of config_entries (hd words) of
        None \<Rightarrow> Ret c
      | Some e \<Rightarrow> if length words < cfe_arity e then Ret c else run_proc opens (cfe_proc e) words c)"

fun spec_lines :: "(string \<Rightarrow> bool) \<Rightarrow> string list \<Rightarrow> config_cache \<Rightarrow> config_cache res" where
  "spec_lines opens [] c = Ret c"
| "spec_lines opens (l # ls) c =
     (if l = [] \<or> hd l = CHR ''#'' \<or> tokens '' '' l = [] then spec_lines opens ls c
      else res_bind (apply_words opens (tokens '' '' l) c) (spec_lines opens ls))"

lemma add_entries_all: "add_entries cr hash es d = dict_store.add_all cr hash d es"
proof (induction es arbitrary: d)
  case (Cons e es)
  then show ?case by (cases e) (simp add: dict_store.add_all.simps)
qed (simp add: dict_store.add_all.simps)

lemma new_reader_ok: "\<exists>r. new_reader cr hash junk = Ret r \<and> cfg_ok hash r \<and> snd r = new_config junk"
proof -
  have "distinct (map fst config_entries)" by (simp add: config_entries_def)
  moreover have "dict_count (new_dict :: (string, config_entry) dict) + length config_entries \<le> HASH_TABLE_INITIAL_SIZE"
    by (simp add: config_entries_def dict_count_def new_dict_def new_table_def HASH_TABLE_INITIAL_SIZE_def)
  ultimately obtain d where "dict_store.add_all cr hash new_dict config_entries = Ret d" "dict_ok hash d"
      "dict_abs d = dict_abs (new_dict :: (string, config_entry) dict) ++ map_of config_entries"
    using dict_store.add_all_ok [OF new_dict_ok, where hash = hash and cr = cr and kvs = config_entries]
    by (auto simp: new_dict_abs)
  then show ?thesis
    by (auto simp: new_reader_def initConfigEntry_def add_entries_all cfg_ok_def new_dict_abs)
qed

lemma parse_ok:
  assumes "cfg_ok hash r"
  shows "\<exists>d. parseConfig hash opens words r = res_bind (apply_words opens words (snd r)) (\<lambda>c. Ret (d, c)) \<and>
           (\<forall>c. cfg_ok hash (d, c))"
proof -
  obtain d where "findEntry hash (fst r) (hd words) = Ret (d, map_of config_entries (hd words))"
      "dict_ok hash d" "dict_abs d = map_of config_entries"
    using dict_store.find_ok [of hash "fst r" "hd words"] assms by (auto simp: cfg_ok_def)
  then show ?thesis
    by (auto simp: parseConfig_def apply_words_def cfg_ok_def split: option.splits)
qed

lemma load_lines_ok:
  "cfg_ok hash r \<Longrightarrow>
   res_bind (load_lines hash opens ls r) (\<lambda>r'. Ret (snd r')) = spec_lines opens ls (snd r)"
proof (induction ls arbitrary: r)
  case (Cons l ls)
  have sp: "spiltString l '' '' = Some (tokens '' '' l)" by (simp add: spiltString_tokens)
  obtain d where d: "parseConfig hash opens (tokens '' '' l) r =
        res_bind (apply_words opens (tokens '' '' l) (snd r)) (\<lambda>c. Ret (d, c))" "\<And>c. cfg_ok hash (d, c)"
    using parse_ok [OF Cons.prems] by blast
  have "res_bind (load_lines hash opens ls (d, c)) (\<lambda>r'. Ret (snd r')) = spec_lines opens ls c" for c
    using Cons.IH [OF d(2)] by simp
  then show ?case
    using Cons.IH [OF Cons.prems]
    by (simp add: loadConfigFromLineString_def sp d(1) res_bind_assoc)
qed simp

lemma read_file_plain: "NUL \<notin> set inp \<Longrightarrow> read_file inp config = config @ inp"
proof (induction inp config rule: read_file.induct)
  case (1 inp config)
  show ?case
  proof (cases "inp = []")
    case False
    let ?n = "fgets_len CONFIG_MAX_LINE inp"
    have "NUL \<notin> set (take ?n inp)" "NUL \<notin> set (drop ?n inp)"
      using "1.prems" by (meson in_set_takeD in_set_dropD)+
    moreover from this have "c_str (take ?n inp) = take ?n inp"
      by (auto simp: c_str_def takeWhile_eq_all_conv)
    ultimately show ?thesis
      using "1.IH" [OF False HOL.refl] False by (subst read_file.simps) (simp add: Let_def)
  qed (simp add: read_file.simps)
qed

section \<open>Printing settings\<close>

datatype setting =
    Port nat | Bind "string list" | UnixSocket string | KeepAlive nat | LogTo string | SyslogOn bool
  | Ident string | Level nat | Facility nat | Comment string

definition word_ok :: "string \<Rightarrow> bool" where
  "word_ok w \<longleftrightarrow> w \<noteq> [] \<and> CHR '' '' \<notin> set w \<and> CHR 0x0A \<notin> set w \<and> NUL \<notin> set w"

fun words_of :: "setting \<Rightarrow> string list" where
  "words_of (Port n) = [''port'', nat_dec n]"
| "words_of (Bind ws) = ''bind'' # ws"
| "words_of (UnixSocket w) = [''unixsocket'', w]"
| "words_of (KeepAlive n) = [''tcp-keepalive'', nat_dec n]"
| "words_of (LogTo w) = [''logfile'', w]"
| "words_of (SyslogOn b) = [''syslog-enable'', if b then ''yes'' else ''no'']"
| "words_of (Ident w) = [''syslog-ident'', w]"
| "words_of (Level i) = [''loglevel'', fst (loglevelMap ! i)]"
| "words_of (Facility i) = [''syslog-facility'', fst (syslogFacilityMap ! i)]"
| "words_of (Comment t) = []"

fun line_of :: "setting \<Rightarrow> string" where
  "line_of (Comment t) = CHR ''#'' # t"
| "line_of s = join '' '' (words_of s)"

fun setting_ok :: "(string \<Rightarrow> bool) \<Rightarrow> setting \<Rightarrow> bool" where
  "setting_ok opens (Port n) = (n \<le> 65535)"
| "setting_ok opens (Bind ws) = (length ws = CONFIG_BINDADDR_MAX \<and> (\<forall>w \<in> set ws. word_ok w))"
| "setting_ok opens (UnixSocket w) = word_ok w"
| "setting_ok opens (KeepAlive n) = (n < 2 ^ 31)"
| "setting_ok opens (LogTo w) = (word_ok w \<and> opens w)"
| "setting_ok opens (SyslogOn b) = True"
| "setting_ok opens (Ident w) = word_ok w"
| "setting_ok opens (Level i) = (i < 4)"
| "setting_ok opens (Facility i) = (i < 9)"
| "setting_ok opens (Comment t) = (CHR 0x0A \<notin> set t \<and> NUL \<notin> set t)"

fun set_option :: "setting \<Rightarrow> config_cache \<Rightarrow> config_cache" where
  "set_option (Port n) c = c\<lparr>cf_port := int n\<rparr>"
| "set_option (Bind ws) c = c\<lparr>cf_bindAddrs := cf_bindAddrs c @ ws\<rparr>"
| "set_option (UnixSocket w) c = c\<lparr>cf_unixsocket := Some w\<rparr>"
| "set_option (KeepAlive n) c = c\<lparr>cf_tcpKeepAlive := int n\<rparr>"
| "set_option (LogTo w) c = c\<lparr>cf_logfile := w\<rparr>"
| "set_option (SyslogOn b) c = c\<lparr>cf_syslogEnabled := (if b then 1 else 0)\<rparr>"
| "set_option (Ident w) c = c\<lparr>cf_syslogIdent := w\<rparr>"
| "set_option (Level i) c = c\<lparr>cf_verbosity := int i\<rparr>"
| "set_option (Facility i) c = c\<lparr>cf_syslogFacility := snd (syslogFacilityMap ! i)\<rparr>"
| "set_option (Comment t) c = c"

definition file_of :: "setting list \<Rightarrow> string" where
  "file_of ss = concat (map (\<lambda>s. line_of s @ [CHR 0x0A]) ss)"

lemma word_ok_nat_dec: "word_ok (nat_dec n)"
  using nat_dec_digits [of n] by (auto simp: word_ok_def is_digit_def NUL_def)

lemma word_ok_c_str: "word_ok w \<Longrightarrow> c_str w = w"
  by (auto simp: word_ok_def c_str_def takeWhile_eq_all_conv)

lemma levels_ok: "i < 4 \<Longrightarrow> word_ok (fst (loglevelMap ! i)) \<and> configMapGetValue loglevelMap (fst (loglevelMap ! i)) = int i"
proof -
  have "\<forall>i < 4. word_ok (fst (loglevelMap ! i)) \<and> configMapGetValue loglevelMap (fst (loglevelMap ! i)) = int i"
    by code_simp
  then show "i < 4 \<Longrightarrow> word_ok (fst (loglevelMap ! i)) \<and> configMapGetValue loglevelMap (fst (loglevelMap ! i)) = int i"
    by blast
qed

lemma facilities_ok:
  assumes "i < 9"
  shows "word_ok (fst (syslogFacilityMap ! i)) \<and>
    configMapGetValue syslogFacilityMap (fst (syslogFacilityMap ! i)) = snd (syslogFacilityMap ! i) \<and>
    snd (syslogFacilityMap ! i) \<noteq> INT_MIN"
proof -
  have "\<forall>i < 9. word_ok (fst (syslogFacilityMap ! i)) \<and>
    configMapGetValue syslogFacilityMap (fst (syslogFacilityMap ! i)) = snd (syslogFacilityMap ! i) \<and>
    snd (syslogFacilityMap ! i) \<noteq> INT_MIN"
    by code_simp
  then show ?thesis using assms by blast
qed

lemma level_not_min: "int i \<noteq> INT_MIN"
  by (simp add: INT_MIN_def)

lemma words_ok: "setting_ok opens s \<Longrightarrow> w \<in> set (words_of s) \<Longrightarrow> word_ok w"
  by (cases s) (auto simp: word_ok_nat_dec levels_ok facilities_ok simp del: nth_mem,
      auto simp: word_ok_def NUL_def split: if_splits)

lemma yes_no: "yesnotoi (if b then ''yes'' else ''no'') = (if b then 1 else 0)"
  by (cases b) (simp_all add: yesnotoi_def strcaseeq_def c_str_def NUL_def to_lower_def)

lemma c_str_yes_no: "c_str (if b then ''yes'' else ''no'') = (if b then ''yes'' else ''no'')"
  by (simp add: c_str_def NUL_def)

lemma apply_words_setting:
  assumes "setting_ok opens s" and "words_of s \<noteq> []"
  shows "apply_words opens (words_of s) c = Ret (set_option s c)"
proof -
  have cs: "w \<in> set (words_of s) \<Longrightarrow> c_str w = w" for w
    using words_ok [OF assms(1)] word_ok_c_str by blast
  have port: "n \<le> 65535 \<Longrightarrow> atoi (nat_dec n) = int n" for n by (simp add: atoi_nat_dec)
  show ?thesis
    using assms cs
    by (cases s) (simp_all add: apply_words_def config_entries_def portConfigProc_def bindConfigProc_def
        unixSocketConfigProc_def tcpKeepaliveConfigProc_def logFileConfigProc_def syslogEnableConfigProc_def
        syslogIdentConfigProc_def logLevelConfigProc_def syslogFacilityConfigProc_def port atoi_nat_dec
        levels_ok facilities_ok level_not_min yes_no c_str_yes_no word_ok_def CONFIG_BINDADDR_MAX_def Let_def)
qed

lemma word_ok_splittable: "word_ok w \<Longrightarrow> splittable '' '' w"
  by (cases w) (auto simp: word_ok_def splittable_def)

lemma line_of_words: "words_of s \<noteq> [] \<Longrightarrow> line_of s = join '' '' (words_of s)"
  by (cases s) auto

lemma tokens_line: "setting_ok opens s \<Longrightarrow> words_of s \<noteq> [] \<Longrightarrow> tokens '' '' (line_of s) = words_of s"
  using words_ok [of opens s] by (simp add: line_of_words tokens_join word_ok_splittable)

lemma join_set: "set (join d ws) \<subseteq> set d \<union> (\<Union>w \<in> set ws. set w)"
  by (induction d ws rule: join.induct) auto

lemma join_hd: "w \<noteq> [] \<Longrightarrow> hd (join d (w # ws)) = hd w \<and> join d (w # ws) \<noteq> []"
  by (cases ws) auto

lemma words_hd: "words_of s \<noteq> [] \<Longrightarrow> \<exists>k ws. words_of s = k # ws \<and> k \<noteq> [] \<and> hd k \<noteq> CHR ''#'' \<and> hd k \<noteq> CHR '' ''"
  by (cases s) auto

lemma line_start:
  assumes "words_of s \<noteq> []" shows "line_of s \<noteq> [] \<and> hd (line_of s) \<noteq> CHR ''#'' \<and> hd (line_of s) \<noteq> CHR '' ''"
proof -
  obtain k ws where k: "words_of s = k # ws" "k \<noteq> []" "hd k \<noteq> CHR ''#''" "hd k \<noteq> CHR '' ''"
    using words_hd [OF assms] by blast
  then show ?thesis using join_hd [of k "'' ''" ws] by (simp add: line_of_words)
qed

lemma line_plain:
  assumes "setting_ok opens s" shows "CHR 0x0A \<notin> set (line_of s) \<and> NUL \<notin> set (line_of s)"
proof (cases "words_of s = []")
  case True
  then show ?thesis using assms by (cases s) (auto simp: NUL_def)
next
  case False
  have "CHR 0x0A \<notin> set w \<and> NUL \<notin> set w" if "w \<in> set (words_of s)" for w
    using words_ok [OF assms that] by (simp add: word_ok_def)
  moreover have "set (line_of s) \<subseteq> set '' '' \<union> (\<Union>w \<in> set (words_of s). set w)"
    unfolding line_of_words [OF False] by (rule join_set)
  ultimately show ?thesis by (auto simp: NUL_def)
qed

lemma line_splittable: "setting_ok opens s \<Longrightarrow> splittable [CHR 0x0A] (line_of s)"
proof (cases "words_of s = []")
  case True
  then show "setting_ok opens s \<Longrightarrow> splittable [CHR 0x0A] (line_of s)"
    by (cases s) (auto simp: splittable_def)
next
  case False
  then show "setting_ok opens s \<Longrightarrow> splittable [CHR 0x0A] (line_of s)"
    using line_start [OF False] line_plain by (simp add: splittable_def)
qed

lemma tokens_file: "\<forall>s \<in> set ss. setting_ok opens s \<Longrightarrow> tokens [CHR 0x0A] (file_of ss) = map line_of ss"
proof (induction ss)
  case Nil
  then show ?case by (simp add: file_of_def tokens.simps)
next
  case (Cons s ss)
  then show ?case
    using tokens_join_Cons [of "[CHR 0x0A]" "line_of s" "file_of ss"] line_splittable [of opens s]
    by (simp add: file_of_def)
qed

lemma spec_lines_settings:
  "\<forall>s \<in> set ss. setting_ok opens s \<Longrightarrow>
   spec_lines opens (map line_of ss) c = Ret (fold set_option ss c)"
proof (induction ss arbitrary: c)
  case (Cons s ss)
  have IH: "spec_lines opens (map line_of ss) c = Ret (fold set_option ss c)" for c
    using Cons by simp
  show ?case
  proof (cases "words_of s = []")
    case True
    then show ?thesis by (cases s) (auto simp: IH)
  next
    case False
    have ok: "setting_ok opens s" using Cons.prems by simp
    show ?thesis
      using line_start [OF False] tokens_line [OF ok False] apply_words_setting [OF ok False] False
      by (simp add: IH)
  qed
qed simp

lemma settings_read:
  assumes "\<forall>s \<in> set ss. setting_ok opens s"
  shows "res_bind (new_reader cr hash junk) (loadConfig hash opens (file_of ss)) =
    Ret (fold set_option ss (new_config junk))"
proof -
  have "\<forall>s \<in> set ss. NUL \<notin> set (line_of s)"
    using assms line_plain by blast
  then have "NUL \<notin> set (file_of ss)"
    by (auto simp: file_of_def NUL_def)
  then obtain r where r: "new_reader cr hash junk = Ret r" "cfg_ok hash r" "snd r = new_config junk"
      "read_file (file_of ss) [] = file_of ss"
    using new_reader_ok read_file_plain by fastforce
  then show ?thesis
    using load_lines_ok [OF r(2)] spec_lines_settings [OF assms] tokens_file [OF assms]
    by (simp add: loadConfig_def loadConfigFromString_def spiltString_tokens)
qed

section \<open>Properties\<close>

text \<open>
  C13 Reading a configuration file means what the fixed list of entries says: for a file without NUL
  bytes the reader, with its chunks of 1024 bytes and its dictionary of entries, whatever the hash
  function and its moves at lookups, ends with the cache (or the exit) that the reference splitter
  and the plain list of entries give.
\<close>

theorem config_reading_refines:
  assumes "NUL \<notin> set inp"
  shows "res_bind (new_reader cr hash junk) (loadConfig hash opens inp) =
    spec_lines opens (tokens [CHR 0x0A] inp) (new_config junk)"
proof -
  obtain r where r: "new_reader cr hash junk = Ret r" "cfg_ok hash r" "snd r = new_config junk"
    using new_reader_ok by blast
  then show ?thesis
    using load_lines_ok [OF r(2)] assms
    by (simp add: loadConfig_def loadConfigFromString_def spiltString_tokens read_file_plain)
qed

theorem config_reading_refines_witness:
  "res_bind (new_reader True length 0) (loadConfig length (\<lambda>f. True) ''port 26379'') =
   spec_lines (\<lambda>f. True) (tokens [CHR 0x0A] ''port 26379'') (new_config 0)"
  by (rule config_reading_refines) (simp add: NUL_def)

text \<open>
  C25 A configuration that is written to a file is read back: for any list of settings in their
  ranges, comments included, the reader ends with the default cache changed by each of them in
  turn. A bind setting is read back with exactly sixteen addresses.
\<close>

theorem config_roundtrip:
  assumes "\<forall>s \<in> set ss. setting_ok opens s"
  shows "res_bind (new_reader cr hash junk) (loadConfig hash opens (file_of ss)) =
    Ret (fold set_option ss (new_config junk))"
  using assms by (rule settings_read)

theorem config_roundtrip_witness:
  "res_bind (new_reader True length 0) (loadConfig length (\<lambda>f. True)
     (file_of [Comment ''sentinel'', Port 26379, LogTo ''fly.log'', Level 3, SyslogOn True])) =
   Ret (fold set_option [Comment ''sentinel'', Port 26379, LogTo ''fly.log'', Level 3, SyslogOn True] (new_config 0))"
  by (rule config_roundtrip) (simp add: word_ok_def NUL_def)

text \<open>
  A bind line is only obeyed with exactly sixteen addresses: with fewer the number of words is below
  the arity of its entry and the line is ignored without a message, with more the process exits. So an address
  list of the usual length never takes effect and the server listens on every interface.
\<close>

lemma bind_needs_sixteen:
  assumes "cfg_ok hash r"
  shows "if length addrs < 16 then \<exists>d. parseConfig hash opens (''bind'' # addrs) r = Ret (d, snd r)
     else if length addrs = 16 then \<exists>d. parseConfig hash opens (''bind'' # addrs) r =
       Ret (d, (snd r)\<lparr>cf_bindAddrs := cf_bindAddrs (snd r) @ addrs\<rparr>)
     else parseConfig hash opens (''bind'' # addrs) r = Fault ProcessExit"
  using parse_ok [OF assms, of opens "''bind'' # addrs"]
  by (auto simp: apply_words_def config_entries_def bindConfigProc_def CONFIG_BINDADDR_MAX_def)

end
