(* ===== verification/StartupFacts.thy ===== *)
theory StartupFacts imports Startup ServerFacts NetFacts ConfigFacts begin

text \<open>
  The program as it is started: what \<open>boot\<close> leaves behind when it returns, and that the invariant
  of the server holds from there on. The components meet here: configuration, sockets, event loop, clients.
\<close>

section \<open>The pieces of the start\<close>

lemma read_config_settings:
  assumes "\<forall>x \<in> set ss. setting_ok (be_opens env) x"
  shows "read_config env (Some (file_of ss)) = Ret (fold set_option ss (new_config (be_facility env)))"
  using settings_read [OF assms] by (simp add: read_config_def)

lemma boot_parts:
  assumes "fst (boot K env inp st) = Ret p"
  obtains cfg d m i l where "read_config env inp = Ret cfg" "new_command_table (be_canResize env) (be_hash env) = Ret d"
    "setMaxClientLimit (fst (be_limit env)) (snd (be_limit env)) = Ret m"
    "si_commands i = d" "si_maxClients i = m" "si_settings i = loadFromConfig cfg"
    "createEvent (si_ipfd i) (new_loop (be_raw env) (be_msnow env) (nat (m + CONFIG_FDSET_INCR))) = Ret l"
    "p = \<lparr>ps_config = cfg, ps_logger = init_logger cfg, ps_openlog = openlog_call cfg,
          ps_ipfd = si_ipfd i, ps_usfd = si_usfd i, ps_server = new_server env i l\<rparr>"
proof -
  obtain cfg where cfg: "read_config env inp = Ret cfg"
    using assms by (cases "read_config env inp") (simp_all add: boot_def new_coordinator_def)
  obtain r st1 where r: "run_state (initGeneralServer K env cfg) st = (r, st1)" by fastforce
  then have "res_bind r (new_process env cfg) = Ret p"
    using assms cfg by (simp add: boot_def new_coordinator_def)
  then obtain i where i: "r = Ret i" "new_process env cfg i = Ret p" by (auto simp: res_bind_eq_Ret)
  obtain d where d: "new_command_table (be_canResize env) (be_hash env) = Ret d"
    using r i by (cases "new_command_table (be_canResize env) (be_hash env)") (simp_all add: initGeneralServer_def)
  obtain m where m: "setMaxClientLimit (fst (be_limit env)) (snd (be_limit env)) = Ret m"
    using r i d by (cases "setMaxClientLimit (fst (be_limit env)) (snd (be_limit env))") (simp_all add: initGeneralServer_def)
  have si: "si_commands i = d" "si_maxClients i = m" "si_settings i = loadFromConfig cfg"
    using r i d m by (auto simp: initGeneralServer_def Let_def res_bind_eq_Ret split: prod.splits)
  then show thesis
    using i(2) cfg d m that by (auto simp: new_process_def res_bind_eq_Ret)
qed

text \<open>What registering the listening sockets changes.\<close>

definition listens :: "int list \<Rightarrow> client_proc event_loop \<Rightarrow> client_proc event_loop \<Rightarrow> bool" where
  "listens fds l l' \<longleftrightarrow>
     (\<forall>fd \<in> set fds. 0 \<le> fd \<and> fd < setSize l \<and> fd < FD_SETSIZE \<and> rfileProc (fileEvents l' ! nat fd) = Some AcceptTcp) \<and>
     (\<forall>i. int i \<notin> set fds \<longrightarrow> fileEvents l' ! i = fileEvents l ! i) \<and>
     rfds l' = rfds l \<union> set fds \<and> wfds l' = wfds l \<and> timeEvents l' = timeEvents l \<and> setSize l' = setSize l"

lemma create_listens:
  assumes "el_inv l" and "createFileEvent fd ES_READABLE AcceptTcp None l = Ret (l', r)" and "r \<noteq> -1"
  shows "listens [fd] l l' \<and> el_inv l'"
proof -
  have "el_inv l'" using el_step_inv [OF el_create [OF _ assms(2)] assms(1)] by (simp add: ES_READABLE_def)
  then show ?thesis
    using assms unfolding listens_def
    by (auto simp: createFileEvent_def poll_add_def set_event_def event_at_def addFileProc_def res_bind_eq_Ret
        split: if_splits)
qed

lemma listen_listens: "el_inv l \<Longrightarrow> listen_events fds l = Ret l' \<Longrightarrow> listens fds l l' \<and> el_inv l'"
proof (induction fds l rule: listen_events.induct)
  case (1 l)
  then show ?case by (simp add: listens_def)
next
  case (2 fd fds l)
  then obtain m r where m: "createFileEvent fd ES_READABLE AcceptTcp None l = Ret (m, r)" "r \<noteq> -1"
    "listen_events fds m = Ret l'"
    by (auto simp: res_bind_eq_Ret split: if_splits)
  have a: "listens [fd] l m" "el_inv m" using create_listens [OF "2.prems"(1) m(1,2)] by auto
  have b: "listens fds m l'" "el_inv l'" using "2.IH" [OF m(2) a(2) m(3)] by auto
  have "rfileProc (fileEvents l' ! nat fd) = Some AcceptTcp"
  proof (cases "fd \<in> set fds")
    case False
    moreover have "int (nat fd) = fd" using a(1) by (simp add: listens_def)
    ultimately have "fileEvents l' ! nat fd = fileEvents m ! nat fd" using b(1) by (metis listens_def)
    then show ?thesis using a(1) by (simp add: listens_def)
  qed (use b(1) in \<open>simp add: listens_def\<close>)
  then show ?case using a(1) b unfolding listens_def by auto
qed

lemma limit_positive: "setMaxClientLimit soft f = Ret m \<Longrightarrow> 0 < m"
  using limit_bounds [of _ f m]
  by (cases soft) (simp add: setMaxClientLimit_def CONFIG_MIN_RESERVED_FDS_def, blast)

lemma boot_effect:
  assumes "fst (boot K env inp st) = Ret p" and "\<forall>i. fe_mask (be_raw env i) = ES_NONE"
  shows "read_config env inp = Ret (ps_config p) \<and> sv_inv (be_hash env) (ps_server p) \<and>
    listens (ps_ipfd p) (createTimeEvent 1 ServerCron None None
       (new_loop (be_raw env) (be_msnow env) (maxClients (ps_server p) + 128))) (sv_loop (ps_server p)) \<and>
    sv_port (sn (ps_server p)) = cf_port (ps_config p)"
proof -
  obtain cfg d m i l where b: "read_config env inp = Ret cfg" "new_command_table (be_canResize env) (be_hash env) = Ret d"
    "setMaxClientLimit (fst (be_limit env)) (snd (be_limit env)) = Ret m"
    "si_commands i = d" "si_maxClients i = m" "si_settings i = loadFromConfig cfg"
    "createEvent (si_ipfd i) (new_loop (be_raw env) (be_msnow env) (nat (m + CONFIG_FDSET_INCR))) = Ret l"
    "p = \<lparr>ps_config = cfg, ps_logger = init_logger cfg, ps_openlog = openlog_call cfg,
          ps_ipfd = si_ipfd i, ps_usfd = si_usfd i, ps_server = new_server env i l\<rparr>"
    using boot_parts [OF assms(1)] .
  have n: "nat (m + CONFIG_FDSET_INCR) = nat m + 128"
    using limit_positive [OF b(3)] by (simp add: CONFIG_FDSET_INCR_def CONFIG_MIN_RESERVED_FDS_def)
  have "el_inv (createTimeEvent 1 ServerCron None None (new_loop (be_raw env) (be_msnow env) (nat m + 128)))"
    using assms(2) by (intro el_step_inv [OF el_timer] new_loop_inv) simp
  then have "listens (si_ipfd i) (createTimeEvent 1 ServerCron None None
      (new_loop (be_raw env) (be_msnow env) (nat m + 128))) l \<and> el_inv l"
    using b(7) listen_listens by (simp add: createEvent_def n)
  then show ?thesis
    using b(1,4,5,6,8) new_table_ok [OF b(2)]
    by (simp add: new_server_def sv_inv_def registered_ok_def known_def loadFromConfig_def)
qed

section \<open>Starting without a socket\<close>

lemma no_socket_server:
  assumes "\<And>h a b c. an_ret (kernel K h (Socket a b c)) = -1"
  shows "fst (run_state (tcpGenericServer K port addr af backlog) st) = -1"
proof -
  have "fst (run_state (server_loop K af backlog ps) st) = -1" for ps st
    by (induction ps arbitrary: st)
      (simp_all add: run_sys assms Let_def dealError_def get_errno_def setError_def)
  then show ?thesis
    by (simp add: tcpGenericServer_def run_sys setError_def)
qed

lemma no_socket_listen:
  assumes "\<And>h a b c. an_ret (kernel K h (Socket a b c)) = -1"
  shows "fst (run_state (listenToPort K ps backlog []) st) = ([], -1)"
proof (cases "st_bindAddrs ps")
  case Nil
  then show ?thesis
    using no_socket_server [OF assms]
    by (simp add: listenToPort_def tcp6Server_def tcpServer_def split_beta)
next
  case (Cons a as)
  then show ?thesis
    using no_socket_server [OF assms]
    by (simp add: listenToPort_def tcp6Server_def tcpServer_def split_beta)
qed

section \<open>The start returns\<close>

lemma listen_events_return:
  "el_inv l \<Longrightarrow> \<forall>fd \<in> set fds. 0 \<le> fd \<and> fd < setSize l \<and> fd < FD_SETSIZE \<Longrightarrow> \<exists>l'. listen_events fds l = Ret l'"
proof (induction fds arbitrary: l)
  case (Cons fd fds)
  have "ES_READABLE AND NOT 3 = (0 :: flags)" by (simp add: ES_READABLE_def)
  then obtain l1 where "createFileEvent fd ES_READABLE AcceptTcp None l = Ret (l1, 1)" "el_inv l1" "setSize l1 = setSize l"
    using create_ok [OF Cons.prems(1), of fd ES_READABLE AcceptTcp None] Cons.prems(2) by auto
  then show ?case using Cons.IH [of l1] Cons.prems(2) by simp
qed simp

lemma boot_returns:
  assumes "read_config env inp = Ret cfg" and "cf_unixsocket cfg = None"
    and "setMaxClientLimit (fst (be_limit env)) (snd (be_limit env)) = Ret m"
    and "fst (run_state (listenToPort K (loadFromConfig cfg) (be_backlog env) []) st) = (fds, r)"
    and "\<forall>fd \<in> set fds. 0 \<le> fd \<and> fd < m + 128 \<and> fd < FD_SETSIZE"
    and "\<forall>i. fe_mask (be_raw env i) = ES_NONE"
  shows "\<exists>p. fst (boot K env inp st) = Ret p \<and> ps_ipfd p = fds \<and> ps_usfd p = None \<and> ps_config p = cfg"
proof -
  obtain d where d: "new_command_table (be_canResize env) (be_hash env) = Ret d"
    using command_table_ok [of "be_canResize env" "be_hash env" "[]" "[]"] by auto
  define i where "i = \<lparr>si_commands = d, si_maxClients = m, si_settings = loadFromConfig cfg, si_ipfd = fds, si_usfd = None\<rparr>"
  obtain st1 where "run_state (listenToPort K (loadFromConfig cfg) (be_backlog env) []) st = ((fds, r), st1)"
    using assms(4) by (cases "run_state (listenToPort K (loadFromConfig cfg) (be_backlog env) []) st") auto
  then have init: "run_state (initGeneralServer K env cfg) st = (Ret i, st1)"
    using d assms(2,3) by (simp add: initGeneralServer_def Let_def open_unix_def i_def) (simp add: loadFromConfig_def)
  let ?l = "createTimeEvent 1 ServerCron None None (new_loop (be_raw env) (be_msnow env) (nat (m + 128)))"
  have "el_inv ?l" using assms(6) by (intro el_step_inv [OF el_timer] new_loop_inv) simp
  moreover have "setSize ?l = m + 128"
    using limit_positive [OF assms(3)] by (simp add: createTimeEvent_def new_loop_def)
  ultimately obtain l where "listen_events fds ?l = Ret l"
    using listen_events_return [of ?l fds] assms(5) by auto
  then have "new_process env cfg i = Ret \<lparr>ps_config = cfg, ps_logger = init_logger cfg, ps_openlog = openlog_call cfg,
      ps_ipfd = fds, ps_usfd = None, ps_server = new_server env i l\<rparr>"
    by (simp add: new_process_def i_def createEvent_def CONFIG_FDSET_INCR_def CONFIG_MIN_RESERVED_FDS_def)
  then show ?thesis
    using assms(1) init by (simp add: boot_def new_coordinator_def)
qed

section \<open>A concrete start\<close>

definition sample_env :: boot_env where
  "sample_env =
     \<lparr>be_canResize = True, be_hash = (\<lambda>_. 0), be_opens = (\<lambda>_. True), be_limit = (None, \<lambda>_. True), be_seconds = 0,
      be_msnow = 0, be_facility = 0, be_backlog = 511, be_nextId = 0,
      be_raw = (\<lambda>i. \<lparr>fe_fd = 0, fe_mask = 0, fe_privdata = None, rfileProc = None, wfileProc = None\<rparr>),
      be_sentinel = empty_sentinel\<rparr>"

lemma sample_env_fields [simp]:
  "be_hash sample_env = (\<lambda>_. 0)" "be_opens sample_env = (\<lambda>_. True)" "be_facility sample_env = 0"
  "fe_mask (be_raw sample_env i) = ES_NONE"
  "setMaxClientLimit (fst (be_limit sample_env)) (snd (be_limit sample_env)) = Ret 992"
  by (simp_all add: sample_env_def ES_NONE_def setMaxClientLimit_def CONFIG_MIN_RESERVED_FDS_def)

text \<open>A kernel with IPv4 only.\<close>

fun ipv4_kernel :: "(syscall \<times> answer) list \<Rightarrow> syscall \<Rightarrow> answer" where
  "ipv4_kernel h (Socket f t p) = plain_answer (if f = AF_INET then 5 else -1)"
| "ipv4_kernel h (Getaddrinfo a b f t fl) = (plain_answer 0)\<lparr>an_infos := [sample_info\<lparr>ai_family := f\<rparr>]\<rparr>"
| "ipv4_kernel h c = plain_answer 0"

lemma ipv4_listen:
  assumes "st_bindAddrs ps = []"
  shows "fst (run_state (listenToPort (plain_os ipv4_kernel) ps backlog []) st) = ([5], 1)"
  using assms
  by (simp add: listenToPort_def tcp6Server_def tcpServer_def tcpGenericServer_def run_sys keep_fd_def no_err_def
      setBlock_def setReuseAddr_def setListen_def dealError_def get_errno_def setError_def run_sys_error
      plain_os_def plain_answer_def sample_info_def AF_INET_def AF_INET6_def Let_def split_beta)

lemma sample_boot:
  "\<exists>p. fst (boot (plain_os ipv4_kernel) sample_env (Some (file_of [Port 26379])) new_net) = Ret p \<and> ps_ipfd p = [5]"
proof -
  let ?cfg = "fold set_option [Port 26379] (new_config 0)"
  have cfg: "read_config sample_env (Some (file_of [Port 26379])) = Ret ?cfg"
    using read_config_settings [of "[Port 26379]" sample_env] by simp
  have l: "fst (run_state (listenToPort (plain_os ipv4_kernel) (loadFromConfig ?cfg) (be_backlog sample_env) []) new_net) = ([5], 1)"
    by (rule ipv4_listen) (simp add: loadFromConfig_def new_config_def)
  show ?thesis
    using boot_returns [OF cfg _ sample_env_fields(5) l] by (auto simp: new_config_def FD_SETSIZE_def)
qed

section \<open>Properties\<close>

text \<open>
  C2 Invariant of the server, from the start of the program on: after a start that returns, whatever the
  configuration file and the kernel's answers, and whatever the file procs, the flush before a sleep
  and the cron do then, in any order and with any answers of the world, the event loop stays
  consistent, every registered client is a live object under its own descriptor (or has lost it), there
  are never more than \<open>maxClients\<close>, no client has a reply list or a subscription, output buffers stay
  within their bounds, and the command table means what it was filled with. It needs what the
  constructors do not ensure: masks that start at zero.
\<close>

theorem server_invariant:
  assumes "fst (boot K env inp st) = Ret p" and "\<forall>i. fe_mask (be_raw env i) = ES_NONE"
    and "sv_reach (be_hash env) (ps_server p) t"
  shows "sv_inv (be_hash env) t"
  using boot_effect [OF assms(1,2)] reach_inv [OF assms(3)] by blast

theorem server_invariant_witness:
  "\<exists>p. fst (boot (plain_os ipv4_kernel) sample_env (Some (file_of [Port 26379])) new_net) = Ret p \<and>
     sv_inv (\<lambda>_. 0) (ps_server p)"
proof -
  obtain p where "fst (boot (plain_os ipv4_kernel) sample_env (Some (file_of [Port 26379])) new_net) = Ret p"
    using sample_boot by blast
  then show ?thesis using server_invariant [OF _ _ sv_start, where env = sample_env] by auto
qed

text \<open>
  C4 What a start from a written configuration leaves behind, when it returns: the cache holds the
  defaults changed by the settings in turn and the server runs on the configured port; the event table has
  room for the client limit and 128 more; exactly the listening TCP sockets are watched, for reading, with the
  accepting proc, so a configured unix socket is opened but never accepted on; the cron is the only
  timer.
\<close>

theorem startup_effect:
  assumes "\<forall>x \<in> set ss. setting_ok (be_opens env) x" and "\<forall>i. fe_mask (be_raw env i) = ES_NONE"
    and "fst (boot K env (Some (file_of ss)) st) = Ret p"
  shows "ps_config p = fold set_option ss (new_config (be_facility env)) \<and>
    sv_port (sn (ps_server p)) = cf_port (ps_config p) \<and>
    setSize (sv_loop (ps_server p)) = int (maxClients (ps_server p)) + 128 \<and>
    rfds (sv_loop (ps_server p)) = set (ps_ipfd p) \<and> wfds (sv_loop (ps_server p)) = {} \<and>
    (\<forall>fd \<in> set (ps_ipfd p). rfileProc (fileEvents (sv_loop (ps_server p)) ! nat fd) = Some AcceptTcp) \<and>
    map timeProc (timeEvents (sv_loop (ps_server p))) = [ServerCron]"
  using boot_effect [OF assms(3,2)] read_config_settings [OF assms(1)]
  by (simp add: listens_def createTimeEvent_def new_loop_def)

theorem startup_effect_witness:
  "\<exists>p. fst (boot (plain_os ipv4_kernel) sample_env (Some (file_of [Port 26379])) new_net) = Ret p \<and>
     sv_port (sn (ps_server p)) = 26379 \<and> rfds (sv_loop (ps_server p)) = {5}"
proof -
  obtain p where p: "fst (boot (plain_os ipv4_kernel) sample_env (Some (file_of [Port 26379])) new_net) = Ret p"
    "ps_ipfd p = [5]"
    using sample_boot by blast
  then show ?thesis using startup_effect [OF _ _ p(1)] by (simp add: new_config_def)
qed

text \<open>
  C38 The program starts deaf: when no socket at all can be opened, listenToPort fails, but its result is ignored, so
  without a unix socket in the configuration the start returns all the same, with a server that
  watches no descriptor and that no client can ever reach.
\<close>

theorem starts_without_sockets:
  assumes "\<And>h a b c. an_ret (kernel K h (Socket a b c)) = -1"
    and "read_config env inp = Ret cfg" and "cf_unixsocket cfg = None"
    and "setMaxClientLimit (fst (be_limit env)) (snd (be_limit env)) = Ret m"
    and "\<forall>i. fe_mask (be_raw env i) = ES_NONE"
  shows "fst (run_state (listenToPort K (loadFromConfig cfg) (be_backlog env) []) st) = ([], -1) \<and>
    (\<exists>p. fst (boot K env inp st) = Ret p \<and> rfds (sv_loop (ps_server p)) = {} \<and> wfds (sv_loop (ps_server p)) = {})"
proof -
  have l: "fst (run_state (listenToPort K (loadFromConfig cfg) (be_backlog env) []) st) = ([], -1)"
    using no_socket_listen [OF assms(1)] .
  then obtain p where p: "fst (boot K env inp st) = Ret p" "ps_ipfd p = []"
    using boot_returns [OF assms(2-4) l _ assms(5)] by auto
  then show ?thesis
    using l boot_effect [OF p(1) assms(5)] by (auto simp: listens_def createTimeEvent_def new_loop_def)
qed

theorem starts_without_sockets_witness:
  "\<exists>p. fst (boot (plain_os (\<lambda>h c. plain_answer (-1))) sample_env (Some (file_of [])) new_net) = Ret p \<and>
     rfds (sv_loop (ps_server p)) = {}"
proof -
  have "read_config sample_env (Some (file_of [])) = Ret (new_config 0)"
    using read_config_settings [of "[]" sample_env] by simp
  then show ?thesis
    using starts_without_sockets [OF _ _ _ sample_env_fields(5), of "plain_os (\<lambda>h c. plain_answer (-1))" "Some (file_of [])"
        "new_config 0" new_net]
    by (auto simp: plain_os_def plain_answer_def new_config_def)
qed

end
