(* ===== verification/Program.thy ===== *)
theory Program imports StartupFacts begin

text \<open>
  The running program (\<open>main\<close> in src/src/main.cpp with \<open>EventLoop::eventMain\<close>): the process that the start leaves
  behind, and rounds of the event loop on it, each with the flush before the sleep, the file procs of
  the ready descriptors and the timers. It joins every component of the server; its theorem is what a client
  can see of the program.
\<close>

section \<open>Rounds of the loop\<close>

text \<open>
  What the world answers in one round: select, the clock of the loop, the file procs, the writes of the flush, and for the
  cron the time in seconds and milliseconds, fork, wait and random numbers.
\<close>

record round =
  rd_select :: "int \<times> int set \<times> int set"
  rd_clock :: int
  rd_world :: world
  rd_writes :: "cid \<Rightarrow> (nat \<Rightarrow> string \<Rightarrow> int) \<times> bool"
  rd_seconds :: int
  rd_now :: "64 word"
  rd_fork :: "nat \<Rightarrow> int"
  rd_waits :: "(int \<times> nat \<times> nat) list"
  rd_rand :: nat

definition beforeSleep :: "round \<Rightarrow> server \<Rightarrow> server res" where
  "beforeSleep r s = res_bind (handleClientsWithPendingWrites (rd_writes r) s) (\<lambda>(s, n). Ret s)"

text \<open>The cron is the only time proc.\<close>

definition run_timer :: "round \<Rightarrow> client_proc \<Rightarrow> 64 word \<Rightarrow> nat option \<Rightarrow> server \<Rightarrow> (server \<times> int) res" where
  "run_timer r p i d s =
     (if p = ServerCron
      then res_bind (serverCron (rd_seconds r) (rd_now r) (rd_fork r) (rd_waits r) (rd_rand r) s)
             (\<lambda>(s, killed, ms). Ret (s, ms))
      else Fault BadFormat)"

text \<open>
  The loop is a part of the server. The file procs keep the loop they are run on and the server's copy the same; the
  timers change the list of timers in one and the cron the file events in the other.
\<close>

definition main_round :: "round \<Rightarrow> server \<Rightarrow> server res" where
  "main_round r s =
     res_bind (beforeSleep r s) (\<lambda>s.
     res_bind (processEvents (run_client (rd_world r)) (run_timer r) (rd_select r) (rd_clock r)
                 (EVENT_ALL_EVENTS OR EVENT_CALL_AFTER_SLEEP) (sv_loop s, s))
       (\<lambda>((l, s), n). Ret (s\<lparr>sv_loop := (sv_loop s)\<lparr>timeEvents := timeEvents l\<rparr>\<rparr>)))"

text \<open>As many rounds as the world has answers for.\<close>

fun main_loop :: "round list \<Rightarrow> server \<Rightarrow> server res" where
  "main_loop [] s = Ret s"
| "main_loop (r # rs) s =
     (if stopFlag (sv_loop s) then Ret s else res_bind (main_round r s) (main_loop rs))"

definition run_program :: "os \<Rightarrow> boot_env \<Rightarrow> string option \<Rightarrow> net \<Rightarrow> round list \<Rightarrow> server res" where
  "run_program K env inp st rs =
     res_bind (fst (boot K env inp st)) (\<lambda>p.
       let s = ps_server p in main_loop rs (s\<lparr>sv_loop := (sv_loop s)\<lparr>stopFlag := False\<rparr>\<rparr>))"

section \<open>Silence\<close>

text \<open>
  No client has input or output, no argument array, no subscription; nothing waits to be sent, and
  nothing but empty pieces has been.
\<close>

definition silent :: "fly_client \<Rightarrow> bool" where
  "silent x \<longleftrightarrow> queryBuf x = [] \<and> argvCap x = None \<and> hasNoPending x"

definition quiet :: "server \<Rightarrow> bool" where
  "quiet s \<longleftrightarrow> (\<forall>x \<in> set (objs s). silent x) \<and> clientsPendingWrite s = [] \<and> chans s = [] \<and> pats s = [] \<and>
     (\<forall>(fd, bs) \<in> set (net_out s). bs = [])"

lemma quiet_obj: "quiet s \<Longrightarrow> obj s c = Ret x \<Longrightarrow> silent x"
  by (auto simp: quiet_def obj_def split: if_splits)

lemma quiet_upd: "quiet s \<Longrightarrow> (\<And>x. silent x \<Longrightarrow> silent (f x)) \<Longrightarrow> quiet (upd_obj c f s)"
  using set_update_subset_insert [of "objs s" c "f (objs s ! c)"]
  by (auto simp: quiet_def upd_obj_def)

lemma quiet_fields [simp]:
  "quiet (s\<lparr>sv_loop := l\<rparr>) = quiet s" "quiet (s\<lparr>clients := m\<rparr>) = quiet s" "quiet (s\<lparr>clientsToClose := cs\<rparr>) = quiet s"
  "quiet (close_fd fd s) = quiet s" "quiet (s\<lparr>sv_nowt := t\<rparr>) = quiet s" "quiet (s\<lparr>sn := n\<rparr>) = quiet s"
  "quiet (s\<lparr>statRejectedConn := rc\<rparr>) = quiet s" "quiet (s\<lparr>nextClientId := i\<rparr>) = quiet s"
  "quiet (addCronLoops s) = quiet s" "quiet (addToStatNetInputBytes k s) = quiet s" "quiet (deleteFromAsyncClose fd s) = quiet s"
  by (simp_all add: quiet_def close_fd_def addCronLoops_def addToStatNetInputBytes_def deleteFromAsyncClose_def)

lemma silent_fields [simp]:
  "silent (x\<lparr>fc_fd := a\<rparr>) = silent x" "silent (x\<lparr>fc_flags := b\<rparr>) = silent x"
  "silent (x\<lparr>lastInteractionTime := t\<rparr>) = silent x" "silent (x\<lparr>sendLen := n\<rparr>) = silent x"
  by (simp_all add: silent_def hasNoPending_def)

lemma quiet_pending: "quiet s \<Longrightarrow> quiet (deleteFromPending fd s)"
  by (simp add: quiet_def deleteFromPending_def)

lemma quiet_free_async: "quiet s \<Longrightarrow> quiet (freeClientAsync c s)"
  by (auto simp: freeClientAsync_def intro: quiet_upd)

lemma quiet_free_async_fd: "quiet s \<Longrightarrow> quiet (freeClientAsyncFd fd s)"
  by (auto simp: freeClientAsyncFd_def intro: quiet_free_async split: option.splits)

lemma quiet_free: "quiet s \<Longrightarrow> freeClient c s = Ret t \<Longrightarrow> quiet t"
  by (auto simp: freeClient_def unlinkClient_def unlink_map_def Let_def res_bind_eq_Ret
      intro!: quiet_pending quiet_upd split: if_splits)

lemma quiet_free_and_close: "quiet s \<Longrightarrow> free_and_close fd s = Ret t \<Longrightarrow> quiet t"
  by (auto simp: free_and_close_def res_bind_eq_Ret dest: quiet_free split: option.splits)

lemma quiet_async_loop: "quiet s \<Longrightarrow> async_free n i s = Ret t \<Longrightarrow> quiet t"
  using async_free_keeps [of quiet] quiet_free by blast

lemma quiet_async: "quiet s \<Longrightarrow> freeClientsInAsyncFreeList s = Ret t \<Longrightarrow> quiet t"
  by (auto simp: freeClientsInAsyncFreeList_def res_bind_eq_Ret dest: quiet_async_loop)

lemma quiet_send:
  assumes "quiet s" and "sendReplyToClient wr again fd s = Ret t"
  shows "quiet t"
proof -
  obtain c r where c: "writeToClient wr again True c s = Ret (t, r)"
    using assms(2) by (auto simp: sendReplyToClient_def res_bind_eq_Ret split: option.splits)
  then obtain x where x: "obj s c = Ret x" by (auto simp: writeToClient_def res_bind_eq_Ret)
  have np: "hasNoPending x" using quiet_obj [OF assms(1) x] by (simp add: silent_def)
  have u: "quiet ((upd_obj c (\<lambda>_. x) s)\<lparr>net_out := net_out s @ [(fc_fd x, [])]\<rparr>)"
    using quiet_upd [OF assms(1), of "\<lambda>_. x" c] quiet_obj [OF assms(1) x] by (auto simp: quiet_def upd_obj_def)
  show ?thesis
    using c u
    by (auto simp: writeToClient_def x send_pending_stop(1) [OF np] np Let_def res_bind_eq_Ret
        intro!: quiet_free_async_fd quiet_upd split: if_splits)
qed

lemma quiet_accept: "quiet s \<Longrightarrow> createClient fd s = Ret (t, c) \<Longrightarrow> quiet t"
  by (auto simp: createClient_def Let_def res_bind_eq_Ret quiet_def new_client_def silent_def hasNoPending_def
      split: if_splits)

lemma quiet_accept_loop: "quiet s \<Longrightarrow> accept_loop n fds s = Ret t \<Longrightarrow> quiet t"
  by (rule accept_loop_keeps [of quiet, OF quiet_accept]) simp_all

text \<open>Without input and arguments, processing the input of a client faults or does nothing.\<close>

lemma quiet_input:
  assumes "quiet s" and "processInputBuffer junk hash raw now c s = Ret t"
  shows "t = s"
proof -
  obtain x where x: "obj s c = Ret x"
    using assms(2) by (cases "obj s c") (simp_all add: processInputBuffer_def input_loop.simps)
  then have "input_loop junk c s = Ret (s, 1)"
    using quiet_obj [OF assms(1) x] by (subst input_loop.simps) (simp add: silent_def)
  then have d: "serverDealWithCommand hash raw now (fc_fd x) s = Ret t"
    using assms(2) x by (simp add: processInputBuffer_def)
  have "\<not> is_ret (dealWithCommand hash raw now d s)" for d
    using quiet_obj [OF assms(1)]
    by (auto simp: is_ret_iff dealWithCommand_def res_bind_eq_Ret argv0_def silent_def)
  then show ?thesis
    using d by (auto simp: serverDealWithCommand_def is_ret_iff split: option.splits)
qed

lemma quiet_read:
  assumes "quiet s" and "readQueryFromClient junk hash raw now rd fd s = Ret t"
  shows "quiet t"
proof (cases rd)
  case (ReadBytes bs)
  then obtain c where c: "getFlyClient fd s = Some c"
    using assms(2) by (auto simp: readQueryFromClient_def split: option.splits)
  define u where "u = addToStatNetInputBytes (length (c_str bs)) (upd_obj c (\<lambda>x. x\<lparr>lastInteractionTime := sv_nowt s\<rparr>) s)"
  have u: "quiet u" using quiet_upd [OF assms(1)] by (simp add: u_def)
  have "free_and_close fd u = Ret t \<or> processInputBuffer junk hash raw now c u = Ret t"
    using assms(2) ReadBytes c by (auto simp: readQueryFromClient_def Let_def u_def res_bind_eq_Ret split: if_splits)
  then show ?thesis using quiet_free_and_close [OF u] quiet_input [OF u] u by blast
qed (use assms quiet_free_and_close in \<open>auto simp: readQueryFromClient_def split: if_splits\<close>)

lemma quiet_handler: "quiet s \<Longrightarrow> client_handler w p fd s = Ret t \<Longrightarrow> quiet t"
  by (cases p) (auto simp: client_handler_def acceptTcpHandler_def dest: quiet_read quiet_send quiet_accept_loop)

lemma quiet_flush: "quiet s \<Longrightarrow> handleClientsWithPendingWrites wr s = Ret (t, n) \<Longrightarrow> t = s"
  by (simp add: handleClientsWithPendingWrites_def quiet_def)

lemma quiet_deliver: "quiet s \<Longrightarrow> deliver ms s = Ret t \<Longrightarrow> t = s"
proof (induction ms)
  case (Cons m ms)
  then have "publishMessage ch msg s = Ret (s, 0)" for ch msg
    by (simp add: quiet_def publish_no_subscriber)
  then show ?case using Cons by (cases m) simp
qed simp

lemma quiet_cron:
  assumes "quiet s" and "serverCron seconds now fork waits rand s = Ret (t, killed, ms)"
  shows "quiet t"
proof -
  obtain u where u: "freeClientsInAsyncFreeList (s\<lparr>sv_nowt := seconds\<rparr>) = Ret u"
    using assms(2) by (auto simp: serverCron_def res_bind_eq_Ret)
  have q: "quiet u" using quiet_async [OF _ u] assms(1) by simp
  obtain sn' k v where "deliver k (u\<lparr>sn := sn'\<rparr>) = Ret v" "t = addCronLoops v"
    using assms(2) u by (auto simp: serverCron_def res_bind_eq_Ret Let_def)
  moreover from this have "v = u\<lparr>sn := sn'\<rparr>" using quiet_deliver [of "u\<lparr>sn := sn'\<rparr>"] q by simp
  ultimately show ?thesis using q by simp
qed

section \<open>A round keeps what holds\<close>

definition prog_inv :: "(string \<Rightarrow> nat) \<Rightarrow> server \<Rightarrow> bool" where
  "prog_inv hash s \<longleftrightarrow> sv_inv hash s \<and> quiet s"

lemma prog_inv_timers: "prog_inv hash (s\<lparr>sv_loop := l\<lparr>timeEvents := es\<rparr>\<rparr>) = prog_inv hash (s\<lparr>sv_loop := l\<rparr>)"
  by (simp add: prog_inv_def sv_inv_def known_def el_inv_def masks_ok_def)

lemma prog_handler: "prog_inv (w_hash w) s \<Longrightarrow> client_handler w p fd s = Ret t \<Longrightarrow> prog_inv (w_hash w) t"
  using sv_handler [of w "{}" s p fd t] quiet_handler [of s w p fd t] by (simp add: prog_inv_def sv_kinv_def)

interpretation program_procs: file_procs "\<lambda>p. sv_loop (snd p) = fst p \<and> prog_inv (w_hash w) (snd p)" "run_client w" for w
proof
  fix l :: "client_proc event_loop" and s :: server assume "sv_loop (snd (l, s)) = fst (l, s) \<and> prog_inv (w_hash w) (snd (l, s))"
  then show "el_inv l" by (auto simp: prog_inv_def sv_inv_def)
next
  fix l l' and s s' :: server and e p fd m
  assume i: "sv_loop (snd (l, s)) = fst (l, s) \<and> prog_inv (w_hash w) (snd (l, s))"
    and r: "run_client w p fd (fe_privdata e) m (l, s) = Ret (l', s')"
  from i have "s\<lparr>sv_loop := l\<rparr> = s" by auto
  with r have "client_handler w p fd s = Ret s'" "l' = sv_loop s'" by (auto simp: run_client_def res_bind_eq_Ret)
  then show "sv_loop (snd (l', s')) = fst (l', s') \<and> prog_inv (w_hash w) (snd (l', s'))"
    using i prog_handler [of w s p fd s'] by (simp only: fst_conv snd_conv)
qed

lemma prog_timer: "prog_inv hash s \<Longrightarrow> run_timer r p i d s = Ret (t, ms) \<Longrightarrow> prog_inv hash t"
  using sv_cron_step [of hash "{}"] quiet_cron
  by (auto simp: prog_inv_def sv_kinv_def run_timer_def res_bind_eq_Ret split: if_splits)

lemma time_loop_keeps:
  assumes "\<And>p i d w w' r. I w \<Longrightarrow> run p i d w = Ret (w', r) \<Longrightarrow> I w'"
  shows "I w \<Longrightarrow> time_loop run nowt es w = Ret (es', w', n, b) \<Longrightarrow> I w'"
proof (induction es arbitrary: w es' n b)
  case (Cons e es)
  show ?case
  proof (cases "te_when e < nowt")
    case True
    then obtain w1 r where "run (timeProc e) (te_id e) (te_clientData e) w = Ret (w1, r)"
      "\<exists>es' n b. time_loop run nowt es w1 = Ret (es', w', n, b)"
      using Cons.prems(2) by (auto simp: res_bind_eq_Ret split: if_splits)
    then show ?thesis using Cons.IH assms [OF Cons.prems(1)] by blast
  next
    case False
    then show ?thesis using Cons.prems Cons.IH by (auto simp: res_bind_eq_Ret)
  qed
qed simp

lemma round_keeps:
  assumes "prog_inv (w_hash (rd_world r)) s" and "main_round r s = Ret t"
  shows "prog_inv (w_hash (rd_world r)) t"
proof -
  have "beforeSleep r s = Ret s \<or> (\<exists>e. beforeSleep r s = Fault e)"
    using assms(1) quiet_flush [of s "rd_writes r"]
    by (cases "handleClientsWithPendingWrites (rd_writes r) s") (auto simp: beforeSleep_def prog_inv_def)
  then obtain l u n where p: "processEvents (run_client (rd_world r)) (run_timer r) (rd_select r) (rd_clock r)
       (EVENT_ALL_EVENTS OR EVENT_CALL_AFTER_SLEEP) (sv_loop s, s) = Ret ((l, u), n)"
    "t = u\<lparr>sv_loop := (sv_loop u)\<lparr>timeEvents := timeEvents l\<rparr>\<rparr>"
    using assms(2) by (auto simp: main_round_def res_bind_eq_Ret)
  have flags: "has_flag (EVENT_ALL_EVENTS OR EVENT_CALL_AFTER_SLEEP) EVENT_FILE_EVENTS"
    "has_flag (EVENT_ALL_EVENTS OR EVENT_CALL_AFTER_SLEEP) EVENT_TIME_EVENTS"
    by (simp_all add: EVENT_ALL_EVENTS_def EVENT_CALL_AFTER_SLEEP_def EVENT_FILE_EVENTS_def EVENT_TIME_EVENTS_def has_flag_def)
  obtain l1 u1 k where f: "processTimeEvents (run_timer r) (rd_clock r) (l1, u1) = Ret ((l, u), k)"
    "(l1, u1) = (sv_loop s, s) \<or> (\<exists>fs. process_fired (run_client (rd_world r)) fs (sv_loop s, s) = Ret (l1, u1))"
    using p(1) flags by (auto simp: processEvents_def res_bind_eq_Ret split: if_splits)
  have "prog_inv (w_hash (rd_world r)) u1"
    using f(2)
  proof
    assume "\<exists>fs. process_fired (run_client (rd_world r)) fs (sv_loop s, s) = Ret (l1, u1)"
    then obtain fs where "process_fired (run_client (rd_world r)) fs (sv_loop s, s) = Ret (l1, u1)" by blast
    from program_procs.fired_inv [OF _ this] show ?thesis using assms(1) by simp
  qed (use assms(1) in simp)
  moreover obtain es es' n b where "time_loop (run_timer r) (rd_clock r) es u1 = Ret (es', u, n, b)"
    using f(1) by (auto simp: processTimeEvents_def Let_def res_bind_eq_Ret)
  moreover have "prog_inv (w_hash (rd_world r)) w \<Longrightarrow> run_timer r p i d w = Ret (w', ms) \<Longrightarrow>
      prog_inv (w_hash (rd_world r)) w'" for p i d w w' ms
    by (rule prog_timer)
  ultimately have "prog_inv (w_hash (rd_world r)) u"
    using time_loop_keeps [of "prog_inv (w_hash (rd_world r))" "run_timer r"] by blast
  then show ?thesis using p(2) prog_inv_timers [where s = u and l = "sv_loop u"] by simp
qed

lemma main_loop_keeps:
  "prog_inv hash s \<Longrightarrow> \<forall>r \<in> set rs. w_hash (rd_world r) = hash \<Longrightarrow> main_loop rs s = Ret t \<Longrightarrow> prog_inv hash t"
proof (induction rs arbitrary: s)
  case (Cons r rs)
  show ?case
  proof (cases "stopFlag (sv_loop s)")
    case False
    then obtain u where u: "main_round r s = Ret u" "main_loop rs u = Ret t"
      using Cons.prems(3) by (auto simp: res_bind_eq_Ret)
    have "prog_inv hash u" using round_keeps [OF _ u(1)] Cons.prems(1,2) by simp
    then show ?thesis using Cons.IH [OF _ _ u(2)] Cons.prems(2) by simp
  qed (use Cons.prems in simp)
qed simp

lemma boot_prog_inv:
  assumes "fst (boot K env inp st) = Ret p" and "\<forall>i. fe_mask (be_raw env i) = ES_NONE"
  shows "prog_inv (be_hash env) (ps_server p)"
proof -
  obtain i l where "ps_server p = new_server env i l" using boot_parts [OF assms(1)] by (metis process.select_convs(6))
  then have "quiet (ps_server p)" by (simp add: quiet_def new_server_def)
  then show ?thesis using boot_effect [OF assms] by (simp add: prog_inv_def)
qed

lemma program_quiet:
  assumes "run_program K env inp st rs = Ret t" and "\<forall>i. fe_mask (be_raw env i) = ES_NONE"
    and "\<forall>r \<in> set rs. w_hash (rd_world r) = be_hash env"
  shows "prog_inv (be_hash env) t"
proof -
  obtain p where p: "fst (boot K env inp st) = Ret p"
    "main_loop rs ((ps_server p)\<lparr>sv_loop := (sv_loop (ps_server p))\<lparr>stopFlag := False\<rparr>\<rparr>) = Ret t"
    using assms(1) by (auto simp: run_program_def Let_def res_bind_eq_Ret)
  have "prog_inv (be_hash env) ((ps_server p)\<lparr>sv_loop := (sv_loop (ps_server p))\<lparr>stopFlag := False\<rparr>\<rparr>)"
    using boot_prog_inv [OF p(1) assms(2)] by (simp add: prog_inv_def sv_inv_def known_def el_inv_def masks_ok_def)
  then show ?thesis using main_loop_keeps assms(3) p(2) by blast
qed

section \<open>A concrete run\<close>

lemma single_element: "set xs = {a} \<Longrightarrow> distinct xs \<Longrightarrow> xs = [a]"
  by (cases xs; cases "tl xs") auto

lemma poll_single:
  assumes "el_inv l" and "fd \<in> rfds l" and "0 \<le> fd" and "fd < setSize l"
  shows "poll (1, {fd}, {}) l = Ret [(fd, ES_READABLE)]"
proof -
  obtain fs where fs: "poll (1, {fd}, {}) l = Ret fs" "sorted_wrt (<) (map fst fs)"
    "\<forall>i m. (i, m) \<in> set fs \<longleftrightarrow> 0 \<le> i \<and> i < setSize l \<and> (i \<in> {fd} \<or> i \<in> {}) \<and>
       m = ((if i \<in> {fd} then ES_READABLE else ES_NONE) OR (if i \<in> {} then ES_WRITABLE else ES_NONE))"
    using poll_ok [OF assms(1), of 1 "{fd}" "{}"] assms(2) by auto
  have "set fs = {(fd, ES_READABLE)}"
    using fs(3) assms(3,4) by (auto simp: ES_READABLE_def ES_NONE_def split: if_splits)
  moreover from fs(2) have "distinct fs"
    by (auto simp: strict_sorted_iff distinct_map)
  ultimately have "fs = [(fd, ES_READABLE)]" by (rule single_element)
  then show ?thesis using fs(1) by simp
qed

text \<open>One connection on descriptor 6 arrives at the listening socket 5.\<close>

definition accept_round :: round where
  "accept_round =
     \<lparr>rd_select = (1, {5}, {}), rd_clock = 0,
      rd_world = \<lparr>w_junk = 0, w_hash = (\<lambda>_. 0), w_raw = sample_master, w_now = 0, w_read = (\<lambda>_. ReadBytes ''ping''),
        w_accept = (\<lambda>_. [6]), w_write = (\<lambda>_ _ bs. int (length bs)), w_again = (\<lambda>_. False)\<rparr>,
      rd_writes = (\<lambda>c. (\<lambda>k bs. int (length bs), False)), rd_seconds = 0, rd_now = 0, rd_fork = (\<lambda>k. 1), rd_waits = [],
      rd_rand = 0\<rparr>"

lemma accept_one:
  assumes "createClient fd s = Ret (t, Some c)" and "fd \<noteq> -1"
  shows "acceptTcpHandler [fd] s = Ret t"
proof -
  have "accept_loop n [] t = Ret t" for n by (cases n) simp_all
  then have "accept_loop (Suc n) [fd] s = Ret t" for n using assms by simp
  from this [of 999] show ?thesis by (simp add: acceptTcpHandler_def MAX_ACCEPTS_PER_CALL_def)
qed

lemma nothing_due: "\<forall>e \<in> set es. nowt \<le> te_when e \<Longrightarrow> time_loop run nowt es w = Ret (es, w, 0, False)"
  by (induction es) auto

lemma sample_run:
  "\<exists>t x. run_program (plain_os ipv4_kernel) sample_env (Some (file_of [Port 26379])) new_net [accept_round] = Ret t \<and>
     getFlyClient 6 t = Some 0 \<and> obj t 0 = Ret x \<and> fc_fd x = 6"
proof -
  obtain p where p: "fst (boot (plain_os ipv4_kernel) sample_env (Some (file_of [Port 26379])) new_net) = Ret p" "ps_ipfd p = [5]"
    using sample_boot by blast
  define s where "s = (ps_server p)\<lparr>sv_loop := (sv_loop (ps_server p))\<lparr>stopFlag := False\<rparr>\<rparr>"
  have m: "\<forall>i. fe_mask (be_raw sample_env i) = ES_NONE" by simp
  have li: "listens [5] (createTimeEvent 1 ServerCron None None
      (new_loop (be_raw sample_env) (be_msnow sample_env) (maxClients (ps_server p) + 128))) (sv_loop (ps_server p))"
    using boot_effect [OF p(1) m] p(2) by simp
  have pi: "prog_inv (\<lambda>_. 0) (ps_server p)" using boot_prog_inv [OF p(1) m] by simp
  then have inv: "sv_inv (\<lambda>_. 0) s" and q: "quiet s"
    by (auto simp: s_def prog_inv_def sv_inv_def known_def el_inv_def masks_ok_def)
  obtain i l where sv: "ps_server p = new_server sample_env i l" "si_maxClients i = 992"
    by (rule boot_parts [OF p(1)]) simp
  have max: "maxClients s = 992" "objs s = []" "clients s = []" by (simp_all add: s_def sv new_server_def)
  have l: "5 \<in> rfds (sv_loop s)" "setSize (sv_loop s) = 1120" "rfileProc (fileEvents (sv_loop s) ! 5) = Some AcceptTcp"
    "map te_when (timeEvents (sv_loop s)) = [1]" "lastTime (sv_loop s) = lastTime (sv_loop s)"
    using li max by (simp_all add: listens_def s_def createTimeEvent_def new_loop_def)
  have fe: "fe_fd (fileEvents (sv_loop s) ! 5) = 5" "event_at 5 (sv_loop s) = Ret (fileEvents (sv_loop s) ! 5)"
    using inv l(2) event_at_ok [of "sv_loop s" 5] by (auto simp: sv_inv_def el_inv_def masks_ok_def Let_def)
  define x where "x = (new_client 6 (sv_nowt s))\<lparr>fc_id := nextClientId s\<rparr>"
  obtain u where u: "createClient 6 s = Ret (u, Some 0)" "objs u = [x]" "clients u = [(6, 0)]"
    "timeEvents (sv_loop u) = timeEvents (sv_loop s)" "lastTime (sv_loop u) = lastTime (sv_loop s)"
    using create_effect [OF inv, of 6] l(2) max by (simp add: FD_SETSIZE_def Let_def x_def)
  let ?w = "rd_world accept_round"
  have "run_client ?w AcceptTcp 5 d ES_READABLE (sv_loop s, s) = Ret (sv_loop u, u)" for d
    using accept_one [OF u(1)] by (simp add: run_client_def client_handler_def accept_round_def)
  then have "fe_process (run_client ?w) 5 ES_READABLE (sv_loop s, s) = Ret (sv_loop u, u)"
    by (simp add: fe_process_def fe l(3) call_proc_def)
  then have f: "process_fired (run_client ?w) [(5, ES_READABLE)] (sv_loop s, s) = Ret (sv_loop u, u)" by simp
  have el: "el_inv (sv_loop s)" using inv by (simp add: sv_inv_def)
  have po: "poll (1, {5}, {}) (sv_loop s) = Ret [(5, ES_READABLE)]"
    using poll_single [OF el l(1)] l(2) by simp
  define es where "es = (if 0 < lastTime (sv_loop u) then map (\<lambda>e. e\<lparr>te_when := 0\<rparr>) (timeEvents (sv_loop u))
      else timeEvents (sv_loop u))"
  have "\<forall>e \<in> set es. 0 \<le> te_when e" using l(4) u(4) by (auto simp: es_def map_eq_Cons_conv)
  from nothing_due [OF this, of "run_timer accept_round" u]
  have ti: "processTimeEvents (run_timer accept_round) 0 (sv_loop u, u) = Ret (((sv_loop u)\<lparr>timeEvents := es\<rparr>, u), 0)"
    by (simp add: processTimeEvents_def es_def Let_def)
  define l' where "l' = (sv_loop u)\<lparr>timeEvents := es\<rparr>"
  have "processEvents (run_client ?w) (run_timer accept_round) (1, {5}, {}) 0 (EVENT_ALL_EVENTS OR EVENT_CALL_AFTER_SLEEP)
      (sv_loop s, s) = Ret ((l', u), 1)"
    using f po ti [folded l'_def] by (simp add: processEvents_def EVENT_ALL_EVENTS_def EVENT_CALL_AFTER_SLEEP_def EVENT_FILE_EVENTS_def
        EVENT_TIME_EVENTS_def EVENT_DONT_WAIT_def has_flag_def)
  moreover have "rd_select accept_round = (1, {5}, {})" "rd_clock accept_round = 0" by (simp_all add: accept_round_def)
  moreover have "beforeSleep accept_round s = Ret s"
    using q by (simp add: beforeSleep_def handleClientsWithPendingWrites_def quiet_def)
  ultimately have "main_round accept_round s = Ret (u\<lparr>sv_loop := (sv_loop u)\<lparr>timeEvents := timeEvents l'\<rparr>\<rparr>)"
    by (simp add: main_round_def)
  then have "run_program (plain_os ipv4_kernel) sample_env (Some (file_of [Port 26379])) new_net [accept_round] =
      Ret (u\<lparr>sv_loop := (sv_loop u)\<lparr>timeEvents := timeEvents l'\<rparr>\<rparr>)"
    using p(1) by (simp add: run_program_def Let_def s_def [symmetric])
  moreover have "fc_fd x = 6" by (simp add: x_def new_client_def)
  ultimately show ?thesis using u(2,3) by (auto simp: getFlyClient_def obj_def)
qed

section \<open>Properties\<close>

text \<open>
  C3 The running program never answers: from any start on any configuration and any network, after any rounds of the loop
  that return, whatever the clients send and however the kernel serves it, the server is well-formed and no
  byte has been written to any descriptor.
\<close>

theorem program_never_answers:
  assumes "run_program K env inp st rs = Ret t" and "\<forall>i. fe_mask (be_raw env i) = ES_NONE"
    and "\<forall>r \<in> set rs. w_hash (rd_world r) = be_hash env"
  shows "sv_inv (be_hash env) t \<and> (\<forall>(fd, bs) \<in> set (net_out t). bs = [])"
  using program_quiet [OF assms] by (simp add: prog_inv_def quiet_def)

theorem program_never_answers_witness:
  "\<exists>t. run_program (plain_os ipv4_kernel) sample_env (Some (file_of [Port 26379])) new_net [accept_round] = Ret t \<and>
     sv_inv (\<lambda>_. 0) t \<and> (\<forall>(fd, bs) \<in> set (net_out t). bs = [])"
proof -
  obtain t where t: "run_program (plain_os ipv4_kernel) sample_env (Some (file_of [Port 26379])) new_net [accept_round] = Ret t"
    using sample_run by blast
  have "\<forall>r \<in> set [accept_round]. w_hash (rd_world r) = be_hash sample_env" by (simp add: accept_round_def)
  then show ?thesis using program_never_answers [OF t] t by simp
qed

text \<open>
  C37 The first bytes a client sends end the program: in any state the running program reaches, reading a short message
  from a connected client faults, since what is read is never added to the query buffer, the parser finds nothing, and the
  command is dispatched on an argument array that does not exist.
\<close>

theorem any_input_faults:
  assumes "run_program K env inp st rs = Ret t" and "\<forall>i. fe_mask (be_raw env i) = ES_NONE"
    and "\<forall>r \<in> set rs. w_hash (rd_world r) = be_hash env"
    and "getFlyClient fd t = Some c" and "obj t c = Ret x" and "fc_fd x = fd"
    and "w_read w fd = ReadBytes bs" and "length bs < PROTO_IOBUF_LEN"
  shows "client_handler w ReadQuery fd t = Fault NullDeref"
proof -
  have "quiet t" using program_quiet [OF assms(1-3)] by (simp add: prog_inv_def)
  then have "silent x" using quiet_obj assms(5) by blast
  then have "queryBuf x = []" "argvCap x = None" by (simp_all add: silent_def)
  from read_empty [OF assms(4,5) this assms(6,8)] show ?thesis by (simp add: client_handler_def assms(7))
qed

theorem any_input_faults_witness:
  "\<exists>t. run_program (plain_os ipv4_kernel) sample_env (Some (file_of [Port 26379])) new_net [accept_round] = Ret t \<and>
     client_handler (rd_world accept_round) ReadQuery 6 t = Fault NullDeref"
proof -
  obtain t x where t: "run_program (plain_os ipv4_kernel) sample_env (Some (file_of [Port 26379])) new_net [accept_round] = Ret t"
    "getFlyClient 6 t = Some 0" "obj t 0 = Ret x" "fc_fd x = 6"
    using sample_run by blast
  have h: "\<forall>r \<in> set [accept_round]. w_hash (rd_world r) = be_hash sample_env" by (simp add: accept_round_def)
  have r: "w_read (rd_world accept_round) 6 = ReadBytes ''ping''" "length ''ping'' < PROTO_IOBUF_LEN"
    by (simp_all add: accept_round_def PROTO_IOBUF_LEN_def)
  have m: "\<forall>i. fe_mask (be_raw sample_env i) = ES_NONE" by simp
  show ?thesis using any_input_faults [OF t(1) m h t(2-4) r] t(1) by blast
qed

end
