(* ===== verification/DictRun.thy ===== *)
theory DictRun imports DictResize begin

text \<open>
  Sequences of dictionary operations (src/src/datastructure/dict/Dict.cpp) against the map they compute.
  A step that has an entry to move ends in a fault, so a dictionary runs in one of two ways: with
  rehashing switched off, at any size and also in the middle of a rehash that will not go on; or at its
  initial size, where no operation starts a rehash as long as there are at most 20 entries. The exact
  condition under which an operation faults is \<open>migrates\<close>.
\<close>

section \<open>Operations and their answers\<close>

datatype ('k, 'v) dict_op =
  Add 'k 'v | Fetch 'k | Delete 'k | Replace 'k 'v | Expand nat | CanRehash bool

text \<open>The status of \<open>expand\<close> depends on the tables and is not part of the answer.\<close>

fun run_op :: "bool \<Rightarrow> ('k \<Rightarrow> nat) \<Rightarrow> ('k, 'v) dict_op \<Rightarrow> ('k, 'v) dict \<Rightarrow> (('k, 'v) dict \<times> int \<times> 'v option) res" where
  "run_op cr hash (Add k v) d = res_bind (addEntry cr hash d k v) (\<lambda>(d, r). Ret (d, r, None))"
| "run_op cr hash (Fetch k) d = fetchValue hash d k"
| "run_op cr hash (Delete k) d = res_bind (deleteEntry cr hash d k) (\<lambda>(d, r). Ret (d, r, None))"
| "run_op cr hash (Replace k v) d = res_bind (replace cr hash d k v) (\<lambda>(d, r). Ret (d, r, None))"
| "run_op cr hash (Expand n) d = res_bind (expand hash d n) (\<lambda>(d, r). Ret (d, 0, None))"
| "run_op cr hash (CanRehash b) d = Ret (fst (setCanRehash d b), 0, None)"

fun run_ops ::
  "bool \<Rightarrow> ('k \<Rightarrow> nat) \<Rightarrow> ('k, 'v) dict_op list \<Rightarrow> ('k, 'v) dict \<Rightarrow> (('k, 'v) dict \<times> (int \<times> 'v option) list) res" where
  "run_ops cr hash [] d = Ret (d, [])"
| "run_ops cr hash (p # ps) d =
     res_bind (run_op cr hash p d) (\<lambda>(d, a).
     res_bind (run_ops cr hash ps d) (\<lambda>(d, as). Ret (d, a # as)))"

section \<open>The same on a map\<close>

fun map_op :: "('k, 'v) dict_op \<Rightarrow> ('k \<rightharpoonup> 'v) \<Rightarrow> ('k \<rightharpoonup> 'v) \<times> int \<times> 'v option" where
  "map_op (Add k v) m = (if m k = None then (m(k \<mapsto> v), 1, None) else (m, -1, None))"
| "map_op (Fetch k) m = (m, if m k = None then -1 else 1, m k)"
| "map_op (Delete k) m = (m(k := None), if m k = None then -1 else 1, None)"
| "map_op (Replace k v) m = (m(k \<mapsto> v), 1, None)"
| "map_op (Expand n) m = (m, 0, None)"
| "map_op (CanRehash b) m = (m, 0, None)"

fun map_ops :: "('k, 'v) dict_op list \<Rightarrow> ('k \<rightharpoonup> 'v) \<Rightarrow> ('k \<rightharpoonup> 'v) \<times> (int \<times> 'v option) list" where
  "map_ops [] m = (m, [])"
| "map_ops (p # ps) m = (let (m, a) = map_op p m; (m, as) = map_ops ps m in (m, a # as))"

text \<open>
  What a dictionary may be asked. In the middle of a rehash a key of the old table can be added a
  second time (\<open>addEntry_duplicate\<close>), so there additions name absent keys; growing stays within the
  sizes \<open>nextPower\<close> can reach (\<open>nextPower_least\<close>). At the initial size keys may be added again and
  replaced, and what counts is that there is room.
\<close>

fun admissible :: "('k, 'v) dict_op \<Rightarrow> ('k \<rightharpoonup> 'v) \<Rightarrow> bool" where
  "admissible (Add k v) m = (m k = None \<and> card (dom m) < 2 ^ 31 - 1)"
| "admissible (Replace k v) m = False"
| "admissible (Expand n) m = (n \<le> 20 * 2 ^ 26)"
| "admissible _ m = True"

fun small_op :: "('k, 'v) dict_op \<Rightarrow> ('k \<rightharpoonup> 'v) \<Rightarrow> bool" where
  "small_op (Add k v) m = (m k \<noteq> None \<or> card (dom m) < 20)"
| "small_op (Replace k v) m = (m k \<noteq> None \<or> card (dom m) < 20)"
| "small_op (Expand n) m = (n \<le> 20)"
| "small_op _ m = True"

fun all_along :: "(('k, 'v) dict_op \<Rightarrow> ('k \<rightharpoonup> 'v) \<Rightarrow> bool) \<Rightarrow> ('k, 'v) dict_op list \<Rightarrow> ('k \<rightharpoonup> 'v) \<Rightarrow> bool" where
  "all_along may [] m = True"
| "all_along may (p # ps) m = (may p m \<and> all_along may ps (fst (map_op p m)))"

section \<open>One operation\<close>

lemma setCanRehash_ok:
  "dict_inv hash (fst (setCanRehash d b)) = dict_inv hash d" "dict_abs (fst (setCanRehash d b)) = dict_abs d"
  "dict_count (fst (setCanRehash d b)) = dict_count d" "canRehash (fst (setCanRehash d b)) = b"
  "dict_ok hash (fst (setCanRehash d b)) = dict_ok hash d"
  by (cases "ht1 d"; simp add: setCanRehash_def dict_ok_def dict_inv_def dict_abs_def dict_count_def)+

lemma ht_used_card:
  assumes "ht_inv hash t" shows "ht_used t = card (dom (ht_abs t))"
proof -
  have "card (set (map fst (concat (ht_table t)))) = length (map fst (concat (ht_table t)))"
    by (rule distinct_card) (use assms in \<open>simp only: ht_inv_def\<close>)
  moreover have "dom (ht_abs t) = set (map fst (concat (ht_table t)))"
    unfolding ht_abs_def by (simp only: dom_map_of_conv_image_fst set_map)
  ultimately show ?thesis using assms by (simp only: ht_inv_def length_map)
qed

lemma ht_dom_finite: "finite (dom (ht_abs t))"
  by (simp add: ht_abs_def finite_dom_map_of)

lemma dict_count_card: "dict_inv hash d \<Longrightarrow> dict_count d = card (dom (dict_abs d))"
  by (auto simp: dict_inv_def dict_count_def dict_abs_def rehash_pair_def ht_used_card ht_dom_finite
      card_Un_disjoint split: option.split)

fun migrates :: "bool \<Rightarrow> ('k \<Rightarrow> nat) \<Rightarrow> ('k, 'v) dict_op \<Rightarrow> ('k, 'v) dict \<Rightarrow> bool" where
  "migrates cr hash (Add k v) d = add_migrates cr d"
| "migrates cr hash (Fetch k) d = stuck d"
| "migrates cr hash (Delete k) d = delete_migrates cr hash d k"
| "migrates cr hash (Replace k v) d = add_migrates cr d"
| "migrates cr hash (Expand n) d = expand_migrates d n"
| "migrates cr hash (CanRehash b) d = False"

lemma run_op_outcome:
  assumes "dict_inv hash d" and "admissible p (dict_abs d)"
  shows "if migrates cr hash p d then run_op cr hash p d = Fault UseAfterFree
    else \<exists>d'. run_op cr hash p d = Ret (d', snd (map_op p (dict_abs d))) \<and> dict_inv hash d' \<and>
      dict_abs d' = fst (map_op p (dict_abs d)) \<and> ((\<forall>b. p \<noteq> CanRehash b) \<longrightarrow> canRehash d' = canRehash d)"
proof (cases p)
  case (Add k v)
  then show ?thesis
    using addEntry_outcome [OF assms(1), of k cr v] assms(2) dict_count_card [OF assms(1)] by auto
next
  case (Fetch k)
  then show ?thesis
    using fetchValue_outcome [OF assms(1), of k] promote_ok [OF assms(1)] by (auto split: option.splits)
next
  case (Delete k)
  then show ?thesis using deleteEntry_outcome [OF assms(1), of cr k] by auto
next
  case (Replace k v)
  then show ?thesis using assms(2) by simp
next
  case (Expand n)
  then show ?thesis using expand_outcome [OF assms(1), of n] assms(2) by auto
next
  case (CanRehash b)
  then show ?thesis using assms(1) by (auto simp: setCanRehash_ok)
qed

lemma frozen_migrates: "\<not> canRehash d \<Longrightarrow> \<not> migrates cr hash p d"
  by (cases p) (simp_all add: add_migrates_def delete_migrates_def expand_migrates_def stuck_def)

lemma run_op_small:
  assumes ok: "dict_ok hash d" and small: "small_op p (dict_abs d)"
  shows "\<exists>d'. run_op cr hash p d = Ret (d', snd (map_op p (dict_abs d))) \<and> dict_ok hash d' \<and>
    dict_abs d' = fst (map_op p (dict_abs d))"
proof (cases p)
  have c: "dict_count d = card (dom (dict_abs d))" by (rule dict_count_card [OF dict_okD(1) [OF ok]])
  note sz = HASH_TABLE_INITIAL_SIZE_def
  {
    case (Add k v)
    then show ?thesis
      using addEntry_ok [OF ok, of k cr v] addEntry_present [OF dict_okD(1) [OF ok] dict_okD(2) [OF ok], of k cr v] small ok
      by (cases "dict_abs d k") (auto simp: c sz)
  next
    case (Fetch k)
    then show ?thesis using fetchValue_ok [OF ok, of k] ok by (auto split: option.splits)
  next
    case (Delete k)
    then show ?thesis using deleteEntry_ok [OF ok, of cr k] by auto
  next
    case (Replace k v)
    then show ?thesis using replace_ok [OF ok, of k cr v] small by (auto simp: c sz)
  next
    case (Expand n)
    then show ?thesis using expand_refused [OF ok, of n] small ok by (simp add: sz)
  next
    case (CanRehash b)
    then show ?thesis using ok by (simp add: setCanRehash_ok)
  }
qed

section \<open>Filling a dictionary\<close>

lemma addEntry_full:
  assumes ok: "dict_ok hash d" and c: "canRehash d" and new: "dict_abs d k = None" and full: "dict_count d = 20"
  shows "addEntry True hash d k v = Fault UseAfterFree"
proof -
  have "add_migrates True d"
    using dict_okD [OF ok] c full
    by (simp add: add_migrates_def dict_ok_step [OF ok] needExpand_def dict_count_def HASH_TABLE_INITIAL_SIZE_def)
  then show ?thesis using addEntry_outcome [OF dict_okD(1) [OF ok] new, of True v] full by simp
qed

lemma addEntry_keeps_canRehash:
  assumes "dict_ok hash d" and "dict_abs d k = None" and "dict_count d < 20" and "addEntry cr hash d k v = Ret (d', r)"
  shows "canRehash d' = canRehash d"
  using addEntry_outcome [OF dict_okD(1) [OF assms(1)] assms(2), of cr v] assms(3,4) by (auto split: if_splits)

lemma fill_outcome:
  assumes "dict_ok hash d" and "canRehash d" and "distinct (map fst kvs)" and "\<forall>k \<in> fst ` set kvs. dict_abs d k = None"
    and "dict_count d \<le> 20"
  shows "if dict_count d + length kvs \<le> 20
    then \<exists>d'. run_ops True hash (map (\<lambda>(k, v). Add k v) kvs) d = Ret (d', replicate (length kvs) (1, None)) \<and>
      dict_ok hash d' \<and> dict_abs d' = dict_abs d ++ map_of kvs
    else run_ops True hash (map (\<lambda>(k, v). Add k v) kvs) d = Fault UseAfterFree"
  using assms
proof (induction kvs arbitrary: d)
  case Nil
  then show ?case by auto
next
  case (Cons kv kvs)
  obtain k v where kv: "kv = (k, v)" by force
  have new: "dict_abs d k = None" using Cons.prems(4) kv by simp
  show ?case
  proof (cases "dict_count d = 20")
    case True
    then show ?thesis using addEntry_full [OF Cons.prems(1,2) new True, of v] by (simp add: kv)
  next
    case False
    then have lt: "dict_count d < 20" using Cons.prems(5) by simp
    then obtain d1 where d1: "addEntry True hash d k v = Ret (d1, 1)" "dict_ok hash d1"
      "dict_abs d1 = (dict_abs d)(k \<mapsto> v)" "dict_count d1 = Suc (dict_count d)"
      using addEntry_ok [OF Cons.prems(1) new, of True v] by (auto simp: HASH_TABLE_INITIAL_SIZE_def)
    have c1: "canRehash d1" using addEntry_keeps_canRehash [OF Cons.prems(1) new lt d1(1)] Cons.prems(2) by simp
    have fresh: "\<forall>k' \<in> fst ` set kvs. dict_abs d1 k' = None" using Cons.prems(3,4) d1(3) kv by auto
    have "k \<notin> dom (map_of kvs)" using Cons.prems(3) kv by (simp add: dom_map_of_conv_image_fst)
    then have m: "dict_abs d1 ++ map_of kvs = dict_abs d ++ map_of (kv # kvs)"
      by (simp only: d1(3) kv map_add_upd_left not_False_eq_True map_of.simps map_add_upd fst_conv snd_conv)
    have "run_ops True hash (map (\<lambda>(k, v). Add k v) (kv # kvs)) d =
      res_bind (run_ops True hash (map (\<lambda>(k, v). Add k v) kvs) d1) (\<lambda>(d, as). Ret (d, (1, None) # as))"
      by (simp add: kv d1(1))
    moreover have "dict_count d + length (kv # kvs) = dict_count d1 + length kvs" by (simp add: d1(4))
    ultimately show ?thesis
      using Cons.IH [OF d1(2) c1 _ fresh] Cons.prems(3) d1(4) lt
      unfolding m [symmetric] by (simp only: split: if_splits) auto
  qed
qed

section \<open>Properties\<close>

text \<open>
  C6 A dictionary never leaves its type where it does not have to move entries. Two kinds of
  dictionaries: rehashing is switched off and no operation switches it on, at any size and also in the
  middle of a rehash, with additions of absent keys and no replacements; or one table of the initial size,
  which holds up to 20 entries, with additions and replacements of any key and expansions that are refused
  since they do not exceed that size. From either, every sequence of additions,
  lookups, deletions, replacements and expansions returns without a fault, answers every operation as the
  map it stands for would, and ends in a well-formed dictionary that stands for the resulting map.
\<close>

theorem dict_runs_as_map:
  assumes "(dict_inv hash d \<and> \<not> canRehash d \<and> CanRehash True \<notin> set ps \<and> all_along admissible ps (dict_abs d)) \<or>
    (dict_ok hash d \<and> all_along small_op ps (dict_abs d))"
  shows "\<exists>d'. run_ops cr hash ps d = Ret (d', snd (map_ops ps (dict_abs d))) \<and> dict_inv hash d' \<and>
    dict_abs d' = fst (map_ops ps (dict_abs d))"
  using assms
proof (induction ps arbitrary: d)
  case Nil
  then show ?case by (auto simp: dict_ok_def)
next
  case (Cons p ps)
  have "\<exists>d1. run_op cr hash p d = Ret (d1, snd (map_op p (dict_abs d))) \<and>
    dict_abs d1 = fst (map_op p (dict_abs d)) \<and>
    ((dict_inv hash d1 \<and> \<not> canRehash d1 \<and> CanRehash True \<notin> set ps \<and> all_along admissible ps (dict_abs d1)) \<or>
     (dict_ok hash d1 \<and> all_along small_op ps (dict_abs d1)))"
    using Cons.prems
  proof
    assume f: "dict_inv hash d \<and> \<not> canRehash d \<and> CanRehash True \<notin> set (p # ps) \<and>
      all_along admissible (p # ps) (dict_abs d)"
    then obtain d1 where d1: "run_op cr hash p d = Ret (d1, snd (map_op p (dict_abs d)))" "dict_inv hash d1"
      "dict_abs d1 = fst (map_op p (dict_abs d))" "(\<forall>b. p \<noteq> CanRehash b) \<longrightarrow> canRehash d1 = canRehash d"
      using run_op_outcome [of hash d p cr] frozen_migrates [of d cr hash p] by auto
    have "\<not> canRehash d1"
      using f d1(1,4) by (cases p) (auto simp: setCanRehash_def Let_def)
    with d1 f show ?thesis by auto
  next
    assume f: "dict_ok hash d \<and> all_along small_op (p # ps) (dict_abs d)"
    with run_op_small [of hash d p cr] show ?thesis by auto
  qed
  then obtain d1 where d1: "run_op cr hash p d = Ret (d1, snd (map_op p (dict_abs d)))"
    "dict_abs d1 = fst (map_op p (dict_abs d))"
    "((dict_inv hash d1 \<and> \<not> canRehash d1 \<and> CanRehash True \<notin> set ps \<and> all_along admissible ps (dict_abs d1)) \<or>
     (dict_ok hash d1 \<and> all_along small_op ps (dict_abs d1)))"
    by blast
  from Cons.IH [OF d1(3)] d1(1,2) show ?case by (auto simp: Let_def split: prod.splits)
qed

theorem dict_runs_as_map_witness:
  "(\<exists>d'. run_ops True (\<lambda>k. k) [Fetch 3, Add 4 9, Delete 3, CanRehash False, Fetch 4, Expand 100, Fetch 3] sample_rehash =
       Ret (d', [(1, Some 7), (1, None), (1, None), (0, None), (1, Some 9), (0, None), (-1, None)]) \<and>
     dict_inv (\<lambda>k. k) d' \<and> dict_abs d' = [4 \<mapsto> 9]) \<and>
   (\<exists>d'. run_ops True (\<lambda>k. k) [Add 4 9, Add 4 5, Replace 4 6, Fetch 4] (new_dict :: (nat, nat) dict) =
       Ret (d', [(1, None), (-1, None), (1, None), (1, Some 6)]) \<and>
     dict_inv (\<lambda>k. k) d' \<and> dict_abs d' = [4 \<mapsto> 6])"
proof
  show "\<exists>d'. run_ops True (\<lambda>k. k) [Fetch 3, Add 4 9, Delete 3, CanRehash False, Fetch 4, Expand 100, Fetch 3] sample_rehash =
       Ret (d', [(1, Some 7), (1, None), (1, None), (0, None), (1, Some 9), (0, None), (-1, None)]) \<and>
     dict_inv (\<lambda>k. k) d' \<and> dict_abs d' = [4 \<mapsto> 9]"
    using dict_runs_as_map [of "\<lambda>k. k" sample_rehash
        "[Fetch 3, Add 4 9, Delete 3, CanRehash False, Fetch 4, Expand 100, Fetch 3]" True] sample_rehash_inv
    by (simp add: Let_def)
  show "\<exists>d'. run_ops True (\<lambda>k. k) [Add 4 9, Add 4 5, Replace 4 6, Fetch 4] (new_dict :: (nat, nat) dict) =
       Ret (d', [(1, None), (-1, None), (1, None), (1, Some 6)]) \<and>
     dict_inv (\<lambda>k. k) d' \<and> dict_abs d' = [4 \<mapsto> 6]"
    using dict_runs_as_map [of "\<lambda>k. k" "new_dict :: (nat, nat) dict"
        "[Add 4 9, Add 4 5, Replace 4 6, Fetch 4]" True] new_dict_ok [of "\<lambda>k::nat. k"]
    by (simp add: Let_def new_dict_abs)
qed

text \<open>
  C7 The outcome of an addition of an absent key, a lookup, a deletion, an expansion (to at most 20 * 2 ^ 26)
  or a switch of the rehash on every well-formed dictionary. It reads freed memory exactly when
  \<open>migrates\<close> says that it makes a step of a rehash whose old table has an entry: rehashing is allowed and
  either such a rehash is on, or the operation starts one on a table that is not empty (an addition
  over the limit of \<open>needExpand\<close>, a deletion below that of \<open>needShrink\<close>, an expansion). In all other
  cases it answers as the map would, and the dictionary stands for the resulting map.
\<close>

theorem dict_op_outcome:
  assumes "dict_inv hash d" and "admissible p (dict_abs d)"
  shows "if migrates cr hash p d then run_op cr hash p d = Fault UseAfterFree
    else \<exists>d'. run_op cr hash p d = Ret (d', snd (map_op p (dict_abs d))) \<and> dict_inv hash d' \<and>
      dict_abs d' = fst (map_op p (dict_abs d))"
  using run_op_outcome [OF assms, of cr] by (auto split: if_splits)

theorem dict_op_outcome_witness:
  "run_op True (\<lambda>k. k) (Fetch 3) (fst (setCanRehash sample_rehash True)) = Fault UseAfterFree \<and>
   (\<exists>d'. run_op True (\<lambda>k. k) (Delete 3) sample_rehash = Ret (d', 1, None) \<and> dict_inv (\<lambda>k. k) d' \<and>
     dict_abs d' = Map.empty)"
proof
  have "migrates True (\<lambda>k. k) (Fetch 3) (fst (setCanRehash sample_rehash True))"
    by (simp add: stuck_def setCanRehash_def sample_rehash_def ht_isEmpty_def sample_table)
  then show "run_op True (\<lambda>k. k) (Fetch 3) (fst (setCanRehash sample_rehash True)) = Fault UseAfterFree"
    using dict_op_outcome [of "\<lambda>k. k" "fst (setCanRehash sample_rehash True)" "Fetch 3" True]
    by (simp add: setCanRehash_ok sample_rehash_inv del: migrates.simps run_op.simps)
  show "\<exists>d'. run_op True (\<lambda>k. k) (Delete 3) sample_rehash = Ret (d', 1, None) \<and> dict_inv (\<lambda>k. k) d' \<and>
     dict_abs d' = Map.empty"
    using dict_op_outcome [of "\<lambda>k. k" sample_rehash "Delete 3" True]
      frozen_migrates [of sample_rehash True "\<lambda>k. k" "Delete 3"]
    by (simp add: sample_rehash_inv del: run_op.simps)
qed

text \<open>
  C8 A dictionary holds twenty entries. Adding distinct keys to a new dictionary, with resizing on and for
  every hash function, succeeds for the first 20 and then stands for exactly these; the addition of the
  21st starts a rehash, frees the first entry it moves and reads it again.
\<close>

theorem dict_holds_twenty:
  fixes kvs :: "('k \<times> 'v) list"
  assumes "distinct (map fst kvs)"
  shows "if length kvs \<le> 20
    then \<exists>d. run_ops True hash (map (\<lambda>(k, v). Add k v) kvs) new_dict = Ret (d, replicate (length kvs) (1, None)) \<and>
      dict_inv hash d \<and> dict_abs d = map_of kvs
    else run_ops True hash (map (\<lambda>(k, v). Add k v) kvs) new_dict = Fault UseAfterFree"
proof -
  have c: "canRehash (new_dict :: ('k, 'v) dict)" "dict_count (new_dict :: ('k, 'v) dict) = 0" by (simp_all add: new_dict_def dict_count_def)
  show ?thesis
    using fill_outcome [OF new_dict_ok c(1) assms, of hash] c(2)
    by (auto simp: new_dict_abs dict_ok_def split: if_splits)
qed

theorem dict_holds_twenty_witness:
  "run_ops True (\<lambda>k. k) (map (\<lambda>(k, v). Add k v) (map (\<lambda>i. (i, i)) [0..<21])) (new_dict :: (nat, nat) dict) =
     Fault UseAfterFree"
  using dict_holds_twenty [of "map (\<lambda>i. (i, i)) [0..<21 :: nat]" "\<lambda>k. k"]
  by (simp add: comp_def del: upt_rec_numeral)

end
