(* ===== verification/SentinelHelloFacts.thy ===== *)
theory SentinelHelloFacts imports SentinelHello begin

text \<open>
  What the gossip and the periodic work guarantee: the format round trip, the effect of a hello from
  a new and from a known sentinel, the hellos that stop the program, what is sent periodically, and
  tilt mode.
\<close>

section \<open>The format of a hello message\<close>

definition plain_field :: "string \<Rightarrow> bool" where
  "plain_field w \<longleftrightarrow> w \<noteq> [] \<and> hd w \<noteq> CHR '' '' \<and> CHR '','' \<notin> set w \<and> NUL \<notin> set w"

lemma plain_splittable: "plain_field w \<Longrightarrow> splittable '','' w"
  by (simp add: plain_field_def splittable_def)

lemma plain_c_str: "plain_field w \<Longrightarrow> c_str w = w"
  unfolding plain_field_def c_str_def by (subst takeWhile_eq_all_conv) auto

lemma plain_int_dec: "plain_field (int_dec i)"
proof -
  have "hd (int_dec i) \<in> set (int_dec i)" by simp
  then show ?thesis using int_dec_plain [of _ i] by (auto simp: plain_field_def)
qed

lemma plain_nat_dec: "plain_field (nat_dec n)"
  using plain_int_dec [of "int n"] by (simp add: int_dec_def)

lemma atoi_int_dec: "- (2 ^ 31) \<le> p \<Longrightarrow> p < 2 ^ 31 \<Longrightarrow> atoi (int_dec p) = p"
  by (simp add: atoi_def c_strtol_int_dec sint_sbintrunc' signed_take_bit_int_eq_self)

lemma strtoull_word: "strtoull (nat_dec (unat (w :: 64 word))) = w"
proof -
  have "unat w < 2 ^ LENGTH(64)" by (rule unsigned_less)
  then have "unat w < 2 ^ 64" by simp
  then show ?thesis by (simp add: strtoull_nat_dec)
qed

definition sent_hello :: "string \<Rightarrow> int \<Rightarrow> fly_instance \<Rightarrow> sentinel \<Rightarrow> hello" where
  "sent_hello ip port m s =
     \<lparr>h_ip = ip, h_port = port, h_runid = myid s, h_epoch = currentEpoch s, h_master = fi_name m,
      h_masterIP = sa_ip (fi_addr m), h_masterPort = sa_port (fi_addr m), h_masterEpoch = configEpoch m\<rparr>"

lemma parse_sent_hello:
  assumes p: "plain_field ip" "plain_field (myid s)" "plain_field (fi_name m)" "plain_field (sa_ip (fi_addr m))"
    and r: "- (2 ^ 31) \<le> port" "port < 2 ^ 31" "- (2 ^ 31) \<le> sa_port (fi_addr m)" "sa_port (fi_addr m) < 2 ^ 31"
    and l: "length (hello_payload ip port m s) < 1069"
  shows "parse_hello (hello_payload ip port m s) = Some (sent_hello ip port m s)"
proof -
  let ?ws = "[ip, int_dec port, myid s, nat_dec (unat (currentEpoch s)), fi_name m, sa_ip (fi_addr m),
    int_dec (sa_port (fi_addr m)), nat_dec (unat (configEpoch m))]"
  have "hello_payload ip port m s = take 1069 (join '','' ?ws)"
    using p by (simp add: hello_payload_def NET_IP_STR_LEN_def plain_c_str)
  then have "hello_payload ip port m s = join '','' ?ws"
    using l by (simp only: length_take) (metis min_def nat_less_le take_all_iff)
  moreover have "\<forall>w \<in> set ?ws. splittable '','' w"
    using p by (simp add: plain_splittable plain_int_dec plain_nat_dec)
  ultimately have "spiltString (hello_payload ip port m s) '','' = Some ?ws"
    by (simp only: spiltString_tokens [of "'',''"] tokens_join list.discI not_False_eq_True)
  then show ?thesis
    using r by (simp add: parse_hello_def sent_hello_def atoi_int_dec strtoull_word)
qed

section \<open>Epochs\<close>

lemma hello_epoch_ok:
  assumes "get_inst s m = Ret y" and "fi_flags y \<noteq> 0" and "fi_master y = None"
  shows "\<exists>t. hello_epoch h m s = Ret t \<and> currentEpoch t = max (currentEpoch s) (h_epoch h) \<and>
    instances t = instances s \<and> masters t = masters s \<and> links t = links s \<and> sent t = sent s"
proof (cases "h_epoch h > currentEpoch s")
  case True
  let ?s = "s\<lparr>currentEpoch := h_epoch h\<rparr>"
  have g: "get_inst ?s m = Ret y" using assms(1) by (simp add: get_inst_iff)
  have "\<exists>t. sendEvent LL_WARNING ''+new-epoch'' (Some m) False r ?s = Ret t" for r
    using g assms(2,3) by (simp add: sendEvent_def notify_script_def haveMaster_iff Let_def)
  then obtain t where t: "sendEvent LL_WARNING ''+new-epoch'' (Some m) False
      (nat_dec (unat (h_epoch h))) ?s = Ret t" by blast
  then have "same_heap ?s t" by (rule sendEvent_same_heap)
  moreover have "max (currentEpoch s) (h_epoch h) = h_epoch h" using True by simp
  ultimately show ?thesis using True t by (simp add: hello_epoch_def same_heap_def)
qed (simp add: hello_epoch_def max_def)

section \<open>Looking sentinels up\<close>

lemma find_instance_first:
  assumes "\<forall>(k, i) \<in> set m. \<exists>x. get_inst s i = Ret x \<and>
      \<not> (fi_runid x = r \<and> sa_ip (fi_addr x) = a \<and> sa_port (fi_addr x) = p)"
    and "get_inst s j = Ret y" "fi_runid y = r" "sa_ip (fi_addr y) = a" "sa_port (fi_addr y) = p"
  shows "find_instance s (Some a) p (Some r) (m @ (k, j) # m') = Ret (Some j)"
  using assms by (induction m) auto

lemma find_instance_absent:
  assumes "\<forall>(k, i) \<in> set m. \<exists>x. get_inst s i = Ret x \<and>
      \<not> ((case ro of None \<Rightarrow> True | Some r \<Rightarrow> fi_runid x = r) \<and> sa_ip (fi_addr x) = a \<and> sa_port (fi_addr x) = p)"
  shows "find_instance s (Some a) p ro m = Ret None"
  using assms by (induction m) (auto split: option.splits)

section \<open>A hello from a known sentinel\<close>

lemma not_ret_bind: "\<not> is_ret m \<Longrightarrow> \<not> is_ret (res_bind m f)"
  by (cases m) simp_all

lemma bind_not_ret: "(\<And>x. \<not> is_ret (f x)) \<Longrightarrow> \<not> is_ret (res_bind m f)"
  by (cases m) simp_all

text \<open>A hello that announces a newer configuration with another address of the master.\<close>

definition moves_master :: "hello \<Rightarrow> fly_instance \<Rightarrow> bool" where
  "moves_master h y \<longleftrightarrow> configEpoch y < h_masterEpoch h \<and>
     (h_masterPort h \<noteq> sa_port (fi_addr y) \<or> sa_ip (fi_addr y) \<noteq> h_masterIP h)"

lemma hello_config_moves:
  assumes "get_inst s m = Ret y" and "moves_master h y"
  shows "\<not> is_ret (hello_config now h m i s)"
  using assms
  by (simp add: hello_config_def moves_master_def Let_def)
    (intro bind_not_ret not_ret_bind change_address_never_returns)

lemma hello_known_moves:
  assumes h: "parse_hello msg = Some h" and m: "map_of (masters s) (h_master h) = Some m"
    and y: "get_inst s m = Ret y" "fi_flags y \<noteq> 0" "fi_master y = None"
    and f: "find_instance s (Some (c_str (h_ip h))) (h_port h) (Some (c_str (h_runid h))) (sentinels y) = Ret (Some i)"
    and moves: "moves_master h y"
  shows "\<not> is_ret (processHelloMessage raw now msg s)"
proof -
  obtain t where t: "hello_epoch h m s = Ret t" "instances t = instances s"
    using hello_epoch_ok [OF y] by blast
  then have "get_inst t m = get_inst s m" by (simp add: get_inst_def)
  then have "get_inst t m = Ret y" using y(1) by simp
  from not_ret_bind [OF hello_config_moves [OF this moves]] show ?thesis
    using h m y(1) f t(1) by (simp add: processHelloMessage_def getMasterByName_def getFlyInstanceByAddrAndRunID_def)
qed

lemma hello_known:
  assumes h: "parse_hello msg = Some h" and m: "map_of (masters s) (h_master h) = Some m"
    and y: "get_inst s m = Ret y" "fi_flags y \<noteq> 0" "fi_master y = None"
    and f: "find_instance s (Some (c_str (h_ip h))) (h_port h) (Some (c_str (h_runid h))) (sentinels y) = Ret (Some i)"
    and i: "get_inst s i = Ret x" "i \<noteq> m"
    and same: "\<not> moves_master h y"
  shows "\<exists>t y' x'. processHelloMessage raw now msg s = Ret t \<and>
    currentEpoch t = max (currentEpoch s) (h_epoch h) \<and> get_inst t m = Ret y' \<and>
    configEpoch y' = max (configEpoch y) (h_masterEpoch h) \<and> get_inst t i = Ret x' \<and>
    lastHelloTime x' = now \<and> masters t = masters s"
proof -
  obtain t where t: "hello_epoch h m s = Ret t" "currentEpoch t = max (currentEpoch s) (h_epoch h)"
    "instances t = instances s" "masters t = masters s"
    using hello_epoch_ok [OF y] by blast
  have gt: "get_inst t j = get_inst s j" for j using t(3) by (simp add: get_inst_def)
  let ?f = "\<lambda>y. y\<lparr>configEpoch := h_masterEpoch h\<rparr>"
  let ?u = "if configEpoch y < h_masterEpoch h then upd_inst m ?f t else t"
  let ?v = "upd_inst i (\<lambda>x. x\<lparr>lastHelloTime := now\<rparr>) ?u"
  have "hello_config now h m i t = Ret ?u"
    using same y(1) by (simp add: hello_config_def gt moves_master_def)
  moreover have um: "get_inst ?u m = Ret (if configEpoch y < h_masterEpoch h then ?f y else y)"
    using get_inst_upd [of t m y m ?f] y(1) gt by simp
  moreover have ui: "get_inst ?u i = Ret x"
    using get_inst_upd [of t i x m ?f] i gt by simp
  ultimately have "processHelloMessage raw now msg s = Ret ?v"
    using h m y(1) f t(1) by (simp add: processHelloMessage_def getMasterByName_def getFlyInstanceByAddrAndRunID_def)
  moreover have "get_inst ?v m = Ret (if configEpoch y < h_masterEpoch h then ?f y else y)"
    using get_inst_upd [OF um] i(2) by simp
  moreover have "get_inst ?v i = Ret (x\<lparr>lastHelloTime := now\<rparr>)"
    using get_inst_upd [OF ui] by simp
  moreover have "currentEpoch ?v = currentEpoch t" "masters ?v = masters s" using t(4) by simp_all
  ultimately show ?thesis using t(2) by (auto simp: max_def not_less)
qed

section \<open>A hello from a new sentinel\<close>

lemma upd_inst_same:
  assumes "get_inst s i = Ret x" and "f x = x"
  shows "upd_inst i f s = s"
  using assms by (simp add: get_inst_iff upd_inst_def list_update_same_conv)

lemma removeMatching_none:
  assumes "get_inst s m = Ret y"
    and "\<forall>(k, i) \<in> set (sentinels y). \<exists>x. get_inst s i = Ret x \<and> fi_runid x \<noteq> r"
  shows "removeMatchingSentinel r m s = Ret (s, 0)"
proof -
  have "upd_inst m (\<lambda>x. x\<lparr>sentinels := sentinels y\<rparr>) s = s"
    by (rule upd_inst_same [OF assms(1)]) simp
  then show ?thesis
    using assms remove_sentinels_none by (simp add: removeMatchingSentinel_def)
qed

definition fresh_sentinel :: "hello \<Rightarrow> sentinel \<Rightarrow> fly_instance \<Rightarrow> bool" where
  "fresh_sentinel h s y \<longleftrightarrow>
     (\<forall>(k, i) \<in> set (sentinels y). k \<noteq> h_runid h \<and>
        (\<exists>x. get_inst s i = Ret x \<and> fi_runid x \<noteq> h_runid h \<and>
           \<not> (sa_ip (fi_addr x) = h_ip h \<and> sa_port (fi_addr x) = h_port h)))"

lemma hello_new_sentinel_ok:
  assumes y: "get_inst s m = Ret y" "omap (sentinels y)" and fresh: "fresh_sentinel h s y"
    and pl: "plain_field (h_ip h)" "plain_field (h_runid h)"
    and solo: "\<forall>(k, n) \<in> set (masters s). n = m \<or> (\<exists>z. get_inst s n = Ret z \<and>
      (\<forall>(k, i) \<in> set (sentinels z). i \<noteq> length (instances s) \<and> i \<noteq> m \<and>
        (\<exists>x. get_inst s i = Ret x \<and> sa_port (fi_addr x) \<noteq> 0)))"
  shows "\<exists>t i y' x. hello_new_sentinel raw now h m s = Ret t \<and> get_inst t m = Ret y' \<and>
    map_of (sentinels y') = (map_of (sentinels y))(h_runid h \<mapsto> i) \<and> get_inst t i = Ret x \<and>
    fi_runid x = h_runid h \<and> fi_addr x = \<lparr>sa_ip = h_ip h, sa_port = h_port h\<rparr> \<and>
    configEpoch y' = configEpoch y \<and> fi_flags y' = fi_flags y \<and> fi_master y' = fi_master y \<and>
    masters t = masters s \<and> currentEpoch t = currentEpoch s"
proof -
  let ?i = "length (instances s)"
  have c: "c_str (h_ip h) = h_ip h" "c_str (h_runid h) = h_runid h" using pl by (simp_all add: plain_c_str)
  have rm: "removeMatchingSentinel (h_runid h) m s = Ret (s, 0)"
    using fresh by (intro removeMatching_none [OF y(1)]) (auto simp: fresh_sentinel_def)
  have an: "find_instance s (Some (h_ip h)) (h_port h) None (sentinels y) = Ret None"
    using fresh by (intro find_instance_absent) (auto simp: fresh_sentinel_def)
  obtain t where t: "createFlyInstance raw now (h_runid h) FSI_SENTINEL (h_ip h) (h_port h) (quorum y) (Some m) s
      = Ret (t, ?i)"
    "get_inst t ?i = Ret (new_instance raw now (h_runid h) FSI_SENTINEL (h_ip h) (h_port h) (quorum y)
      (Some m) (downAfterPeriod y))"
    "get_inst t m = Ret (fst (addSentinel (h_runid h) ?i y))"
    "\<forall>j z. j \<noteq> m \<longrightarrow> get_inst s j = Ret z \<longrightarrow> get_inst t j = Ret z"
    "masters t = masters s" "links t = links s" "currentEpoch t = currentEpoch s"
    using create_sentinel [OF y(1)] by blast
  let ?x = "(new_instance raw now (h_runid h) FSI_SENTINEL (h_ip h) (h_port h) (quorum y)
      (Some m) (downAfterPeriod y))\<lparr>fi_runid := h_runid h\<rparr>"
  let ?u = "upd_inst ?i (\<lambda>x. x\<lparr>fi_runid := h_runid h\<rparr>) t"
  have ui: "get_inst ?u ?i = Ret ?x" using get_inst_upd [OF t(2)] by simp
  have ne: "m \<noteq> ?i" using get_inst_less [OF y(1)] by simp
  have um: "get_inst ?u m = Ret (fst (addSentinel (h_runid h) ?i y))"
    using get_inst_upd [OF t(3)] ne by simp
  have old: "get_inst ?u j = Ret z" if "get_inst s j = Ret z" "j \<noteq> m" for j z
    using get_inst_upd [of t j z] t(4) that get_inst_less [OF that(1)] by simp
  have xf: "fi_master ?x = Some m" "fi_link ?x = None" "fi_flags ?x = FSI_SENTINEL" "fi_runid ?x = h_runid h"
    "fi_addr ?x = \<lparr>sa_ip = h_ip h, sa_port = h_port h\<rparr>"
    by (simp_all add: new_instance_def)
  have "share_loop ?i ?x ms ?u = Ret (?u, -1)" if "set ms \<subseteq> set (masters s)" for ms
    using that
  proof (induction ms)
    case (Cons kn ms)
    obtain k n where kn: "kn = (k, n)" by force
    show ?case
    proof (cases "n = m")
      case False
      with solo Cons.prems kn obtain z where z: "get_inst s n = Ret z"
        "\<forall>(k, i) \<in> set (sentinels z). i \<noteq> ?i \<and> i \<noteq> m \<and> (\<exists>x. get_inst s i = Ret x \<and> sa_port (fi_addr x) \<noteq> 0)"
        by auto
      then have "find_instance ?u None 0 r (sentinels z) = Ret None" for r
        using old by (intro find_instance_none) fastforce
      then show ?thesis using Cons kn old [OF z(1) False] xf False
        by (simp add: getFlyInstanceByAddrAndRunID_def)
    qed (use Cons kn xf in simp)
  qed simp
  then have share: "tryConnectionSharing ?i ?u = Ret (?u, -1)"
    using ui xf pl by (simp add: tryConnectionSharing_def flag_parts use_count_def t(5) plain_field_def)
  have "map_of (sentinels y) (h_runid h) = None"
    using fresh by (auto simp: fresh_sentinel_def map_of_eq_None_iff)
  then have "map_of (sentinels (fst (addSentinel (h_runid h) ?i y))) = (map_of (sentinels y))(h_runid h \<mapsto> ?i)"
    "configEpoch (fst (addSentinel (h_runid h) ?i y)) = configEpoch y"
    "fi_flags (fst (addSentinel (h_runid h) ?i y)) = fi_flags y"
    "fi_master (fst (addSentinel (h_runid h) ?i y)) = fi_master y"
    using y(2) by (simp_all add: addSentinel_def map_of_omap_put)
  moreover have "hello_new_sentinel raw now h m s = Ret ?u"
    using rm y(1) an c t(1) share
    by (simp add: hello_new_sentinel_def getFlyInstanceByAddrAndRunID_def)
  ultimately show ?thesis using ui um xf t(5,7) by auto
qed

section \<open>A hello that stops the program\<close>

lemma hello_moved_sentinel_faults:
  assumes h: "parse_hello msg = Some h" and m: "map_of (masters s) (h_master h) = Some m"
    and y: "get_inst s m = Ret y" "fi_flags y \<noteq> 0" "fi_master y = None"
    and sp: "sentinels y = l @ (k, j) # l'" and j: "get_inst s j = Ret x" "fi_runid x = h_runid h"
    and others: "\<forall>(k, n) \<in> set (l @ l'). \<exists>z. get_inst s n = Ret z \<and> fi_runid z \<noteq> h_runid h"
    and moved: "\<not> (sa_ip (fi_addr x) = h_ip h \<and> sa_port (fi_addr x) = h_port h)"
    and pl: "plain_field (h_ip h)" "plain_field (h_runid h)"
  shows "\<not> is_ret (processHelloMessage raw now msg s)"
proof -
  have c: "c_str (h_ip h) = h_ip h" "c_str (h_runid h) = h_runid h" using pl by (simp_all add: plain_c_str)
  have "find_instance s (Some (h_ip h)) (h_port h) (Some (h_runid h)) (sentinels y) = Ret None"
  proof (rule find_instance_absent, unfold sp, intro ballI, clarify)
    fix k' n assume "(k', n) \<in> set (l @ (k, j) # l')"
    then consider "n = j" | "(k', n) \<in> set (l @ l')" by auto
    then show "\<exists>z. get_inst s n = Ret z \<and> \<not> ((case Some (h_runid h) of None \<Rightarrow> True | Some r \<Rightarrow> fi_runid z = r) \<and>
        sa_ip (fi_addr z) = h_ip h \<and> sa_port (fi_addr z) = h_port h)"
      by cases (use j moved others in fastforce)+
  qed
  moreover have "\<not> is_ret (hello_new_sentinel raw now h m s)"
  proof (cases "l' = []")
    case True
    then have "remove_sentinels s (h_runid h) (sentinels y) = Fault OutOfBounds"
      using remove_sentinels_last [of l s "h_runid h" j x k] others j sp by simp
    then show ?thesis by (simp add: hello_new_sentinel_def removeMatchingSentinel_def y(1))
  next
    case False
    let ?u = "upd_inst m (\<lambda>x. x\<lparr>sentinels := l @ l'\<rparr>) s"
    have "removeMatchingSentinel (h_runid h) m s = Ret (?u, 1)"
      using remove_sentinels_one [OF others j(1,2) False] y(1) sp by (simp add: removeMatchingSentinel_def)
    moreover have "get_inst ?u m = Ret (y\<lparr>sentinels := l @ l'\<rparr>)" using get_inst_upd [OF y(1)] by simp
    then have "sendEvent level type (Some m) True r ?u = Fault NullDeref" for level type r
      using sendEvent_master_faults y(2,3) by fastforce
    ultimately show ?thesis by (simp add: hello_new_sentinel_def)
  qed
  ultimately show ?thesis
    using h m y(1) c
    by (simp add: processHelloMessage_def getMasterByName_def getFlyInstanceByAddrAndRunID_def not_ret_bind)
qed

definition no_links :: "sentinel \<Rightarrow> bool" where
  "no_links s \<longleftrightarrow> (\<forall>i x. get_inst s i = Ret x \<longrightarrow> fi_link x = None)"

lemma update_loop_faults:
  assumes "no_links s" and "(k, m) \<in> set ms" and "get_inst s m = Ret y"
    and "find_instance s None 0 (Some (c_str (fi_runid x))) (sentinels y) = Ret (Some j)"
  shows "\<not> is_ret (update_loop i x ms s n)"
  using assms(2)
proof (induction ms arbitrary: n)
  case (Cons kn ms)
  obtain k' m' where km: "kn = (k', m')" by force
  show ?case
  proof (cases "get_inst s m'")
    case (Ret z)
    show ?thesis
    proof (cases "find_instance s None 0 (Some (c_str (fi_runid x))) (sentinels z)")
      case (Ret r)
      show ?thesis
      proof (cases r)
        case None
        have "(k, m) \<in> set ms" using Cons.prems None Ret \<open>get_inst s m' = Ret z\<close> assms(3,4) km by auto
        with Cons.IH None Ret \<open>get_inst s m' = Ret z\<close> km show ?thesis
          by (simp add: getFlyInstanceByAddrAndRunID_def)
      next
        case (Some j')
        have "\<not> is_ret (res_bind (get_inst s j') (\<lambda>z. res_bind (get_link s z) (f z)))" for f
          using assms(1) by (cases "get_inst s j'") (simp_all add: no_links_def get_link_def)
        with Some Ret \<open>get_inst s m' = Ret z\<close> km show ?thesis
          by (simp add: getFlyInstanceByAddrAndRunID_def)
      qed
    qed (use \<open>get_inst s m' = Ret z\<close> km in \<open>simp add: getFlyInstanceByAddrAndRunID_def\<close>)
  qed (use km in simp)
qed simp

lemma find_instance_some:
  assumes "\<forall>(k, i) \<in> set m. \<exists>x. get_inst s i = Ret x"
    and "(k, j) \<in> set m" "get_inst s j = Ret y" "fi_runid y = r" "sa_port (fi_addr y) = p"
  shows "\<exists>j'. find_instance s None p (Some r) m = Ret (Some j')"
  using assms by (induction m) auto

lemma no_links_upd: "no_links s \<Longrightarrow> (\<And>x. fi_link (f x) = fi_link x) \<Longrightarrow> no_links (upd_inst i f s)"
  by (auto simp: no_links_def get_inst_iff upd_inst_def nth_list_update split: if_splits)

text \<open>
  Invalidating the address of a sentinel that came back under a new runid: the update over all
  masters finds it with port 0 and follows its link, which no operation has ever set.
\<close>

lemma invalidate_faults:
  assumes nl: "no_links s" and m: "(k, m) \<in> set (masters s)" "get_inst s m = Ret y" "m \<noteq> a"
    and a: "(k', a) \<in> set (sentinels y)" "get_inst s a = Ret x" "has_flag (fi_flags x) FSI_SENTINEL"
    and live: "\<forall>(k, i) \<in> set (sentinels y). \<exists>x. get_inst s i = Ret x" and pl: "plain_field (fi_runid x)"
  shows "\<not> is_ret (updateSentinelAddrInAllMasters a (upd_inst a (setPort 0) s))"
proof -
  let ?u = "upd_inst a (setPort 0) s"
  have g: "get_inst ?u i = Ret (if i = a then setPort 0 z else z)" if "get_inst s i = Ret z" for i z
    using get_inst_upd [OF that] by simp
  have "\<forall>(k, i) \<in> set (sentinels y). \<exists>x. get_inst ?u i = Ret x" using live g by fastforce
  then obtain j where "find_instance ?u None 0 (Some (fi_runid x)) (sentinels y) = Ret (Some j)"
    using find_instance_some [OF _ a(1), of ?u "setPort 0 x" "fi_runid x" 0] g [OF a(2)]
    by (auto simp: setPort_def)
  moreover have "no_links ?u" by (rule no_links_upd [OF nl]) (simp add: setPort_def)
  ultimately have "\<not> is_ret (update_loop a (setPort 0 x) (masters s) ?u 0)"
    using update_loop_faults [of ?u k m "masters s" y "setPort 0 x"] m g [OF m(2)] pl
    by (simp add: setPort_def plain_c_str)
  then show ?thesis
    using g [OF a(2)] a(3) by (simp add: updateSentinelAddrInAllMasters_def not_ret_bind setPort_def)
qed

section \<open>Periodic commands\<close>

lemma info_never_due: "info_due now x urgent \<longleftrightarrow> False"
  by (simp add: info_due_def eq0_and_even FSI_SENTINEL_def)

lemma upd_link_sent [simp]: "sent (upd_link x f s) = sent s"
  by (simp add: upd_link_def split: option.split)

lemma send_cmd_sent [simp]: "sent (send_cmd i c s) = sent s @ [(i, c)]"
  by (simp add: send_cmd_def)

lemma sendPing_sent: "sendPing now rv i s = Ret (t, b) \<Longrightarrow> sent t = sent s @ [(i, [''PING''])]"
  by (auto simp: sendPing_def res_bind_eq_Ret Let_def split: if_splits)

lemma sendHello_sent:
  assumes "sendHello sn rv i s = Ret (t, r)"
  shows "\<exists>cs. sent t = sent s @ cs \<and> (\<forall>(j, c) \<in> set cs. hd c = ''PUBLISH'' \<and> j = i)"
proof -
  obtain x m l where x: "get_inst s i = Ret x"
    "(if has_flag (fi_flags x) FSI_MASTER then Ret x else deref s (fi_master x)) = Ret m" "get_link s x = Ret l"
    using assms unfolding sendHello_def res_bind_eq_Ret by blast
  show ?thesis
  proof (cases "disconnected l \<or> hello_announce_ip sn l s = Ret None")
    case True
    with assms x show ?thesis by (cases "disconnected l") (simp_all add: sendHello_def)
  next
    case False
    then obtain ip where ip: "hello_announce_ip sn l s = Ret (Some ip)"
      using assms x by (cases "hello_announce_ip sn l s") (auto simp: sendHello_def)
    let ?cmd = "[''PUBLISH'', ''__sentinel__:hello'',
      hello_payload ip (if announcePort s = 0 then sv_port s else announcePort s) m s]"
    show ?thesis
      using assms x False ip by (cases "rv ?cmd = -1") (auto simp: sendHello_def Let_def)
  qed
qed

lemma periodic_sent:
  assumes "sendPeriodicCommands now sn rv i s = Ret t"
  shows "\<exists>cs. sent t = sent s @ cs \<and> (\<forall>(j, c) \<in> set cs. j = i \<and> (c = [''PING''] \<or> hd c = ''PUBLISH''))"
proof -
  obtain x l where x: "get_inst s i = Ret x" "get_link s x = Ret l"
    using assms by (auto simp: sendPeriodicCommands_def res_bind_eq_Ret)
  show ?thesis
  proof (cases "disconnected l \<or> pendingCommands l > SENTINEL_MAX_PENDING_COMMANDS * int (use_count s (fi_link x))")
    case True
    with assms x show ?thesis by (cases "disconnected l") (simp_all add: sendPeriodicCommands_def)
  next
    case False
    let ?ping = "if ping_due now x l then res_bind (sendPing now rv i s) (\<lambda>(s, b). Ret s) else Ret s"
    obtain u where u: "?ping = Ret u"
      "(if now - lastPubTime x > SENTINEL_PUBLISH_PERIOD
        then res_bind (sendHello sn rv i u) (\<lambda>(s, r). Ret s) else Ret u) = Ret t"
      using assms x False unfolding sendPeriodicCommands_def info_never_due
      by (cases "info_urgent s x"; cases ?ping) (simp_all add: Let_def)
    have "sent u = sent s \<or> sent u = sent s @ [(i, [''PING''])]"
      using u(1) by (auto simp: res_bind_eq_Ret dest: sendPing_sent split: if_splits)
    moreover have "\<exists>cs. sent t = sent u @ cs \<and> (\<forall>(j, c) \<in> set cs. hd c = ''PUBLISH'' \<and> j = i)"
      using u(2) by (auto simp: res_bind_eq_Ret dest: sendHello_sent split: if_splits)
    ultimately show ?thesis by auto
  qed
qed

lemma tilt_ok:
  "checkTiltCondition now s = Ret (s\<lparr>tilt := tilt s \<or> now - previousTime s > 2000,
     tiltStartTime := (if now - previousTime s > 2000 then now else tiltStartTime s), previousTime := now\<rparr>)"
  by (simp add: checkTiltCondition_def SENTINEL_TILT_TRIGGER_def Let_def)

section \<open>The whole handler\<close>

lemma hello_new:
  assumes h: "parse_hello msg = Some h" and m: "map_of (masters s) (h_master h) = Some m"
    and y: "get_inst s m = Ret y" "fi_flags y \<noteq> 0" "fi_master y = None" "omap (sentinels y)"
    and fresh: "fresh_sentinel h s y" and pl: "plain_field (h_ip h)" "plain_field (h_runid h)"
    and solo: "\<forall>(k, n) \<in> set (masters s). n = m \<or> (\<exists>z. get_inst s n = Ret z \<and>
      (\<forall>(k, i) \<in> set (sentinels z). i \<noteq> length (instances s) \<and> i \<noteq> m \<and>
        (\<exists>x. get_inst s i = Ret x \<and> sa_port (fi_addr x) \<noteq> 0)))"
  shows "\<exists>t i y' x. processHelloMessage raw now msg s = Ret t \<and> get_inst t m = Ret y' \<and>
    map_of (sentinels y') = (map_of (sentinels y))(h_runid h \<mapsto> i) \<and> get_inst t i = Ret x \<and>
    fi_runid x = h_runid h \<and> fi_addr x = \<lparr>sa_ip = h_ip h, sa_port = h_port h\<rparr> \<and>
    configEpoch y' = configEpoch y \<and> currentEpoch t = max (currentEpoch s) (h_epoch h)"
proof -
  have c: "c_str (h_ip h) = h_ip h" "c_str (h_runid h) = h_runid h" using pl by (simp_all add: plain_c_str)
  have none: "find_instance s (Some (h_ip h)) (h_port h) (Some (h_runid h)) (sentinels y) = Ret None"
    using fresh by (intro find_instance_absent) (auto simp: fresh_sentinel_def)
  obtain t i y' x where t: "hello_new_sentinel raw now h m s = Ret t" "get_inst t m = Ret y'"
    "map_of (sentinels y') = (map_of (sentinels y))(h_runid h \<mapsto> i)" "get_inst t i = Ret x"
    "fi_runid x = h_runid h" "fi_addr x = \<lparr>sa_ip = h_ip h, sa_port = h_port h\<rparr>"
    "configEpoch y' = configEpoch y" "fi_flags y' = fi_flags y" "fi_master y' = fi_master y"
    "masters t = masters s" "currentEpoch t = currentEpoch s"
    using hello_new_sentinel_ok [OF y(1,4) fresh pl solo] by blast
  obtain u where u: "hello_epoch h m t = Ret u" "currentEpoch u = max (currentEpoch t) (h_epoch h)"
    "instances u = instances t"
    using hello_epoch_ok [OF t(2)] t(8,9) y(2,3) by metis
  have "processHelloMessage raw now msg s = Ret u"
    using h m y(1) none t(1) u(1) c
    by (simp add: processHelloMessage_def getMasterByName_def getFlyInstanceByAddrAndRunID_def)
  moreover have "get_inst u j = get_inst t j" for j using u(3) by (simp add: get_inst_def)
  ultimately show ?thesis using t u(2) by auto
qed

lemma find_by_addr:
  "\<lbrakk>\<forall>(k, i) \<in> set m. \<exists>x. get_inst s i = Ret x; (k, j) \<in> set m; get_inst s j = Ret y;
     sa_ip (fi_addr y) = a; sa_port (fi_addr y) = p\<rbrakk> \<Longrightarrow>
   \<exists>j'. find_instance s (Some a) p None m = Ret (Some j') \<and> j' \<in> snd ` set m"
proof (induction m)
  case Nil
  then show ?case by simp
next
  case (Cons e m)
  obtain k' i where e: "e = (k', i)" by (cases e)
  obtain x where x: "get_inst s i = Ret x" using Cons.prems(1) e by auto
  show ?case
  proof (cases "sa_ip (fi_addr x) = a \<and> sa_port (fi_addr x) = p")
    case True
    then show ?thesis using x e by simp
  next
    case False
    then have "(k, j) \<in> set m" using Cons.prems x e by auto
    then have "\<exists>j'. find_instance s (Some a) p None m = Ret (Some j') \<and> j' \<in> snd ` set m"
      using Cons.prems by (intro Cons.IH) auto
    then show ?thesis using False x e by auto
  qed
qed

lemma hello_restarted_faults:
  assumes h: "parse_hello msg = Some h" and m: "(k, m) \<in> set (masters s)" "map_of (masters s) (h_master h) = Some m"
    and y: "get_inst s m = Ret y"
    and children: "\<forall>(k, i) \<in> set (sentinels y). i \<noteq> m \<and> (\<exists>x. get_inst s i = Ret x \<and> fi_runid x \<noteq> h_runid h \<and>
      has_flag (fi_flags x) FSI_SENTINEL \<and> fi_master x = Some m \<and> plain_field (fi_runid x))"
    and a: "(k', a) \<in> set (sentinels y)" "get_inst s a = Ret x" "sa_ip (fi_addr x) = h_ip h" "sa_port (fi_addr x) = h_port h"
    and nl: "no_links s" and pl: "plain_field (h_ip h)" "plain_field (h_runid h)"
  shows "\<not> is_ret (processHelloMessage raw now msg s)"
proof -
  have c: "c_str (h_ip h) = h_ip h" "c_str (h_runid h) = h_runid h" using pl by (simp_all add: plain_c_str)
  have "find_instance s (Some (h_ip h)) (h_port h) (Some (h_runid h)) (sentinels y) = Ret None"
    using children by (intro find_instance_absent) auto
  moreover have rm: "removeMatchingSentinel (h_runid h) m s = Ret (s, 0)"
    using children by (intro removeMatching_none [OF y]) auto
  have "\<forall>(k, i) \<in> set (sentinels y). \<exists>x. get_inst s i = Ret x" using children by auto
  then obtain b where b0: "find_instance s (Some (h_ip h)) (h_port h) None (sentinels y) = Ret (Some b)"
    "b \<in> snd ` set (sentinels y)"
    using find_by_addr [OF _ a] by blast
  then obtain k2 z where b: "find_instance s (Some (h_ip h)) (h_port h) None (sentinels y) = Ret (Some b)"
    "(k2, b) \<in> set (sentinels y)" "get_inst s b = Ret z"
    using children by fastforce
  then have z: "b \<noteq> m" "has_flag (fi_flags z) FSI_SENTINEL" "fi_master z = Some m" "plain_field (fi_runid z)"
    using children by auto
  obtain t where t: "sendEvent LL_NOTICE ''+sentinel-invalid-addr'' (Some b) True [] s = Ret t"
    using b(3) z y by (cases "haveMaster z") (simp_all add: sendEvent_def event_prefix_def Let_def)
  then have sh: "same_heap s t" by (rule sendEvent_same_heap)
  have g: "get_inst t i = get_inst s i" for i using same_heap_get [OF sh] .
  have "\<not> is_ret (updateSentinelAddrInAllMasters b (upd_inst b (setPort 0) t))"
  proof (rule invalidate_faults [of t k m y b k2 z])
    show "no_links t" using nl by (simp add: no_links_def g)
    show "(k, m) \<in> set (masters t)" using m(1) sh by (simp add: same_heap_def)
    show "\<forall>(k, i) \<in> set (sentinels y). \<exists>x. get_inst t i = Ret x" using children g by auto
  qed (use y b z g in auto)
  then have "\<not> is_ret (hello_new_sentinel raw now h m s)"
    using rm y b(1) t c by (simp add: hello_new_sentinel_def getFlyInstanceByAddrAndRunID_def not_ret_bind)
  ultimately show ?thesis
    using h m(2) y c
    by (simp add: processHelloMessage_def getMasterByName_def getFlyInstanceByAddrAndRunID_def not_ret_bind)
qed

lemma sample_no_links: "no_links sample"
  unfolding no_links_def
proof (intro allI impI)
  fix i x assume "get_inst sample i = Ret x"
  then have "i < 4" "instances sample ! i = Some x"
    by (simp_all add: get_inst_iff) (simp add: sample_def)
  then have "i \<in> {0, 1, 2, 3}" by auto
  with \<open>instances sample ! i = Some x\<close> show "fi_link x = None"
    by (auto simp: sample_def fi_addFlags_def)
qed

lemma tokens_sample:
  "tokens '','' ''10.0.0.9,26379,cc,7,mymaster,10.0.0.1,6379,3'' =
     [''10.0.0.9'', ''26379'', ''cc'', ''7'', ''mymaster'', ''10.0.0.1'', ''6379'', ''3'']"
  "tokens '','' ''10.0.0.2,26379,aa,7,mymaster,10.0.0.1,6379,3'' =
     [''10.0.0.2'', ''26379'', ''aa'', ''7'', ''mymaster'', ''10.0.0.1'', ''6379'', ''3'']"
  "tokens '','' ''10.0.0.7,26379,aa,7,mymaster,10.0.0.1,6379,3'' =
     [''10.0.0.7'', ''26379'', ''aa'', ''7'', ''mymaster'', ''10.0.0.1'', ''6379'', ''3'']"
  "tokens '','' ''10.0.0.2,26379,zz,7,mymaster,10.0.0.1,6379,3'' =
     [''10.0.0.2'', ''26379'', ''zz'', ''7'', ''mymaster'', ''10.0.0.1'', ''6379'', ''3'']"
  "tokens '','' ''10.0.0.2,26379,aa,7,mymaster,10.0.0.8,6379,3'' =
     [''10.0.0.2'', ''26379'', ''aa'', ''7'', ''mymaster'', ''10.0.0.8'', ''6379'', ''3'']"
  by code_simp+

lemma sample_numbers:
  "atoi ''26379'' = 26379" "strtoull ''7'' = 7" "atoi ''6379'' = 6379" "strtoull ''3'' = 3"
  by (simp_all add: atoi_def strtoull_def c_strtol_def sign_split_def is_digit_def is_space_def)

lemma sample_hellos:
  "parse_hello ''10.0.0.9,26379,cc,7,mymaster,10.0.0.1,6379,3'' =
     Some \<lparr>h_ip = ''10.0.0.9'', h_port = 26379, h_runid = ''cc'', h_epoch = 7, h_master = ''mymaster'',
       h_masterIP = ''10.0.0.1'', h_masterPort = 6379, h_masterEpoch = 3\<rparr>"
  "parse_hello ''10.0.0.2,26379,aa,7,mymaster,10.0.0.1,6379,3'' =
     Some \<lparr>h_ip = ''10.0.0.2'', h_port = 26379, h_runid = ''aa'', h_epoch = 7, h_master = ''mymaster'',
       h_masterIP = ''10.0.0.1'', h_masterPort = 6379, h_masterEpoch = 3\<rparr>"
  "parse_hello ''10.0.0.7,26379,aa,7,mymaster,10.0.0.1,6379,3'' =
     Some \<lparr>h_ip = ''10.0.0.7'', h_port = 26379, h_runid = ''aa'', h_epoch = 7, h_master = ''mymaster'',
       h_masterIP = ''10.0.0.1'', h_masterPort = 6379, h_masterEpoch = 3\<rparr>"
  "parse_hello ''10.0.0.2,26379,zz,7,mymaster,10.0.0.1,6379,3'' =
     Some \<lparr>h_ip = ''10.0.0.2'', h_port = 26379, h_runid = ''zz'', h_epoch = 7, h_master = ''mymaster'',
       h_masterIP = ''10.0.0.1'', h_masterPort = 6379, h_masterEpoch = 3\<rparr>"
  by (simp_all add: parse_hello_def spiltString_tokens tokens_sample sample_numbers)

lemma sample_hello_moved:
  "parse_hello ''10.0.0.2,26379,aa,7,mymaster,10.0.0.8,6379,3'' =
     Some \<lparr>h_ip = ''10.0.0.2'', h_port = 26379, h_runid = ''aa'', h_epoch = 7, h_master = ''mymaster'',
       h_masterIP = ''10.0.0.8'', h_masterPort = 6379, h_masterEpoch = 3\<rparr>"
  by (simp add: parse_hello_def spiltString_tokens tokens_sample sample_numbers)

lemma sample_epoch: "configEpoch sample_master = 0" "fi_addr sample_master = \<lparr>sa_ip = ''10.0.0.1'', sa_port = 6379\<rparr>"
  by (simp_all add: sample_master_def new_instance_def blank_instance_def)

lemma sample_plain:
  "plain_field ''10.0.0.9''" "plain_field ''10.0.0.2''" "plain_field ''10.0.0.7''" "plain_field ''aa''"
  "plain_field ''bb''" "plain_field ''cc''" "plain_field ''zz''" "plain_field ''mymaster''" "plain_field ''10.0.0.1''"
  by code_simp+

lemma sample_masters [simp]: "masters sample = [(''mymaster'', 0)]" "currentEpoch sample = 0"
  by (simp_all add: sample_def empty_sentinel_def)

lemma sample_flags [simp]:
  "FSI_MASTER \<noteq> 0" "has_flag FSI_SENTINEL FSI_SENTINEL" "has_flag (FSI_SENTINEL OR FSI_S_DOWN) FSI_SENTINEL"
  by (simp_all add: flag_simps has_flag_def)

lemma sample_more [simp]:
  "fi_name sample_master = ''mymaster''" "sa_ip (fi_addr sample_master) = ''10.0.0.1''"
  "sa_port (fi_addr sample_master) = 6379" "myid sample = myid empty_sentinel" "length (instances sample) = 4"
  by (simp_all add: sample_master_def new_instance_def sample_def)

lemma sample_children:
  "(k, i) \<in> set (sentinels sample_master) \<Longrightarrow>
    \<exists>x. get_inst sample i = Ret x \<and> i \<noteq> 0 \<and> i < 4 \<and> has_flag (fi_flags x) FSI_SENTINEL \<and> fi_master x = Some 0 \<and>
      (fi_runid x, sa_ip (fi_addr x)) \<in> {(''aa'', ''10.0.0.2''), (''bb'', ''10.0.0.3'')} \<and>
      fi_runid x = k \<and> sa_port (fi_addr x) = 26379"
  by (auto simp: sample_gets fi_addFlags_def)

definition sample_linked :: sentinel where
  "sample_linked = empty_sentinel\<lparr>instances := [Some (sample_master\<lparr>fi_link := Some 0\<rparr>)],
     links := [(new_link 0)\<lparr>disconnected := False\<rparr>], announceIP := ''10.0.0.9''\<rparr>"

lemma sample_linked_periodic:
  "\<exists>t. sendPeriodicCommands 5000 None (\<lambda>_. 0) 0 sample_linked = Ret t"
proof -
  let ?x = "sample_master\<lparr>fi_link := Some 0\<rparr>"
  let ?l = "(new_link 0)\<lparr>disconnected := False\<rparr>"
  have x: "get_inst sample_linked 0 = Ret ?x" "get_link sample_linked ?x = Ret ?l"
    by (simp_all add: sample_linked_def get_inst_def get_link_def)
  have k: "get_inst (send_cmd i c s) j = get_inst s j" "get_link (send_cmd i c s) y = get_link s y"
    "announceIP (send_cmd i c s) = announceIP s" for i c s j y
    by (simp_all add: send_cmd_def get_inst_def get_link_def split: option.split)
  have "info_urgent sample_linked ?x = Ret (masterLinkDownTime ?x \<noteq> 0)"
    by (simp add: info_urgent_def has_flag_def flag_simps)
  moreover have "has_flag FSI_MASTER FSI_MASTER" "announceIP sample_linked \<noteq> []"
    by (simp_all add: has_flag_def flag_simps sample_linked_def)
  ultimately show ?thesis
    using x by (simp add: sendPeriodicCommands_def info_never_due sendPing_def sendHello_def hello_announce_ip_def k
      SENTINEL_MAX_PENDING_COMMANDS_def Let_def new_link_def)
qed

text \<open>The unsigned difference of two clock readings, against the trigger of tilt mode.\<close>

lemma minus_2000:
  fixes a b :: "64 word"
  shows "a - b > 2000 \<longleftrightarrow> (if b \<le> a then unat a - unat b > 2000 else unat b - unat a < 2 ^ 64 - 2000)"
proof -
  have "unat (a - b) = (if unat b \<le> unat a then unat a - unat b else unat a + 2 ^ 64 - unat b)"
    by (simp add: unat_sub_if' word_size)
  moreover have "unat b < 2 ^ 64" using unsigned_less [of b, where 'a = nat] by simp
  ultimately show ?thesis by (auto simp: word_less_nat_alt word_le_nat_alt)
qed

section \<open>Properties\<close>

text \<open>
  C14 What one sentinel publishes about a master, another parses back: address, runid, epochs, name
  and configuration are those of the sender, provided that no field is empty, begins with a blank or
  holds a comma, ports fit an int and the message fits the buffer.
\<close>

theorem hello_roundtrip:
  assumes "plain_field ip" "plain_field (myid s)" "plain_field (fi_name m)" "plain_field (sa_ip (fi_addr m))"
    and "- (2 ^ 31) \<le> port" "port < 2 ^ 31" "- (2 ^ 31) \<le> sa_port (fi_addr m)" "sa_port (fi_addr m) < 2 ^ 31"
    and "length (hello_payload ip port m s) < 1069"
  shows "parse_hello (hello_payload ip port m s) = Some (sent_hello ip port m s)"
  using assms by (rule parse_sent_hello)

theorem hello_roundtrip_witness:
  "parse_hello (hello_payload ''10.0.0.9'' 26379 sample_master (sample\<lparr>myid := ''cc''\<rparr>)) =
     Some (sent_hello ''10.0.0.9'' 26379 sample_master (sample\<lparr>myid := ''cc''\<rparr>))"
proof (rule hello_roundtrip)
  show "length (hello_payload ''10.0.0.9'' 26379 sample_master (sample\<lparr>myid := ''cc''\<rparr>)) < 1069"
    by (simp add: hello_payload_def NET_IP_STR_LEN_def sample_plain plain_c_str sample_master_def new_instance_def
      blank_instance_def sample_def empty_sentinel_def int_dec_def nat_dec.simps)
qed (simp_all add: sample_plain)

text \<open>
  C11 A hello from a known sentinel (same address and runid) about a monitored master raises the
  current epoch and the master's configuration epoch to the announced ones when those are greater,
  never lowers them, and refreshes the sentinel's last hello time. The exception is the hello
  for which the code has its failover branch, a newer configuration under another address of the
  master: it never gets through, because changing the address always faults.
\<close>

theorem hello_known_effect:
  assumes "parse_hello msg = Some h" and "map_of (masters s) (h_master h) = Some m"
    and "get_inst s m = Ret y" "fi_flags y \<noteq> 0" "fi_master y = None"
    and "find_instance s (Some (c_str (h_ip h))) (h_port h) (Some (c_str (h_runid h))) (sentinels y) = Ret (Some i)"
    and "get_inst s i = Ret x" "i \<noteq> m"
  shows "if configEpoch y < h_masterEpoch h \<and>
      (h_masterPort h \<noteq> sa_port (fi_addr y) \<or> sa_ip (fi_addr y) \<noteq> h_masterIP h)
    then \<not> is_ret (processHelloMessage raw now msg s)
    else \<exists>t y' x'. processHelloMessage raw now msg s = Ret t \<and>
      currentEpoch t = max (currentEpoch s) (h_epoch h) \<and> get_inst t m = Ret y' \<and>
      configEpoch y' = max (configEpoch y) (h_masterEpoch h) \<and> get_inst t i = Ret x' \<and>
      lastHelloTime x' = now \<and> masters t = masters s"
  unfolding moves_master_def [symmetric]
  using hello_known_moves [OF assms(1-6), of raw now] hello_known [OF assms, of raw now] by simp

theorem hello_known_effect_witness:
  "(\<exists>t y' x'. processHelloMessage blank_instance 99 ''10.0.0.2,26379,aa,7,mymaster,10.0.0.1,6379,3'' sample = Ret t \<and>
    currentEpoch t = max 0 7 \<and> get_inst t 0 = Ret y' \<and>
    configEpoch y' = max (configEpoch sample_master) 3 \<and> get_inst t 1 = Ret x' \<and>
    lastHelloTime x' = 99 \<and> masters t = masters sample) \<and>
   \<not> is_ret (processHelloMessage blank_instance 99 ''10.0.0.2,26379,aa,7,mymaster,10.0.0.8,6379,3'' sample)"
  using hello_known_effect [OF sample_hellos(2), of sample 0 sample_master 1
      "sample_child FSI_SENTINEL ''aa'' ''10.0.0.2'' 26379" blank_instance 99]
    hello_known_effect [OF sample_hello_moved, of sample 0 sample_master 1
      "sample_child FSI_SENTINEL ''aa'' ''10.0.0.2'' 26379" blank_instance 99]
  by (simp add: sample_gets sample_plain plain_c_str sample_epoch)

text \<open>
  C12 A hello from a sentinel that the master does not know (neither its runid nor its address)
  registers it under its runid, with the announced address, and raises the current epoch; the
  master's configuration epoch is not taken over, however new the announced one is, because the
  variable that holds the new sentinel shadows the one that is tested.
\<close>

theorem hello_new_effect:
  assumes "parse_hello msg = Some h" and "map_of (masters s) (h_master h) = Some m"
    and "get_inst s m = Ret y" "fi_flags y \<noteq> 0" "fi_master y = None" "omap (sentinels y)"
    and "fresh_sentinel h s y" and "plain_field (h_ip h)" "plain_field (h_runid h)"
    and "\<forall>(k, n) \<in> set (masters s). n = m \<or> (\<exists>z. get_inst s n = Ret z \<and>
      (\<forall>(k, i) \<in> set (sentinels z). i \<noteq> length (instances s) \<and> i \<noteq> m \<and>
        (\<exists>x. get_inst s i = Ret x \<and> sa_port (fi_addr x) \<noteq> 0)))"
  shows "\<exists>t i y' x. processHelloMessage raw now msg s = Ret t \<and> get_inst t m = Ret y' \<and>
    map_of (sentinels y') = (map_of (sentinels y))(h_runid h \<mapsto> i) \<and> get_inst t i = Ret x \<and>
    fi_runid x = h_runid h \<and> fi_addr x = \<lparr>sa_ip = h_ip h, sa_port = h_port h\<rparr> \<and>
    configEpoch y' = configEpoch y \<and> currentEpoch t = max (currentEpoch s) (h_epoch h)"
  using assms by (rule hello_new)

theorem hello_new_effect_witness:
  "\<exists>t i y' x. processHelloMessage blank_instance 99 ''10.0.0.9,26379,cc,7,mymaster,10.0.0.1,6379,3'' sample = Ret t \<and>
    get_inst t 0 = Ret y' \<and>
    map_of (sentinels y') = (map_of (sentinels sample_master))(''cc'' \<mapsto> i) \<and> get_inst t i = Ret x \<and>
    fi_runid x = ''cc'' \<and> fi_addr x = \<lparr>sa_ip = ''10.0.0.9'', sa_port = 26379\<rparr> \<and>
    configEpoch y' = configEpoch sample_master \<and> currentEpoch t = max 0 7"
  using hello_new_effect [OF sample_hellos(1), of sample 0 sample_master blank_instance 99]
  by (simp add: sample_gets sample_plain fresh_sentinel_def omap_def fi_addFlags_def)

text \<open>
  A hello from a sentinel that the master knows under the same runid but another address never
  gets through: removing the old entry either runs past the end of the map or is announced by an
  event on the master, which dereferences the master's own, null, master.
\<close>

lemma hello_moved_faults:
  assumes "parse_hello msg = Some h" and "map_of (masters s) (h_master h) = Some m"
    and "get_inst s m = Ret y" "fi_flags y \<noteq> 0" "fi_master y = None"
    and "sentinels y = l @ (k, j) # l'" and "get_inst s j = Ret x" "fi_runid x = h_runid h"
    and "\<forall>(k, n) \<in> set (l @ l'). \<exists>z. get_inst s n = Ret z \<and> fi_runid z \<noteq> h_runid h"
    and "\<not> (sa_ip (fi_addr x) = h_ip h \<and> sa_port (fi_addr x) = h_port h)"
    and "plain_field (h_ip h)" "plain_field (h_runid h)"
  shows "\<not> is_ret (processHelloMessage raw now msg s)"
  using assms by (rule hello_moved_sentinel_faults)

text \<open>
  A hello from a sentinel that came back at a known address under a new runid never gets through
  either: invalidating the old address follows the link of the sentinel, and no code path gives an
  instance a link.
\<close>

lemma hello_restarted_stops:
  assumes "parse_hello msg = Some h" and "(k, m) \<in> set (masters s)" "map_of (masters s) (h_master h) = Some m"
    and "get_inst s m = Ret y"
    and "\<forall>(k, i) \<in> set (sentinels y). i \<noteq> m \<and> (\<exists>x. get_inst s i = Ret x \<and> fi_runid x \<noteq> h_runid h \<and>
      has_flag (fi_flags x) FSI_SENTINEL \<and> fi_master x = Some m \<and> plain_field (fi_runid x))"
    and "(k', a) \<in> set (sentinels y)" "get_inst s a = Ret x" "sa_ip (fi_addr x) = h_ip h" "sa_port (fi_addr x) = h_port h"
    and "no_links s" and "plain_field (h_ip h)" "plain_field (h_runid h)"
  shows "\<not> is_ret (processHelloMessage raw now msg s)"
  using assms by (rule hello_restarted_faults)

text \<open>
  The periodic work of an instance sends at most PING and PUBLISH, to that instance; INFO is
  never requested, whatever the refresh times, because its guard compares before it masks.
\<close>

lemma periodic_never_info:
  assumes "sendPeriodicCommands now sockName rv i s = Ret t"
  shows "\<exists>cs. sent t = sent s @ cs \<and> (\<forall>(j, c) \<in> set cs. j = i \<and> (c = [''PING''] \<or> hd c = ''PUBLISH''))"
  using assms by (rule periodic_sent)

text \<open>
  Tilt mode is entered when the timer was not called for more than two seconds, and when the
  clock went back by any amount up to half the range: the unsigned difference is never negative, but
  then it is huge. The time of the call is recorded either way, and nothing leaves tilt mode here.
\<close>

lemma tilt_mode:
  "\<exists>t. checkTiltCondition now s = Ret t \<and> previousTime t = now \<and>
     (tilt t \<longleftrightarrow> tilt s \<or>
        (if previousTime s \<le> now then unat now - unat (previousTime s) > 2000
         else unat (previousTime s) - unat now < 2 ^ 64 - 2000))"
  unfolding tilt_ok minus_2000 by simp

end
