(* ===== verification/SentinelInfo.thy ===== *)
theory SentinelInfo imports SentinelHelloFacts begin

text \<open>
  INFO replies: \<open>refreshInstanceInfo\<close> of src/src/flysentinel/FlySentinel.cpp, the line parsers
  it calls, the reactions to a changed role, and the commands that turn an instance into a slave.

  The line tests compare the whole line (\<open>line.compare(text)\<close>) where a prefix was meant.
  \<open>junk\<close> is what copying the uninitialised local \<open>std::string realhost = realhost\<close> gives.
\<close>

section \<open>Commands to an instance\<close>

definition setClientName :: "(string list \<Rightarrow> int) \<Rightarrow> string \<Rightarrow> iid \<Rightarrow> sentinel \<Rightarrow> sentinel res" where
  "setClientName rv type i s =
     (let name = take 63 (''sentinel-'' @ take 8 (c_str (myid s)) @ ''-'' @ c_str type);
          cmd = [''CLIENT'', ''SETNAME'', name];
          s = send_cmd i cmd s
      in if rv cmd \<noteq> 0
         then res_bind (get_inst s i) (\<lambda>x. res_bind (get_link s x) (\<lambda>_. Ret (upd_link x increasePendingCommands s)))
         else Ret s)"

text \<open>
  The commands of the transaction, one after the other until hiredis refuses one; the result is the
  int that \<open>sendSlaveOf\<close> returns as a bool.
\<close>

fun send_chain :: "(string list \<Rightarrow> int) \<Rightarrow> iid \<Rightarrow> string list list \<Rightarrow> sentinel \<Rightarrow> (sentinel \<times> int) res" where
  "send_chain rv i [] s = Ret (s, 1)"
| "send_chain rv i (c # cs) s =
     res_bind (get_inst s i) (\<lambda>x.
     res_bind (get_link s x) (\<lambda>_.
       let s = send_cmd i c s in
       if rv c < 0 then Ret (s, rv c) else send_chain rv i cs (upd_link x increasePendingCommands s)))"

definition slaveof_commands :: "string \<Rightarrow> string \<Rightarrow> string list list" where
  "slaveof_commands host portStr =
     [[''MULTI''], [''SLAVEOF'', c_str host, c_str portStr], [''CONFIG'', ''REWRITE''],
      [''CLIENT'', ''KILL'', ''TYPE'', ''normal''], [''EXEC'']]"

definition sendSlaveOf ::
  "string res \<Rightarrow> (string list \<Rightarrow> int) \<Rightarrow> iid \<Rightarrow> string \<Rightarrow> int \<Rightarrow> sentinel \<Rightarrow> (sentinel \<times> bool) res" where
  "sendSlaveOf junk rv i host port s =
     res_bind junk (\<lambda>realhost.
       let portStr = (if realhost = [] then ''ONE'' else int_dec port) in
       res_bind (send_chain rv i (slaveof_commands host portStr) s) (\<lambda>(s, retval). Ret (s, retval \<noteq> 0)))"

section \<open>Lines of an INFO reply\<close>

definition parseRunid :: "string \<Rightarrow> iid \<Rightarrow> sentinel \<Rightarrow> sentinel res" where
  "parseRunid line i s =
     res_bind (get_inst s i) (\<lambda>x.
       let newRunid = substr line 7 40 in
       if fi_runid x \<noteq> newRunid then
         res_bind (sendEvent LL_NOTICE ''+reboot'' (Some i) True [] s) (\<lambda>s.
           Ret (upd_inst i (\<lambda>x. x\<lparr>fi_runid := newRunid\<rparr>) s))
       else Ret s)"

text \<open>
  The pointers \<open>ip\<close> and \<open>portstr\<close> stay at the keys, so that the texts \<open>ip=\<close> and \<open>port=\<close>
  are part of the values, and the comma that ends the address is overwritten by a NUL before the
  port is searched behind it.
\<close>

definition parseSlaveIPAndPort ::
  "fly_instance \<Rightarrow> 64 word \<Rightarrow> string \<Rightarrow> iid \<Rightarrow> sentinel \<Rightarrow> sentinel res" where
  "parseSlaveIPAndPort raw now line i s =
     (let text = c_str line in
      case find_sub ''ip='' text of
        None \<Rightarrow> Ret s
      | Some a \<Rightarrow>
          let ip = takeWhile (\<lambda>c. c \<noteq> CHR '','') (drop a text) in
          (case find_sub ''port='' ip of
             None \<Rightarrow> Ret s
           | Some b \<Rightarrow>
               let portstr = drop b ip;
                   portstr = take 5 portstr @ takeWhile (\<lambda>c. c \<noteq> CHR '','') (drop 5 portstr);
                   port = atoi portstr in
               res_bind (get_inst s i) (\<lambda>x.
                 if lookupSlave ip port x \<noteq> None then
                   res_bind (createFlyInstance raw now [] FSI_SLAVE ip port (quorum x) (Some i) s) (\<lambda>(s, j).
                     sendEvent LL_NOTICE ''+slave'' (Some j) True [] s)
                 else Ret s)))"

text \<open>\<open>0 == getSlaveMasterPort() != port\<close> is \<open>(0 == port of record) != port\<close>.\<close>

definition slave_params :: "64 word \<Rightarrow> string \<Rightarrow> fly_instance \<Rightarrow> fly_instance" where
  "slave_params now line x =
     (if length line \<ge> 12 \<and> line = ''master_host:'' then
        let host = drop 12 line in
        if slaveMasterHost x = [] \<or> slaveMasterHost x = host then setSlaveMasterHost now host x else x
      else if length line \<ge> 12 \<and> line = ''master_port:'' then
        let port = atoi (drop 12 line) in
        if (if slaveMasterPort x = 0 then 1 else 0) \<noteq> port then setSlaveMasterPort now port x else x
      else if length line \<ge> 19 \<and> line = ''master_link_status'' then
        x\<lparr>slaveMasterLinkStatus := (if drop 19 (c_str line) = ''up'' then SENTINEL_MASTER_LINK_STATUS_UP
            else SENTINEL_MASTER_LINK_STATUS_DOWN)\<rparr>
      else
        let x = (if length line \<ge> 15 \<and> line = ''slave_priority:''
                 then x\<lparr>slavePriority := atoi (drop 15 line)\<rparr> else x)
        in if length line \<ge> 18 \<and> line = ''slave_repl_offset:''
           then x\<lparr>slaveReplOffset := word_of_int (atoi (drop 18 line))\<rparr> else x)"

definition parseSlaveRoleParams :: "64 word \<Rightarrow> string \<Rightarrow> iid \<Rightarrow> sentinel \<Rightarrow> sentinel res" where
  "parseSlaveRoleParams now line i s =
     res_bind (get_inst s i) (\<lambda>_. Ret (upd_inst i (slave_params now line) s))"

text \<open>One turn of the loop over the lines; the role is the local variable of that name.\<close>

definition info_line ::
  "fly_instance \<Rightarrow> 64 word \<Rightarrow> iid \<Rightarrow> string \<Rightarrow> sentinel \<times> flags \<Rightarrow> (sentinel \<times> flags) res" where
  "info_line raw now i line = (\<lambda>(s, role).
     res_bind (get_inst s i) (\<lambda>x.
       if length line \<ge> 47 \<and> find_sub ''runid:'' (c_str line) \<noteq> None
       then res_bind (parseRunid line i s) (\<lambda>s. Ret (s, role))
       else if has_flag (fi_flags x) FSI_MASTER \<and> length line \<ge> 7 \<and> line = ''slave'' \<and> is_digit (line ! 5)
       then res_bind (parseSlaveIPAndPort raw now line i s) (\<lambda>s. Ret (s, role))
       else if length line \<ge> 32 \<and> line = ''master_link_down_since_seconds''
       then Ret (upd_inst i (\<lambda>x. x\<lparr>masterLinkDownTime := word_of_int (atoi (drop 31 (c_str line)))\<rparr>) s, role)
       else if line = ''role:master'' then Ret (s, role OR FSI_MASTER)
       else if line = ''role:slave'' then Ret (s, role OR FSI_SLAVE)
       else if FSI_SLAVE = role then res_bind (parseSlaveRoleParams now line i s) (\<lambda>s. Ret (s, role))
       else Ret (s, role)))"

fun info_lines ::
  "fly_instance \<Rightarrow> 64 word \<Rightarrow> iid \<Rightarrow> string list \<Rightarrow> sentinel \<times> flags \<Rightarrow> (sentinel \<times> flags) res" where
  "info_lines raw now i [] sr = Ret sr"
| "info_lines raw now i (l # ls) sr = res_bind (info_line raw now i l sr) (info_lines raw now i ls)"

section \<open>Reactions\<close>

definition dealWithRoleFromSlaveToMaster ::
  "string res \<Rightarrow> 64 word \<Rightarrow> (string list \<Rightarrow> int) \<Rightarrow> iid \<Rightarrow> sentinel \<Rightarrow> sentinel res" where
  "dealWithRoleFromSlaveToMaster junk now rv i s =
     res_bind (get_inst s i) (\<lambda>x.
     res_bind (isPromotedSlave i s) (\<lambda>promoted.
       if promoted then
         (case fi_master x of
            None \<Rightarrow> Fault NullDeref
          | Some m \<Rightarrow>
              let s = upd_inst m (\<lambda>y. setFailoverState now SENTINEL_FAILOVER_STATE_RECONF_SLAVES
                        (y\<lparr>configEpoch := failoverEpoch y\<rparr>)) s in
              res_bind (sendEvent LL_WARNING ''+promoted-slave'' (Some i) True [] s) (\<lambda>s.
              res_bind (sendEvent LL_WARNING ''+failover-state-reconf-slaves'' (Some m) True [] s) (\<lambda>s.
              res_bind (get_inst s m) (\<lambda>y.
              res_bind (callClientReconfScript m SENTINEL_LEADER ''start'' (fi_addr y) (fi_addr x) s) (\<lambda>s.
              res_bind (forceHelloUpdate m s) (\<lambda>(s, n). Ret s))))))
       else if has_flag (fi_flags x) FSI_PROMOTED then Ret s
       else
         res_bind (deref s (fi_master x)) (\<lambda>y.
           let waitTime = SENTINEL_PUBLISH_PERIOD * 4 in
           if masterLookSane now y \<and> noDownFor now waitTime x \<and> now - scast (roleReported x) > waitTime then
             res_bind (sendSlaveOf junk rv i (sa_ip (fi_addr y)) (sa_port (fi_addr y)) s) (\<lambda>(s, ok).
               if ok then sendEvent LL_NOTICE ''+convert-to-slave'' (Some i) True [] s else Ret s)
           else Ret s)))"

definition dealWithReplFromDiffMasterAddr ::
  "string res \<Rightarrow> 64 word \<Rightarrow> (string list \<Rightarrow> int) \<Rightarrow> iid \<Rightarrow> sentinel \<Rightarrow> sentinel res" where
  "dealWithReplFromDiffMasterAddr junk now rv i s =
     res_bind (get_inst s i) (\<lambda>x.
     res_bind (deref s (fi_master x)) (\<lambda>y.
       let waitTime = failoverTimeout y in
       if masterLookSane now y \<and> noDownFor now waitTime x \<and> now - slaveConfChangeTime x > waitTime then
         res_bind (sendSlaveOf junk rv i (sa_ip (fi_addr y)) (sa_port (fi_addr y)) s) (\<lambda>(s, ok).
           if ok then sendEvent LL_NOTICE ''+fix-slave-config'' (Some i) True [] s else Ret s)
       else Ret s))"

text \<open>The first step of \<open>dealWithReconfig\<close>: the slave follows the promoted slave.\<close>

definition follows_promoted :: "sentinel \<Rightarrow> fly_instance \<Rightarrow> bool res" where
  "follows_promoted s x =
     (if has_flag (fi_flags x) FSI_RECONF_SENT then
        res_bind (deref s (fi_master x)) (\<lambda>y.
        res_bind (deref s (promotedSlave y)) (\<lambda>p.
          Ret (slaveMasterHost x = sa_ip (fi_addr p) \<and> slaveMasterPort x = sa_port (fi_addr p))))
      else Ret False)"

definition dealWithReconfig :: "iid \<Rightarrow> sentinel \<Rightarrow> sentinel res" where
  "dealWithReconfig i s =
     res_bind (get_inst s i) (\<lambda>x.
     res_bind (follows_promoted s x) (\<lambda>b.
     res_bind
       (if b then sendEvent LL_NOTICE ''+slave-reconf-inprog'' (Some i) True []
            (upd_inst i (\<lambda>x. fi_addFlags FSI_RECONF_INPROG (fi_delFlags FSI_RECONF_SENT x)) s)
        else Ret s) (\<lambda>s.
     res_bind (get_inst s i) (\<lambda>x.
       if has_flag (fi_flags x) FSI_RECONF_INPROG \<and> slaveMasterLinkStatus x = SENTINEL_MASTER_LINK_STATUS_UP
       then sendEvent LL_NOTICE ''+slave-reconf-done'' (Some i) True []
              (upd_inst i (\<lambda>x. fi_addFlags FSI_RECONF_DONE (fi_delFlags FSI_RECONF_INPROG x)) s)
       else Ret s))))"

section \<open>The whole reply\<close>

definition role_change :: "64 word \<Rightarrow> iid \<Rightarrow> flags \<Rightarrow> sentinel \<Rightarrow> sentinel res" where
  "role_change now i role s =
     res_bind (get_inst s i) (\<lambda>x.
       if role \<noteq> roleReported x then
         sendEvent LL_VERBOSE
           (if has_flag (fi_flags x) (FSI_SLAVE OR FSI_MASTER) then ''+role-changed'' else ''-role-changed'')
           (Some i) True
           ('' new reported role is '' @ (if role = FSI_MASTER then ''master'' else ''slave''))
           (upd_inst i (\<lambda>x. x\<lparr>roleReportedTime := now, roleReported := role,
              slaveConfChangeTime := (if FSI_SLAVE = role then now else slaveConfChangeTime x)\<rparr>) s)
       else Ret s)"

definition role_reactions ::
  "string res \<Rightarrow> 64 word \<Rightarrow> (string list \<Rightarrow> int) \<Rightarrow> iid \<Rightarrow> flags \<Rightarrow> sentinel \<Rightarrow> sentinel res" where
  "role_reactions junk now rv i role s =
     res_bind (get_inst s i) (\<lambda>x.
     res_bind (if has_flag (fi_flags x) FSI_SLAVE \<and> FSI_MASTER = role
               then dealWithRoleFromSlaveToMaster junk now rv i s else Ret s) (\<lambda>s.
     res_bind (get_inst s i) (\<lambda>x.
     res_bind (if has_flag (fi_flags x) FSI_SLAVE \<and> FSI_SLAVE = role
               then res_bind (deref s (fi_master x)) (\<lambda>y.
                      if slaveMasterPort x \<noteq> sa_port (fi_addr y) \<or> slaveMasterHost x \<noteq> sa_ip (fi_addr y)
                      then dealWithReplFromDiffMasterAddr junk now rv i s else Ret s)
               else Ret s) (\<lambda>s.
     res_bind (get_inst s i) (\<lambda>x.
       if has_flag (fi_flags x) FSI_SLAVE \<and> role = FSI_SLAVE
          \<and> has_flag (fi_flags x) (FSI_RECONF_SENT OR FSI_RECONF_INPROG)
       then dealWithReconfig i s else Ret s)))))"

definition refreshInstanceInfo ::
  "fly_instance \<Rightarrow> string res \<Rightarrow> 64 word \<Rightarrow> (string list \<Rightarrow> int) \<Rightarrow> iid \<Rightarrow> string \<Rightarrow> sentinel \<Rightarrow> sentinel res" where
  "refreshInstanceInfo raw junk now rv i info s =
     res_bind (get_inst s i) (\<lambda>_.
       let s = upd_inst i (\<lambda>x. x\<lparr>masterLinkDownTime := 0\<rparr>) s in
       (case spiltString info CRLF of
          None \<Rightarrow> Fault OutOfBounds
        | Some lines \<Rightarrow>
            res_bind (info_lines raw now i lines (s, 0)) (\<lambda>(s, role).
            let s = upd_inst i (\<lambda>x. x\<lparr>infoRefresh := now\<rparr>) s in
            res_bind (role_change now i role s) (\<lambda>s.
              if tilt s then Ret s else role_reactions junk now rv i role s))))"

definition sentinelInfoReplyCallback ::
  "fly_instance \<Rightarrow> string res \<Rightarrow> 64 word \<Rightarrow> (string list \<Rightarrow> int) \<Rightarrow> lid option \<Rightarrow> redis_reply option \<Rightarrow> iid \<Rightarrow>
   sentinel \<Rightarrow> sentinel res" where
  "sentinelInfoReplyCallback raw junk now rv data reply i s =
     (case (reply, data) of
        (Some r, Some l) \<Rightarrow>
          let s = upd_lid l increasePendingCommands s in
          (case r of
             RString t \<Rightarrow> refreshInstanceInfo raw junk now rv i (c_str t) s
           | _ \<Rightarrow> Ret s)
      | _ \<Rightarrow> Ret s)"

end
