(* ===== verification/SentinelInfoFacts.thy ===== *)
theory SentinelInfoFacts imports SentinelInfo begin

text \<open>
  What an INFO reply does: the lines that are recognised, the reactions that can happen, and the
  transaction that makes an instance a slave.
\<close>

section \<open>The transaction\<close>

lemma get_inst_send_cmd [simp]: "get_inst (send_cmd i c s) j = get_inst s j"
  by (simp add: send_cmd_def get_inst_def)

lemma get_inst_upd_link [simp]: "get_inst (upd_link x f s) j = get_inst s j"
  by (simp add: upd_link_def get_inst_def split: option.split)

lemma get_link_send_cmd [simp]: "get_link (send_cmd i c s) x = get_link s x"
  by (simp add: send_cmd_def get_link_def split: option.split)

lemma get_link_upd_link: "get_link s x = Ret l \<Longrightarrow> get_link (upd_link x f s) x = Ret (f l)"
  by (auto simp: upd_link_def get_link_def split: option.splits if_splits)

lemma upd_link_instances [simp]: "instances (upd_link x f s) = instances s"
  by (simp add: upd_link_def split: option.split)

lemma send_cmd_instances [simp]: "instances (send_cmd i c s) = instances s"
  by (simp add: send_cmd_def)

text \<open>The commands are handed over in order, up to and including the first one that is refused.\<close>

fun until_refused :: "(string list \<Rightarrow> int) \<Rightarrow> string list list \<Rightarrow> string list list" where
  "until_refused rv [] = []"
| "until_refused rv (c # cs) = (if rv c < 0 then [c] else c # until_refused rv cs)"

definition accepted :: "(string list \<Rightarrow> int) \<Rightarrow> string list list \<Rightarrow> nat" where
  "accepted rv cs = length (takeWhile (\<lambda>c. \<not> rv c < 0) cs)"

lemma send_chain_ok:
  assumes "get_inst s i = Ret x" and "get_link s x = Ret l"
  shows "\<exists>t r k. send_chain rv i cs s = Ret (t, r) \<and> r \<noteq> 0 \<and>
    sent t = sent s @ map (Pair i) (until_refused rv cs) \<and> instances t = instances s \<and>
    get_link t x = Ret k \<and> pendingCommands k = pendingCommands l + int (accepted rv cs)"
  using assms
proof (induction cs arbitrary: s l)
  case (Cons c cs)
  let ?s = "upd_link x increasePendingCommands (send_cmd i c s)"
  have l: "get_link ?s x = Ret (increasePendingCommands l)"
    by (rule get_link_upd_link) (simp add: Cons.prems)
  show ?case
  proof (cases "rv c < 0")
    case True
    then show ?thesis using Cons.prems by (simp add: accepted_def)
  next
    case False
    have "get_inst ?s i = Ret x" using Cons.prems by simp
    from Cons.IH [OF this l] False show ?thesis
      using Cons.prems by (auto simp: accepted_def increasePendingCommands_def)
  qed
qed (simp add: accepted_def)

lemma slaveof_ok:
  assumes "get_inst s i = Ret x" and "get_link s x = Ret l"
  shows "\<exists>t k. sendSlaveOf (Ret realhost) rv i host port s = Ret (t, True) \<and>
    sent t = sent s @ map (Pair i)
      (until_refused rv (slaveof_commands host (if realhost = [] then ''ONE'' else int_dec port))) \<and>
    get_link t x = Ret k \<and> pendingCommands k = pendingCommands l +
      int (accepted rv (slaveof_commands host (if realhost = [] then ''ONE'' else int_dec port)))"
  using send_chain_ok [OF assms, of rv "slaveof_commands host (if realhost = [] then ''ONE'' else int_dec port)"]
  by (auto simp: sendSlaveOf_def Let_def)

section \<open>Lines\<close>

definition info_keys :: "string list" where
  "info_keys = [''role:master'', ''role:slave'', ''master_host:'', ''master_port:'', ''slave_priority:'',
     ''slave_repl_offset:'']"

lemma too_short:
  "length line \<ge> 19 \<and> line = ''master_link_status'' \<longleftrightarrow> False"
  "length line \<ge> 32 \<and> line = ''master_link_down_since_seconds'' \<longleftrightarrow> False"
  "length line \<ge> 7 \<and> line = ''slave'' \<and> b \<longleftrightarrow> False"
  by force+

lemma slave_params_other:
  assumes "line \<notin> set info_keys"
  shows "slave_params now line x = x"
proof -
  have "line \<noteq> ''master_host:''" "line \<noteq> ''master_port:''" "line \<noteq> ''slave_priority:''"
    "line \<noteq> ''slave_repl_offset:''"
    using assms unfolding info_keys_def by force+
  then show ?thesis
    unfolding slave_params_def Let_def too_short(1) by (simp only: simp_thms if_False)
qed

lemma key_value_other:
  assumes "v \<noteq> []" and "k \<in> {''master_host:'', ''master_port:'', ''slave_priority:'',
      ''slave_repl_offset:'', ''master_link_status:'', ''master_link_down_since_seconds:'', ''slave0:''}"
  shows "k @ v \<notin> set info_keys"
proof -
  obtain c cs where "v = c # cs" using assms(1) by (cases v) auto
  then show ?thesis using assms(2) unfolding info_keys_def by (elim insertE emptyE) simp_all
qed

lemma info_line_other:
  assumes x: "get_inst s i = Ret x" and o: "line \<notin> set info_keys"
    and r: "length line < 47 \<or> find_sub ''runid:'' (c_str line) = None"
  shows "info_line raw now i line (s, role) = Ret (s, role)"
proof -
  have u: "upd_inst i (slave_params now line) s = s"
    by (rule upd_inst_same [OF x]) (rule slave_params_other [OF o])
  have "line \<noteq> ''role:master''" "line \<noteq> ''role:slave''" using o unfolding info_keys_def by force+
  moreover have "\<not> (length line \<ge> 47 \<and> find_sub ''runid:'' (c_str line) \<noteq> None)" using r by auto
  ultimately show ?thesis
    using x u unfolding info_line_def too_short parseSlaveRoleParams_def
    by (cases "FSI_SLAVE = role") (simp_all only: prod.case simp_thms if_False if_True res_bind.simps)
qed

text \<open>The role a reply reports.\<close>

fun reply_role :: "string list \<Rightarrow> flags \<Rightarrow> flags" where
  "reply_role [] role = role"
| "reply_role (l # ls) role =
     reply_role ls (if l = ''role:master'' then role OR FSI_MASTER
                    else if l = ''role:slave'' then role OR FSI_SLAVE else role)"

definition runid_line :: "string \<Rightarrow> bool" where
  "runid_line line \<longleftrightarrow> length line \<ge> 47 \<and> find_sub ''runid:'' (c_str line) \<noteq> None"

text \<open>The runid after a reply: of every line that is taken for a runid line the 40 bytes from the eighth on.\<close>

fun reply_runid :: "string list \<Rightarrow> string \<Rightarrow> string" where
  "reply_runid [] r = r"
| "reply_runid (l # ls) r = reply_runid ls (if runid_line l then substr l 7 40 else r)"

text \<open>What one line does to the instance.\<close>

definition line_effect :: "64 word \<Rightarrow> string \<Rightarrow> flags \<Rightarrow> fly_instance \<Rightarrow> fly_instance" where
  "line_effect now line role x =
     (if runid_line line then x\<lparr>fi_runid := substr line 7 40\<rparr>
      else if role = FSI_SLAVE \<and> line \<noteq> ''role:master'' \<and> line \<noteq> ''role:slave'' then slave_params now line x else x)"

fun lines_effect :: "64 word \<Rightarrow> string list \<Rightarrow> flags \<Rightarrow> fly_instance \<Rightarrow> fly_instance" where
  "lines_effect now [] role x = x"
| "lines_effect now (l # ls) role x =
     lines_effect now ls (reply_role [l] role) (line_effect now l role x)"

lemma upd_inst_comp: "upd_inst i f (upd_inst i g s) = upd_inst i (f \<circ> g) s"
  by (cases "instances s ! i") (simp_all add: upd_inst_def)

lemma upd_inst_id [simp]: "upd_inst i (\<lambda>x. x) s = s"
  by (simp add: upd_inst_def option.map_ident)

lemma info_line_role:
  "get_inst s i = Ret x \<Longrightarrow> info_line raw now i ''role:master'' (s, role) = Ret (s, role OR FSI_MASTER)"
  "get_inst s i = Ret x \<Longrightarrow> info_line raw now i ''role:slave'' (s, role) = Ret (s, role OR FSI_SLAVE)"
  by (simp_all add: info_line_def)

lemma role_lines [simp]: "\<not> runid_line ''role:master''" "\<not> runid_line ''role:slave''"
  by (simp_all add: runid_line_def)

lemma info_line_plain:
  assumes "get_inst s i = Ret x" "\<not> runid_line line" "line \<noteq> ''role:master''" "line \<noteq> ''role:slave''"
  shows "info_line raw now i line (s, role) =
    Ret (upd_inst i (line_effect now line role) s, role)"
proof -
  have "info_line raw now i line (s, role) =
    (if FSI_SLAVE = role then Ret (upd_inst i (slave_params now line) s, role) else Ret (s, role))"
    using assms unfolding info_line_def runid_line_def too_short parseSlaveRoleParams_def
    by (simp only: prod.case simp_thms if_False res_bind.simps if_cancel cong: if_cong)
  moreover have "line_effect now line role = (if FSI_SLAVE = role then slave_params now line else (\<lambda>x. x))"
    using assms(2,3,4) by (simp add: line_effect_def fun_eq_iff eq_commute)
  ultimately show ?thesis by (cases "FSI_SLAVE = role") simp_all
qed

text \<open>What a reply leaves alone outside the instance it is from: the events that are logged apart, everything.\<close>

definition same_but :: "iid \<Rightarrow> sentinel \<Rightarrow> sentinel \<Rightarrow> bool" where
  "same_but i s t \<longleftrightarrow> (\<forall>j. j \<noteq> i \<longrightarrow> get_inst t j = get_inst s j) \<and>
     sent t = sent s \<and> masters t = masters s \<and> tilt t = tilt s"

lemma same_but_trans: "same_but i s t \<Longrightarrow> same_but i t u \<Longrightarrow> same_but i s u"
  by (simp add: same_but_def)

lemma get_inst_other: "j \<noteq> i \<Longrightarrow> get_inst (upd_inst i f s) j = get_inst s j"
  by (simp add: get_inst_def upd_inst_def)

lemma same_but_upd: "same_but i s (upd_inst i f s)"
  by (simp add: same_but_def get_inst_other)

lemma same_heap_but: "same_heap s t \<Longrightarrow> same_but i s t"
  using same_heap_get [of s t] by (auto simp: same_but_def same_heap_def)

lemma sendEvent_quiet:
  assumes "get_inst s i = Ret x" "fi_master x = Some m" "get_inst s m = Ret y" "level \<noteq> LL_WARNING"
  shows "\<exists>t. sendEvent level type (Some i) True rest s = Ret t \<and> same_heap s t"
proof -
  have "\<exists>t. sendEvent level type (Some i) True rest s = Ret t"
    using assms by (cases "haveMaster x") (simp_all add: sendEvent_def event_prefix_def Let_def)
  then show ?thesis using sendEvent_same_heap by blast
qed

lemma info_line_runid:
  assumes x: "get_inst s i = Ret x" "fi_master x = Some m" "get_inst s m = Ret y" and r: "runid_line line"
  shows "\<exists>t. info_line raw now i line (s, role) = Ret (t, role) \<and>
    get_inst t i = Ret (line_effect now line role x) \<and> same_but i s t"
proof -
  have il: "info_line raw now i line (s, role) = res_bind (parseRunid line i s) (\<lambda>s. Ret (s, role))"
    using x(1) r unfolding info_line_def runid_line_def by simp
  show ?thesis
  proof (cases "fi_runid x = substr line 7 40")
    case True
    then show ?thesis using il x(1) r by (simp add: parseRunid_def line_effect_def same_but_def)
  next
    case False
    let ?f = "\<lambda>x. x\<lparr>fi_runid := substr line 7 40\<rparr>"
    obtain t where t: "sendEvent LL_NOTICE ''+reboot'' (Some i) True [] s = Ret t" "same_heap s t"
      using sendEvent_quiet [OF x] by blast
    have "get_inst t i = Ret x" using x(1) same_heap_get [OF t(2)] by simp
    then have "get_inst (upd_inst i ?f t) i = Ret (line_effect now line role x)"
      using get_inst_upd r by (simp add: line_effect_def)
    moreover have "info_line raw now i line (s, role) = Ret (upd_inst i ?f t, role)"
      using il x(1) False t(1) by (simp add: parseRunid_def)
    ultimately show ?thesis using same_but_trans [OF same_heap_but [OF t(2)] same_but_upd] by blast
  qed
qed

lemma info_line_effect:
  assumes x: "get_inst s i = Ret x" "fi_master x = Some m" "get_inst s m = Ret y"
  shows "\<exists>t. info_line raw now i line (s, role) = Ret (t, reply_role [line] role) \<and>
    get_inst t i = Ret (line_effect now line role x) \<and> same_but i s t"
proof (cases "runid_line line")
  case True
  then have "reply_role [line] role = role" using role_lines by auto
  with info_line_runid [OF x True] show ?thesis by metis
next
  case r: False
  consider "line = ''role:master'' \<or> line = ''role:slave''" | "line \<noteq> ''role:master''" "line \<noteq> ''role:slave''"
    by blast
  then show ?thesis
  proof cases
    case 1
    then have "line_effect now line role = (\<lambda>x. x)" by (auto simp: line_effect_def fun_eq_iff)
    then show ?thesis using info_line_role [OF x(1)] 1 x(1) by (auto simp: same_but_def)
  next
    case 2
    have "get_inst (upd_inst i (line_effect now line role) s) i = Ret (line_effect now line role x)"
      using get_inst_upd [OF x(1)] by simp
    then show ?thesis using info_line_plain [OF x(1) r 2] 2 same_but_upd by auto
  qed
qed

lemma slave_params_keeps [simp]:
  "fi_flags (slave_params now line x) = fi_flags x" "fi_master (slave_params now line x) = fi_master x"
  "roleReported (slave_params now line x) = roleReported x" "fi_runid (slave_params now line x) = fi_runid x"
  "masterLinkDownTime (slave_params now line x) = masterLinkDownTime x"
  "roleReportedTime (slave_params now line x) = roleReportedTime x"
  by (simp_all add: slave_params_def setSlaveMasterHost_def setSlaveMasterPort_def Let_def)

lemma line_effect_keeps [simp]:
  "fi_flags (line_effect now l role x) = fi_flags x" "fi_master (line_effect now l role x) = fi_master x"
  "roleReported (line_effect now l role x) = roleReported x"
  "masterLinkDownTime (line_effect now l role x) = masterLinkDownTime x"
  "roleReportedTime (line_effect now l role x) = roleReportedTime x"
  "fi_runid (line_effect now l role x) = (if runid_line l then substr l 7 40 else fi_runid x)"
  by (simp_all add: line_effect_def)

lemma lines_effect_keeps [simp]:
  "fi_flags (lines_effect now ls role x) = fi_flags x" "fi_master (lines_effect now ls role x) = fi_master x"
  "roleReported (lines_effect now ls role x) = roleReported x"
  "masterLinkDownTime (lines_effect now ls role x) = masterLinkDownTime x"
  "roleReportedTime (lines_effect now ls role x) = roleReportedTime x"
  "fi_runid (lines_effect now ls role x) = reply_runid ls (fi_runid x)"
  by (induction ls arbitrary: role x) simp_all

lemma info_lines_effect:
  assumes "get_inst s i = Ret x" "fi_master x = Some m" "get_inst s m = Ret y" "m \<noteq> i"
  shows "\<exists>t. info_lines raw now i ls (s, role) = Ret (t, reply_role ls role) \<and>
    get_inst t i = Ret (lines_effect now ls role x) \<and> same_but i s t"
  using assms
proof (induction ls arbitrary: s x role)
  case Nil
  then show ?case by (simp add: same_but_def)
next
  case (Cons l ls)
  obtain t where t: "info_line raw now i l (s, role) = Ret (t, reply_role [l] role)"
    "get_inst t i = Ret (line_effect now l role x)" "same_but i s t"
    using info_line_effect [OF Cons.prems(1-3)] by blast
  have "get_inst t m = Ret y" using t(3) Cons.prems(3,4) by (simp add: same_but_def)
  then obtain u where u: "info_lines raw now i ls (t, reply_role [l] role) = Ret (u, reply_role ls (reply_role [l] role))"
    "get_inst u i = Ret (lines_effect now ls (reply_role [l] role) (line_effect now l role x))" "same_but i t u"
    using Cons.IH [OF t(2)] Cons.prems(2,4) by fastforce
  then show ?case using t(1) same_but_trans [OF t(3) u(3)] by simp
qed

section \<open>Reactions\<close>

lemma no_conversion:
  assumes "get_inst s i = Ret x" "fi_master x = Some m" "get_inst s m = Ret y"
  shows "\<not> has_flag (fi_flags x) FSI_PROMOTED \<Longrightarrow> dealWithRoleFromSlaveToMaster junk now rv i s = Ret s"
    and "dealWithReplFromDiffMasterAddr junk now rv i s = Ret s"
  using assms
  by (simp_all add: dealWithRoleFromSlaveToMaster_def dealWithReplFromDiffMasterAddr_def isPromotedSlave_def
      masterLookSane_False Let_def)

text \<open>
  The report of a promoted slave: the event on its master dereferences the master's null master.
\<close>

lemma promoted_faults:
  assumes x: "get_inst s i = Ret x" "fi_master x = Some m" "m \<noteq> i" and y: "get_inst s m = Ret y" "fi_master y = None"
    and p: "has_flag (fi_flags x) FSI_PROMOTED" "has_flag (fi_flags y) FSI_FAILOVER_IN_PROGRESS"
      "failoverState y = SENTINEL_FAILOVER_STATE_WAIT_PROMOTION"
  shows "\<not> is_ret (dealWithRoleFromSlaveToMaster junk now rv i s)"
proof -
  let ?f = "\<lambda>y. setFailoverState now SENTINEL_FAILOVER_STATE_RECONF_SLAVES (y\<lparr>configEpoch := failoverEpoch y\<rparr>)"
  let ?s = "upd_inst m ?f s"
  have um: "get_inst ?s m = Ret (?f y)" using get_inst_upd [OF y(1)] by simp
  have fm: "fi_flags (?f y) \<noteq> 0" "fi_master (?f y) = None"
    using p(2) y(2) by (auto simp: setFailoverState_def has_flag_zero)
  have e: "\<not> is_ret (res_bind (sendEvent LL_WARNING ty (Some m) True [] t) g)" if "same_heap ?s t" for ty t g
    using sendEvent_master_faults [of t m "?f y"] um fm same_heap_get [OF that] by (simp add: not_ret_bind)
  have "\<not> is_ret (res_bind (sendEvent LL_WARNING ''+promoted-slave'' (Some i) True [] ?s) (\<lambda>s.
      res_bind (sendEvent LL_WARNING ty (Some m) True [] s) (g s)))" for ty g
  proof (cases "sendEvent LL_WARNING ''+promoted-slave'' (Some i) True [] ?s")
    case (Ret t)
    then have "same_heap ?s t" by (rule sendEvent_same_heap)
    from e [OF this] show ?thesis using Ret by simp
  qed simp
  then show ?thesis
    using x(1,2) y(1) p by (simp add: dealWithRoleFromSlaveToMaster_def isPromotedSlave_def Let_def)
qed

lemma role_change_ok:
  assumes x: "get_inst s i = Ret x" "fi_master x = Some m" "get_inst s m = Ret y" "m \<noteq> i"
  shows "\<exists>t x'. role_change now i role s = Ret t \<and> get_inst t i = Ret x' \<and> get_inst t m = Ret y \<and>
    fi_flags x' = fi_flags x \<and> fi_master x' = Some m \<and> roleReported x' = role \<and> infoRefresh x' = infoRefresh x \<and>
    fi_runid x' = fi_runid x \<and>
    masterLinkDownTime x' = masterLinkDownTime x \<and>
    roleReportedTime x' = (if role = roleReported x then roleReportedTime x else now) \<and>
    sent t = sent s \<and> tilt t = tilt s \<and> masters t = masters s"
proof (cases "role = roleReported x")
  case True
  then show ?thesis using x by (simp add: role_change_def)
next
  case False
  let ?f = "\<lambda>x. x\<lparr>roleReportedTime := now, roleReported := role,
    slaveConfChangeTime := (if FSI_SLAVE = role then now else slaveConfChangeTime x)\<rparr>"
  let ?s = "upd_inst i ?f s"
  have u: "get_inst ?s i = Ret (?f x)" "get_inst ?s m = Ret y" using get_inst_upd x by simp_all
  then obtain t where "sendEvent LL_VERBOSE ty (Some i) True r ?s = Ret t \<and> same_heap ?s t"
    if "ty = (if has_flag (fi_flags x) (FSI_SLAVE OR FSI_MASTER) then ''+role-changed'' else ''-role-changed'')"
      "r = '' new reported role is '' @ (if role = FSI_MASTER then ''master'' else ''slave'')" for ty r
    using sendEvent_quiet [OF u(1) _ u(2), of LL_VERBOSE] x(2) by auto
  note t = this [OF HOL.refl HOL.refl]
  then have "role_change now i role s = Ret t" using x False by (simp add: role_change_def)
  moreover have "get_inst t j = get_inst ?s j" for j using same_heap_get t by blast
  ultimately show ?thesis using u x False t by (auto simp: same_heap_def)
qed

lemma reactions_quiet:
  assumes x: "get_inst s i = Ret x" "fi_master x = Some m" "get_inst s m = Ret y"
    and f: "\<not> has_flag (fi_flags x) FSI_PROMOTED" "\<not> has_flag (fi_flags x) (FSI_RECONF_SENT OR FSI_RECONF_INPROG)"
  shows "role_reactions junk now rv i role s = Ret s"
proof -
  have "(if has_flag (fi_flags x) FSI_SLAVE \<and> FSI_MASTER = role
        then dealWithRoleFromSlaveToMaster junk now rv i s else Ret s) = Ret s"
    using no_conversion(1) [OF x f(1)] by simp
  moreover have "(if has_flag (fi_flags x) FSI_SLAVE \<and> FSI_SLAVE = role
        then res_bind (deref s (fi_master x)) (\<lambda>y.
          if slaveMasterPort x \<noteq> sa_port (fi_addr y) \<or> slaveMasterHost x \<noteq> sa_ip (fi_addr y)
          then dealWithReplFromDiffMasterAddr junk now rv i s else Ret s)
        else Ret s) = Ret s"
    using no_conversion(2) [OF x] x by simp
  ultimately show ?thesis using x(1) f(2) unfolding role_reactions_def by (simp only: res_bind.simps if_False simp_thms)
qed

text \<open>An INFO reply from a slave that takes no part in a failover.\<close>

lemma refresh_slave:
  assumes x: "get_inst s i = Ret x" "fi_master x = Some m" "get_inst s m = Ret y" "m \<noteq> i"
    and f: "\<not> has_flag (fi_flags x) FSI_PROMOTED" "\<not> has_flag (fi_flags x) (FSI_RECONF_SENT OR FSI_RECONF_INPROG)"
  shows "\<exists>t x'. refreshInstanceInfo raw junk now rv i info s = Ret t \<and> get_inst t i = Ret x' \<and>
    infoRefresh x' = now \<and> masterLinkDownTime x' = 0 \<and> roleReported x' = reply_role (tokens CRLF info) 0 \<and>
    roleReportedTime x' = (if roleReported x' = roleReported x then roleReportedTime x else now) \<and>
    fi_runid x' = reply_runid (tokens CRLF info) (fi_runid x) \<and>
    fi_flags x' = fi_flags x \<and> sent t = sent s \<and> masters t = masters s"
proof -
  let ?ls = "tokens CRLF info"
  let ?role = "reply_role ?ls 0"
  let ?s1 = "upd_inst i (\<lambda>x. x\<lparr>masterLinkDownTime := 0\<rparr>) s"
  let ?x2 = "lines_effect now ?ls 0 (x\<lparr>masterLinkDownTime := 0\<rparr>)"
  have s1: "get_inst ?s1 i = Ret (x\<lparr>masterLinkDownTime := 0\<rparr>)" "get_inst ?s1 m = Ret y"
    using get_inst_upd x by simp_all
  obtain s2 where s2: "info_lines raw now i ?ls (?s1, 0) = Ret (s2, ?role)" "get_inst s2 i = Ret ?x2" "same_but i ?s1 s2"
    using info_lines_effect [OF s1(1) _ s1(2) x(4), of raw now ?ls 0] x(2) by auto
  let ?s3 = "upd_inst i (\<lambda>x. x\<lparr>infoRefresh := now\<rparr>) s2"
  let ?x3 = "?x2\<lparr>infoRefresh := now\<rparr>"
  have s3: "get_inst ?s3 i = Ret ?x3" "get_inst ?s3 m = Ret y"
    using get_inst_upd [OF s2(2)] s1(2) s2(3) x(4) by (simp_all add: get_inst_other same_but_def)
  have k3: "sent ?s3 = sent s" "masters ?s3 = masters s" using s2(3) by (simp_all add: same_but_def)
  have m3: "fi_master ?x3 = Some m" using x(2) by simp
  obtain t x' where t: "role_change now i ?role ?s3 = Ret t" "get_inst t i = Ret x'" "get_inst t m = Ret y"
    "fi_flags x' = fi_flags ?x3" "fi_master x' = Some m" "roleReported x' = ?role" "infoRefresh x' = infoRefresh ?x3"
    "masterLinkDownTime x' = masterLinkDownTime ?x3" "fi_runid x' = fi_runid ?x3"
    "roleReportedTime x' = (if ?role = roleReported ?x3 then roleReportedTime ?x3 else now)"
    "sent t = sent ?s3" "masters t = masters ?s3"
    using role_change_ok [OF s3(1) m3 s3(2) x(4), of now ?role] by blast
  have "role_reactions junk now rv i ?role t = Ret t"
    using f t(4) by (intro reactions_quiet [OF t(2,5,3)]) simp_all
  then have "refreshInstanceInfo raw junk now rv i info s = Ret t"
    using x(1) t(1) s2(1) by (simp add: refreshInstanceInfo_def spiltString_tokens CRLF_def Let_def)
  then show ?thesis using t k3 by auto
qed

lemma reconfig_ok:
  assumes x: "get_inst s i = Ret x" "fi_master x = Some m" "m \<noteq> i" and y: "get_inst s m = Ret y" "promotedSlave y = Some p"
    and p: "get_inst s p = Ret z" and f: "has_flag (fi_flags x) FSI_RECONF_SENT" "\<not> has_flag (fi_flags x) FSI_RECONF_INPROG"
  shows "\<exists>t x'. dealWithReconfig i s = Ret t \<and> get_inst t i = Ret x' \<and>
    fi_flags x' =
     (if slaveMasterHost x = sa_ip (fi_addr z) \<and> slaveMasterPort x = sa_port (fi_addr z)
      then if slaveMasterLinkStatus x = SENTINEL_MASTER_LINK_STATUS_UP
           then (fi_flags x AND NOT FSI_RECONF_SENT OR FSI_RECONF_INPROG) AND NOT FSI_RECONF_INPROG OR FSI_RECONF_DONE
           else fi_flags x AND NOT FSI_RECONF_SENT OR FSI_RECONF_INPROG
      else fi_flags x)"
proof (cases "slaveMasterHost x = sa_ip (fi_addr z) \<and> slaveMasterPort x = sa_port (fi_addr z)")
  case False
  then have "follows_promoted s x = Ret False" using x y p by (auto simp: follows_promoted_def)
  then have "dealWithReconfig i s = Ret s" using x f by (simp add: dealWithReconfig_def)
  with False x show ?thesis by auto
next
  case True
  let ?f = "\<lambda>x. fi_addFlags FSI_RECONF_INPROG (fi_delFlags FSI_RECONF_SENT x)"
  let ?g = "\<lambda>x. fi_addFlags FSI_RECONF_DONE (fi_delFlags FSI_RECONF_INPROG x)"
  have u: "get_inst (upd_inst i ?f s) i = Ret (?f x)" "get_inst (upd_inst i ?f s) m = Ret y"
    using get_inst_upd x y by simp_all
  have fm: "fi_master (?f x) = Some m" using x(2) by (simp add: fi_addFlags_def fi_delFlags_def)
  obtain t where t: "sendEvent LL_NOTICE ''+slave-reconf-inprog'' (Some i) True [] (upd_inst i ?f s) = Ret t"
    "same_heap (upd_inst i ?f s) t"
    using sendEvent_quiet [OF u(1) fm u(2)] by blast
  have g: "get_inst t i = Ret (?f x)" "get_inst t m = Ret y" using u same_heap_get [OF t(2)] by simp_all
  have inprog: "has_flag (fi_flags (?f x)) FSI_RECONF_INPROG"
    by (simp add: fi_addFlags_def has_flag_or) (simp add: has_flag_def FSI_RECONF_INPROG_def)
  have st: "slaveMasterLinkStatus (?f x) = slaveMasterLinkStatus x" by (simp add: fi_addFlags_def fi_delFlags_def)
  have fl: "fi_flags (?f x) = fi_flags x AND NOT FSI_RECONF_SENT OR FSI_RECONF_INPROG"
    by (simp add: fi_addFlags_def fi_delFlags_def)
  have ds: "dealWithReconfig i s = res_bind (get_inst t i) (\<lambda>x.
       if has_flag (fi_flags x) FSI_RECONF_INPROG \<and> slaveMasterLinkStatus x = SENTINEL_MASTER_LINK_STATUS_UP
       then sendEvent LL_NOTICE ''+slave-reconf-done'' (Some i) True [] (upd_inst i ?g t) else Ret t)"
    using x y p f True t by (simp add: dealWithReconfig_def follows_promoted_def)
  show ?thesis
  proof (cases "slaveMasterLinkStatus x = SENTINEL_MASTER_LINK_STATUS_UP")
    case False
    then show ?thesis using ds g(1) st fl True by simp
  next
    case up: True
    have v: "get_inst (upd_inst i ?g t) i = Ret (?g (?f x))" "get_inst (upd_inst i ?g t) m = Ret y"
      using get_inst_upd g x(3) by simp_all
    have "fi_master (?g (?f x)) = Some m" using x(2) by (simp add: fi_addFlags_def fi_delFlags_def)
    then obtain t' where t': "sendEvent LL_NOTICE ''+slave-reconf-done'' (Some i) True [] (upd_inst i ?g t) = Ret t'"
      "same_heap (upd_inst i ?g t) t'"
      using sendEvent_quiet [OF v(1) _ v(2)] by blast
    have "get_inst t' i = Ret (?g (?f x))" using v same_heap_get [OF t'(2)] by simp
    moreover have "fi_flags (?g (?f x)) = fi_flags (?f x) AND NOT FSI_RECONF_INPROG OR FSI_RECONF_DONE"
      by (simp add: fi_addFlags_def fi_delFlags_def)
    moreover have "dealWithReconfig i s = Ret t'" using ds g(1) st inprog up t' by simp
    ultimately show ?thesis using True up fl by simp
  qed
qed

section \<open>Properties\<close>

text \<open>The slave of the sample state in a failover, with the promoted slave 4.\<close>

definition sample_failover :: sentinel where
  "sample_failover = sample\<lparr>instances :=
     [Some (sample_master\<lparr>fi_flags := FSI_MASTER OR FSI_FAILOVER_IN_PROGRESS, promotedSlave := Some 1,
        failoverState := SENTINEL_FAILOVER_STATE_WAIT_PROMOTION\<rparr>),
      Some ((sample_child FSI_SLAVE ''pp'' ''10.0.0.5'' 6379)\<lparr>fi_flags := FSI_SLAVE OR FSI_PROMOTED\<rparr>),
      Some ((sample_child FSI_SLAVE ''ss'' ''10.0.0.4'' 6379)\<lparr>fi_flags := FSI_SLAVE OR FSI_RECONF_SENT,
        slaveMasterHost := ''10.0.0.5'', slaveMasterPort := 6379\<rparr>)]\<rparr>"

lemma sample_failover_get:
  "get_inst sample_failover 0 = Ret (sample_master\<lparr>fi_flags := FSI_MASTER OR FSI_FAILOVER_IN_PROGRESS,
     promotedSlave := Some 1, failoverState := SENTINEL_FAILOVER_STATE_WAIT_PROMOTION\<rparr>)"
  "get_inst sample_failover 1 = Ret ((sample_child FSI_SLAVE ''pp'' ''10.0.0.5'' 6379)
     \<lparr>fi_flags := FSI_SLAVE OR FSI_PROMOTED\<rparr>)"
  "get_inst sample_failover 2 = Ret ((sample_child FSI_SLAVE ''ss'' ''10.0.0.4'' 6379)
     \<lparr>fi_flags := FSI_SLAVE OR FSI_RECONF_SENT, slaveMasterHost := ''10.0.0.5'', slaveMasterPort := 6379\<rparr>)"
  by (simp_all add: sample_failover_def get_inst_def)

lemma failover_flags:
  "has_flag (FSI_SLAVE OR FSI_PROMOTED) FSI_PROMOTED" "has_flag (FSI_SLAVE OR FSI_RECONF_SENT) FSI_RECONF_SENT"
  "has_flag (FSI_MASTER OR FSI_FAILOVER_IN_PROGRESS) FSI_FAILOVER_IN_PROGRESS"
  "\<not> has_flag (FSI_SLAVE OR FSI_RECONF_SENT) FSI_RECONF_INPROG" "\<not> has_flag FSI_SLAVE FSI_PROMOTED"
  "\<not> has_flag FSI_SLAVE (FSI_RECONF_SENT OR FSI_RECONF_INPROG)"
  by (simp_all add: has_flag_def fsi_defs)

text \<open>
  C30 An INFO reply from a slave that takes no part in a failover refreshes the record: the refresh
  time is now, the link-down time is zero, the reported role is the one of the role lines, its time
  changes exactly when the role does, and the runid is the one of the last line that is taken for a runid
  line (47 bytes or more with \<open>runid:\<close> anywhere in them). Nothing is sent, in or out of tilt mode: a slave
  that reports the wrong role or follows another master is never corrected.
\<close>

theorem info_reply_slave:
  assumes "get_inst s i = Ret x" "fi_master x = Some m" "get_inst s m = Ret y" "m \<noteq> i"
    and "\<not> has_flag (fi_flags x) FSI_PROMOTED" "\<not> has_flag (fi_flags x) (FSI_RECONF_SENT OR FSI_RECONF_INPROG)"
  shows "\<exists>t x'. refreshInstanceInfo raw junk now rv i info s = Ret t \<and> get_inst t i = Ret x' \<and>
    infoRefresh x' = now \<and> masterLinkDownTime x' = 0 \<and> roleReported x' = reply_role (tokens CRLF info) 0 \<and>
    roleReportedTime x' = (if roleReported x' = roleReported x then roleReportedTime x else now) \<and>
    fi_runid x' = reply_runid (tokens CRLF info) (fi_runid x) \<and>
    fi_flags x' = fi_flags x \<and> sent t = sent s \<and> masters t = masters s"
  using assms by (rule refresh_slave)

theorem info_reply_slave_witness:
  "\<exists>t x'. refreshInstanceInfo blank_instance (Ret []) 50 (\<lambda>_. 0) 3
      (''role:master'' @ CRLF @ ''runid:'' @ CHR '' '' # replicate 40 CHR ''a'') sample = Ret t \<and>
    get_inst t 3 = Ret x' \<and> infoRefresh x' = 50 \<and> masterLinkDownTime x' = 0 \<and> roleReported x' = FSI_MASTER \<and>
    fi_runid x' = replicate 40 CHR ''a'' \<and> sent t = sent sample"
proof -
  let ?l = "''runid:'' @ CHR '' '' # replicate 40 CHR ''a''"
  have t: "tokens CRLF (''role:master'' @ CRLF @ ?l) = [''role:master'', ?l]" by code_simp
  have r: "runid_line ?l" "substr ?l 7 40 = replicate 40 CHR ''a''" by code_simp+
  have "reply_role [''role:master'', ?l] 0 = FSI_MASTER" "reply_runid [''role:master'', ?l] rid = replicate 40 CHR ''a''" for rid
    using r by (simp_all only: reply_runid.simps role_lines if_True if_False) (simp_all add: FSI_MASTER_def)
  then show ?thesis
    using info_reply_slave [OF sample_gets(4) _ sample_gets(1), of blank_instance "Ret []" 50 "\<lambda>_. 0"
        "''role:master'' @ CRLF @ ?l"]
    unfolding t by (auto simp: failover_flags)
qed

text \<open>
  Of the lines redis sends with a value (master_host, master_port, slave_priority,
  slave_repl_offset, master_link_status, slave0, master_link_down_since_seconds) none has an effect,
  because whole lines are compared with the bare keys.
\<close>

lemma info_values_ignored:
  assumes "get_inst s i = Ret x" and "v \<noteq> []" and "length (k @ v) < 47"
    and "k \<in> {''master_host:'', ''master_port:'', ''slave_priority:'', ''slave_repl_offset:'',
      ''master_link_status:'', ''master_link_down_since_seconds:'', ''slave0:''}"
  shows "info_line raw now i (k @ v) (s, role) = Ret (s, role)"
  using info_line_other [OF assms(1) key_value_other [OF assms(2,4)]] assms(3) by simp

text \<open>
  The report that a promoted slave now is a master, which should finish the failover, stops the
  program: the second event is on the master and dereferences its null master.
\<close>

lemma promotion_stops:
  assumes "get_inst s i = Ret x" "fi_master x = Some m" "m \<noteq> i" and "get_inst s m = Ret y" "fi_master y = None"
    and "has_flag (fi_flags x) FSI_PROMOTED" "has_flag (fi_flags y) FSI_FAILOVER_IN_PROGRESS"
      "failoverState y = SENTINEL_FAILOVER_STATE_WAIT_PROMOTION"
  shows "\<not> is_ret (dealWithRoleFromSlaveToMaster junk now rv i s)"
  using assms by (rule promoted_faults)

text \<open>
  A slave that was told to follow the promoted slave advances from RECONF_SENT to RECONF_INPROG
  exactly when it reports that slave's address, and in the same call to RECONF_DONE when it also
  reports its master link up; otherwise its flags stay.
\<close>

lemma reconfig_progress:
  assumes "get_inst s i = Ret x" "fi_master x = Some m" "m \<noteq> i" and "get_inst s m = Ret y" "promotedSlave y = Some p"
    and "get_inst s p = Ret z" and "has_flag (fi_flags x) FSI_RECONF_SENT" "\<not> has_flag (fi_flags x) FSI_RECONF_INPROG"
  shows "\<exists>t x'. dealWithReconfig i s = Ret t \<and> get_inst t i = Ret x' \<and>
    fi_flags x' =
     (if slaveMasterHost x = sa_ip (fi_addr z) \<and> slaveMasterPort x = sa_port (fi_addr z)
      then if slaveMasterLinkStatus x = SENTINEL_MASTER_LINK_STATUS_UP
           then (fi_flags x AND NOT FSI_RECONF_SENT OR FSI_RECONF_INPROG) AND NOT FSI_RECONF_INPROG OR FSI_RECONF_DONE
           else fi_flags x AND NOT FSI_RECONF_SENT OR FSI_RECONF_INPROG
      else fi_flags x)"
  using assms by (rule reconfig_ok)

text \<open>
  Making an instance a slave hands hiredis MULTI, SLAVEOF, CONFIG REWRITE, CLIENT KILL and EXEC in
  this order, up to and including the first command that is refused, and counts the accepted ones as
  pending. The result is true in every case, since -1 is returned as a bool; and the port is replaced by
  ONE, but the host kept, when the uninitialised copy of the host happens to be empty.
\<close>

lemma slaveof_transaction:
  assumes "get_inst s i = Ret x" and "get_link s x = Ret l"
  shows "\<exists>t k. sendSlaveOf (Ret realhost) rv i host port s = Ret (t, True) \<and>
    sent t = sent s @ map (Pair i)
      (until_refused rv (slaveof_commands host (if realhost = [] then ''ONE'' else int_dec port))) \<and>
    get_link t x = Ret k \<and> pendingCommands k = pendingCommands l +
      int (accepted rv (slaveof_commands host (if realhost = [] then ''ONE'' else int_dec port)))"
  using assms by (rule slaveof_ok)

end
