(* ===== verification/BIO.thy ===== *)
theory BIO imports Prelude begin

text \<open>
  Background jobs (src/src/bio): for one job type the queue, the counter of pending jobs, the mutex and the
  two condition variables, shared by the main thread, which creates jobs, asks for the counter and waits for a step,
  and the worker. Each statement of \<open>createBackgroundJob\<close>, \<open>getPendingJobCount\<close>, \<open>waitStep\<close> and
  \<open>processBackgroundJobs\<close> that touches shared state is one step of its thread; a step is None while the
  thread is blocked. The types have separate queues, so one type is modelled at a time.
\<close>

section \<open>Jobs and threads\<close>

definition BIO_CLOSE_FILE :: nat where "BIO_CLOSE_FILE = 0"
definition BIO_AOF_FSYNC :: nat where "BIO_AOF_FSYNC = 1"
definition BIO_LAZY_FREE :: nat where "BIO_LAZY_FREE = 2"
definition BIO_NUM_OPS :: nat where "BIO_NUM_OPS = 3"
definition FLYDB_THREAD_STACK_SIZE :: "64 word" where "FLYDB_THREAD_STACK_SIZE = 1024 * 1024 * 4"

text \<open>Pointer arguments are their 64-bit values, 0 for null.\<close>

record bio_job =
  bj_time :: int
  bj_arg1 :: "64 word"
  bj_arg2 :: "64 word"
  bj_arg3 :: "64 word"

definition new_job :: "int \<Rightarrow> 64 word \<Rightarrow> 64 word \<Rightarrow> 64 word \<Rightarrow> bio_job" where
  "new_job t a b c = \<lparr>bj_time = t, bj_arg1 = a, bj_arg2 = b, bj_arg3 = c\<rparr>"

datatype bio_effect = CloseFd "64 word" | SyncFd "64 word" | ClearObjects "64 word" | ClearExpires "64 word"

definition run_job :: "nat \<Rightarrow> bio_job \<Rightarrow> bio_effect list" where
  "run_job ty j =
     (if ty = BIO_CLOSE_FILE then [CloseFd (bj_arg1 j)]
      else if ty = BIO_AOF_FSYNC then [SyncFd (bj_arg1 j)]
      else if ty = BIO_LAZY_FREE then
        (if bj_arg1 j \<noteq> 0 then [ClearObjects (bj_arg1 j)] else []) @
        (if bj_arg2 j \<noteq> 0 then [ClearExpires (bj_arg2 j)] else [])
      else [])"

datatype bio_thread = MainThread | WorkerThread

text \<open>Where the worker stands: not created, returned from its function, or at a statement of its loop.\<close>

datatype worker_pc =
    W_None | W_Start | W_Exited | W_Lock | W_Loop | W_Wait | W_Woken | W_Popped bio_job | W_Unlock bio_job
  | W_Run bio_job | W_Signal bio_job

datatype main_pc =
    M_Idle | M_Create bio_job | M_PushLock bio_job | M_Push bio_job | M_Count | M_Broadcast | M_PushUnlock
  | M_GetLock | M_GetRead | M_GetUnlock "64 word"
  | M_StepLock | M_StepRead | M_StepWait | M_StepWoken | M_StepReread | M_StepUnlock "64 word"

record bio =
  b_type :: nat
  b_mutex :: "bio_thread option"
  b_jobs :: "bio_job list"
  b_pending :: "64 word"
  b_worker :: worker_pc
  b_main :: main_pc
  b_result :: "64 word option"
  b_effects :: "bio_effect list"
  b_taken :: "bio_job list"
  b_submitted :: "bio_job list"

text \<open>\<open>init\<close>. The last three fields and \<open>b_result\<close> only record what happened.\<close>

definition bio_init :: "nat \<Rightarrow> bio" where
  "bio_init ty =
     \<lparr>b_type = ty, b_mutex = None, b_jobs = [], b_pending = 0, b_worker = W_None, b_main = M_Idle,
      b_result = None, b_effects = [], b_taken = [], b_submitted = []\<rparr>"

section \<open>The stack size\<close>

lemma double_word: "(n :: 64 word) < 2 ^ 63 \<Longrightarrow> unat (n * 2) = 2 * unat n"
  by (simp add: unat_word_ariths word_less_nat_alt)

function grow_stack :: "64 word \<Rightarrow> 64 word" where
  "grow_stack n = (if n \<noteq> 0 \<and> n < FLYDB_THREAD_STACK_SIZE then grow_stack (n * 2) else n)"
  by pat_completeness auto

termination
proof (relation "measure (\<lambda>n. unat FLYDB_THREAD_STACK_SIZE - unat n)", goal_cases)
  case (2 n)
  then have "unat n < 4194304" "0 < unat n"
    by (simp_all add: FLYDB_THREAD_STACK_SIZE_def word_less_nat_alt unat_gt_0)
  moreover from this have "unat (n * 2) = 2 * unat n"
    by (intro double_word) (simp add: word_less_nat_alt)
  ultimately show ?case by (simp add: FLYDB_THREAD_STACK_SIZE_def)
qed simp

declare grow_stack.simps [simp del]

text \<open>The size the thread attributes report, and the size set; the loop needs the zero test before it.\<close>

definition initStackSize :: "64 word \<Rightarrow> 64 word" where
  "initStackSize stackSize = grow_stack (if stackSize = 0 then 1 else stackSize)"

section \<open>The steps of the threads\<close>

text \<open>
  The argument of the thread is the type itself: the null pointer for type 0, for which the
  function returns at once.
\<close>

definition wake_worker :: "bio \<Rightarrow> bio" where
  "wake_worker s = (if b_worker s = W_Wait then s\<lparr>b_worker := W_Woken\<rparr> else s)"

definition wake_main :: "bio \<Rightarrow> bio" where
  "wake_main s = (if b_main s = M_StepWait then s\<lparr>b_main := M_StepWoken\<rparr> else s)"

definition processBackgroundJobs :: "bio \<Rightarrow> bio option" where
  "processBackgroundJobs s =
     (case b_worker s of
        W_None \<Rightarrow> None
      | W_Exited \<Rightarrow> None
      | W_Wait \<Rightarrow> None
      | W_Start \<Rightarrow>
          if b_type s = 0 \<or> b_type s \<ge> BIO_NUM_OPS then Some (s\<lparr>b_worker := W_Exited\<rparr>)
          else Some (s\<lparr>b_worker := W_Lock\<rparr>)
      | W_Lock \<Rightarrow>
          if b_mutex s = None then Some (s\<lparr>b_mutex := Some WorkerThread, b_worker := W_Loop\<rparr>) else None
      | W_Woken \<Rightarrow>
          if b_mutex s = None then Some (s\<lparr>b_mutex := Some WorkerThread, b_worker := W_Loop\<rparr>) else None
      | W_Loop \<Rightarrow>
          (case b_jobs s of
             [] \<Rightarrow> Some (s\<lparr>b_mutex := None, b_worker := W_Wait\<rparr>)
           | j # js \<Rightarrow> Some (s\<lparr>b_jobs := js, b_taken := b_taken s @ [j], b_worker := W_Popped j\<rparr>))
      | W_Popped j \<Rightarrow> Some (s\<lparr>b_pending := b_pending s - 1, b_worker := W_Unlock j\<rparr>)
      | W_Unlock j \<Rightarrow> Some (s\<lparr>b_mutex := None, b_worker := W_Run j\<rparr>)
      | W_Run j \<Rightarrow> Some (s\<lparr>b_effects := b_effects s @ run_job (b_type s) j, b_worker := W_Signal j\<rparr>)
      | W_Signal j \<Rightarrow> Some ((wake_main s)\<lparr>b_worker := W_Lock\<rparr>))"

definition lock_then :: "main_pc \<Rightarrow> bio \<Rightarrow> bio option" where
  "lock_then pc s =
     (if b_mutex s = None then Some (s\<lparr>b_mutex := Some MainThread, b_main := pc\<rparr>) else None)"

definition createBackgroundJob :: "bio \<Rightarrow> bio option" where
  "createBackgroundJob s =
     (case b_main s of
        M_Create j \<Rightarrow>
          Some (s\<lparr>b_worker := (if b_worker s = W_None then W_Start else b_worker s), b_main := M_PushLock j\<rparr>)
      | M_PushLock j \<Rightarrow> lock_then (M_Push j) s
      | M_Push j \<Rightarrow>
          Some (s\<lparr>b_jobs := b_jobs s @ [j], b_submitted := b_submitted s @ [j], b_main := M_Count\<rparr>)
      | M_Count \<Rightarrow> Some (s\<lparr>b_pending := b_pending s + 1, b_main := M_Broadcast\<rparr>)
      | M_Broadcast \<Rightarrow> Some ((wake_worker s)\<lparr>b_main := M_PushUnlock\<rparr>)
      | M_PushUnlock \<Rightarrow> Some (s\<lparr>b_mutex := None, b_main := M_Idle\<rparr>)
      | _ \<Rightarrow> None)"

definition getPendingJobCount :: "bio \<Rightarrow> bio option" where
  "getPendingJobCount s =
     (case b_main s of
        M_GetLock \<Rightarrow> lock_then M_GetRead s
      | M_GetRead \<Rightarrow> Some (s\<lparr>b_main := M_GetUnlock (b_pending s)\<rparr>)
      | M_GetUnlock n \<Rightarrow> Some (s\<lparr>b_mutex := None, b_main := M_Idle, b_result := Some n\<rparr>)
      | _ \<Rightarrow> None)"

definition waitStep :: "bio \<Rightarrow> bio option" where
  "waitStep s =
     (case b_main s of
        M_StepLock \<Rightarrow> lock_then M_StepRead s
      | M_StepRead \<Rightarrow>
          if b_pending s \<noteq> 0 then Some (s\<lparr>b_mutex := None, b_main := M_StepWait\<rparr>)
          else Some (s\<lparr>b_main := M_StepUnlock 0\<rparr>)
      | M_StepWoken \<Rightarrow> lock_then M_StepReread s
      | M_StepReread \<Rightarrow> Some (s\<lparr>b_main := M_StepUnlock (b_pending s)\<rparr>)
      | M_StepUnlock n \<Rightarrow> Some (s\<lparr>b_mutex := None, b_main := M_Idle, b_result := Some n\<rparr>)
      | _ \<Rightarrow> None)"

text \<open>
  A step of the system: the main thread calls an operation or goes on with the one it is in, the worker goes on,
  or one of them wakes up from its condition variable without a signal, as POSIX allows.
\<close>

inductive bio_step :: "bio \<Rightarrow> bio \<Rightarrow> bool" where
  call_create: "b_main s = M_Idle \<Longrightarrow> bio_step s (s\<lparr>b_main := M_Create (new_job t a b c)\<rparr>)"
| call_get: "b_main s = M_Idle \<Longrightarrow> bio_step s (s\<lparr>b_main := M_GetLock\<rparr>)"
| call_wait: "b_main s = M_Idle \<Longrightarrow> bio_step s (s\<lparr>b_main := M_StepLock\<rparr>)"
| main_create: "createBackgroundJob s = Some t \<Longrightarrow> bio_step s t"
| main_get: "getPendingJobCount s = Some t \<Longrightarrow> bio_step s t"
| main_wait: "waitStep s = Some t \<Longrightarrow> bio_step s t"
| worker: "processBackgroundJobs s = Some t \<Longrightarrow> bio_step s t"
| wakes_worker: "bio_step s (wake_worker s)"
| wakes_main: "bio_step s (wake_main s)"

inductive bio_reach :: "nat \<Rightarrow> bio \<Rightarrow> bool" for ty where
  start: "bio_reach ty (bio_init ty)"
| step: "bio_reach ty s \<Longrightarrow> bio_step s t \<Longrightarrow> bio_reach ty t"

text \<open>
  \<open>killThreads\<close> cancels the worker wherever it is, and \<open>killThread\<close> sends SIGUSR1, for which no
  handler is installed, to the thread: that ends the process.
\<close>

definition killThreads :: "bio \<Rightarrow> bio" where
  "killThreads s = (if b_worker s = W_None then s else s\<lparr>b_worker := W_Exited\<rparr>)"

definition killThread :: "bio \<Rightarrow> bio res" where
  "killThread s = (if b_worker s = W_None then Fault NullDeref else Fault ProcessExit)"

section \<open>The invariant\<close>

fun main_holds :: "main_pc \<Rightarrow> bool" where
  "main_holds M_Idle = False"
| "main_holds (M_Create j) = False"
| "main_holds (M_PushLock j) = False"
| "main_holds M_GetLock = False"
| "main_holds M_StepLock = False"
| "main_holds M_StepWait = False"
| "main_holds M_StepWoken = False"
| "main_holds _ = True"

fun worker_holds :: "worker_pc \<Rightarrow> bool" where
  "worker_holds W_Loop = True"
| "worker_holds (W_Popped j) = True"
| "worker_holds (W_Unlock j) = True"
| "worker_holds _ = False"

text \<open>The jobs the worker has taken and whose effect it has not had yet.\<close>

fun in_flight :: "worker_pc \<Rightarrow> bio_job list" where
  "in_flight (W_Popped j) = [j]"
| "in_flight (W_Unlock j) = [j]"
| "in_flight (W_Run j) = [j]"
| "in_flight _ = []"

definition uncounted :: "bio \<Rightarrow> 64 word" where
  "uncounted s = (if b_main s = M_Count then 1 else 0)"

definition overcounted :: "bio \<Rightarrow> 64 word" where
  "overcounted s = (case b_worker s of W_Popped j \<Rightarrow> 1 | _ \<Rightarrow> 0)"

definition bio_inv :: "bio \<Rightarrow> bool" where
  "bio_inv s \<longleftrightarrow>
     (b_mutex s = Some MainThread \<longleftrightarrow> main_holds (b_main s)) \<and>
     (b_mutex s = Some WorkerThread \<longleftrightarrow> worker_holds (b_worker s)) \<and>
     b_pending s + uncounted s = of_nat (length (b_jobs s)) + overcounted s \<and>
     b_submitted s = b_taken s @ b_jobs s \<and>
     (\<exists>ran. b_taken s = ran @ in_flight (b_worker s) \<and> b_effects s = concat (map (run_job (b_type s)) ran))"

lemmas bio_defs = bio_inv_def uncounted_def overcounted_def lock_then_def wake_worker_def wake_main_def

lemma bio_init_inv: "bio_inv (bio_init ty)"
  by (simp add: bio_defs bio_init_def)

lemma wake_worker_inv: "bio_inv s \<Longrightarrow> bio_inv (wake_worker s)"
  by (auto simp: bio_defs)

lemma wake_main_inv: "bio_inv s \<Longrightarrow> bio_inv (wake_main s)"
  by (auto simp: bio_defs)

lemma call_bio_inv: "bio_inv s \<Longrightarrow> b_main s = M_Idle \<Longrightarrow> \<not> main_holds pc \<Longrightarrow> pc \<noteq> M_Count \<Longrightarrow> bio_inv (s\<lparr>b_main := pc\<rparr>)"
  by (auto simp: bio_defs)

lemma create_inv:
  assumes "bio_inv s" and "createBackgroundJob s = Some t"
  shows "bio_inv t"
proof (cases "b_main s")
  case M_Broadcast
  then have "b_main (wake_worker s) = M_Broadcast" "t = (wake_worker s)\<lparr>b_main := M_PushUnlock\<rparr>"
    using assms(2) by (simp_all add: createBackgroundJob_def wake_worker_def)
  then show ?thesis
    using wake_worker_inv [OF assms(1)] by (auto simp: bio_inv_def uncounted_def overcounted_def)
next
  case (M_Create j)
  then show ?thesis
    using assms by (cases "b_worker s") (auto simp: bio_defs createBackgroundJob_def)
qed (use assms in \<open>auto simp: bio_defs createBackgroundJob_def split: if_splits\<close>)

lemma get_inv: "bio_inv s \<Longrightarrow> getPendingJobCount s = Some t \<Longrightarrow> bio_inv t"
  unfolding getPendingJobCount_def
  by (cases "b_main s") (auto simp: bio_defs split: if_splits)

lemma wait_inv: "bio_inv s \<Longrightarrow> waitStep s = Some t \<Longrightarrow> bio_inv t"
  unfolding waitStep_def
  by (cases "b_main s") (auto simp: bio_defs split: if_splits)

lemma worker_inv:
  assumes "bio_inv s" and "processBackgroundJobs s = Some t"
  shows "bio_inv t"
proof (cases "b_worker s")
  case W_Loop
  then show ?thesis
    using assms by (cases "b_jobs s") (auto simp: bio_defs processBackgroundJobs_def)
next
  case (W_Run j)
  then obtain ran where "b_taken s = ran @ [j]" "b_effects s = concat (map (run_job (b_type s)) ran)"
    using assms(1) by (auto simp: bio_inv_def)
  then have "b_taken t = (ran @ [j]) @ [] \<and> b_effects t = concat (map (run_job (b_type t)) (ran @ [j]))"
    using assms(2) W_Run by (auto simp: processBackgroundJobs_def)
  then show ?thesis
    using assms W_Run unfolding bio_inv_def
    by (auto simp: processBackgroundJobs_def uncounted_def overcounted_def)
qed (use assms in \<open>auto simp: bio_defs processBackgroundJobs_def split: if_splits\<close>)

lemma bio_step_inv: "bio_step s t \<Longrightarrow> bio_inv s \<Longrightarrow> bio_inv t"
  by (induction rule: bio_step.induct)
    (blast intro: create_inv get_inv wait_inv worker_inv wake_worker_inv wake_main_inv
      call_bio_inv [where pc = "M_Create j" for j, simplified] call_bio_inv [where pc = M_GetLock, simplified]
      call_bio_inv [where pc = M_StepLock, simplified])+

lemma type_kept:
  "createBackgroundJob s = Some t \<Longrightarrow> b_type t = b_type s"
  "getPendingJobCount s = Some t \<Longrightarrow> b_type t = b_type s"
  "waitStep s = Some t \<Longrightarrow> b_type t = b_type s"
  by (auto simp: createBackgroundJob_def getPendingJobCount_def waitStep_def lock_then_def wake_worker_def
      split: main_pc.splits if_splits)

lemma type_kept_worker: "processBackgroundJobs s = Some t \<Longrightarrow> b_type t = b_type s"
  by (cases "b_worker s"; cases "b_jobs s")
    (auto simp: processBackgroundJobs_def wake_main_def split: if_splits)

lemma bio_type_step: "bio_step s t \<Longrightarrow> b_type t = b_type s"
  by (induction rule: bio_step.induct)
    (auto simp: type_kept type_kept_worker wake_worker_def wake_main_def)

lemma bio_reach_inv: "bio_reach ty s \<Longrightarrow> bio_inv s \<and> b_type s = ty"
proof (induction rule: bio_reach.induct)
  case start
  then show ?case using bio_init_inv by (simp add: bio_init_def)
next
  case (step s t)
  then show ?case using bio_step_inv bio_type_step by blast
qed

text \<open>The thread of the close jobs.\<close>

definition idle_worker :: "bio \<Rightarrow> bool" where
  "idle_worker s \<longleftrightarrow> b_worker s \<in> {W_None, W_Start, W_Exited} \<and> b_taken s = [] \<and> b_effects s = []"

lemma idle_main:
  "createBackgroundJob s = Some t \<Longrightarrow> idle_worker s \<Longrightarrow> idle_worker t"
  "getPendingJobCount s = Some t \<Longrightarrow> idle_worker s \<Longrightarrow> idle_worker t"
  "waitStep s = Some t \<Longrightarrow> idle_worker s \<Longrightarrow> idle_worker t"
  by (auto simp: createBackgroundJob_def getPendingJobCount_def waitStep_def lock_then_def wake_worker_def
      idle_worker_def split: main_pc.splits if_splits)

lemma idle_step: "bio_step s t \<Longrightarrow> b_type s = 0 \<Longrightarrow> idle_worker s \<Longrightarrow> idle_worker t"
  by (induction rule: bio_step.induct)
    (auto simp: idle_main, auto simp: idle_worker_def processBackgroundJobs_def wake_worker_def wake_main_def)

lemma idle_reach: "bio_reach 0 s \<Longrightarrow> idle_worker s"
proof (induction rule: bio_reach.induct)
  case start
  then show ?case by (simp add: idle_worker_def bio_init_def)
next
  case (step s t)
  then show ?case using idle_step bio_reach_inv by blast
qed

lemma main_waits:
  "b_main s = M_StepWait \<Longrightarrow> createBackgroundJob s = None \<and> getPendingJobCount s = None \<and> waitStep s = None"
  by (simp add: createBackgroundJob_def getPendingJobCount_def waitStep_def)

lemma grow_stack_bounds:
  "n \<noteq> 0 \<Longrightarrow> FLYDB_THREAD_STACK_SIZE \<le> grow_stack n \<and>
     (n < FLYDB_THREAD_STACK_SIZE \<longrightarrow> grow_stack n < 2 * FLYDB_THREAD_STACK_SIZE) \<and>
     (\<exists>k. grow_stack n = n * 2 ^ k)"
proof (induction n rule: grow_stack.induct)
  case (1 n)
  show ?case
  proof (cases "n < FLYDB_THREAD_STACK_SIZE")
    case False
    then show ?thesis by (subst (1 2 3) grow_stack.simps) (auto intro: exI [of _ 0])
  next
    case True
    then have u: "unat n < 4194304" "0 < unat n"
      using "1.prems" by (simp_all add: FLYDB_THREAD_STACK_SIZE_def word_less_nat_alt unat_gt_0)
    have d: "unat (n * 2) = 2 * unat n" by (intro double_word) (use u in \<open>simp add: word_less_nat_alt\<close>)
    have nz: "n * 2 \<noteq> 0" using d u by (metis mult_is_0 neq0_conv unat_0 zero_neq_numeral)
    have lt: "n * 2 < 2 * FLYDB_THREAD_STACK_SIZE"
      using u d by (simp add: FLYDB_THREAD_STACK_SIZE_def word_less_nat_alt)
    have e: "grow_stack n = grow_stack (n * 2)"
      using True "1.prems" by (subst grow_stack.simps) simp
    have IH: "FLYDB_THREAD_STACK_SIZE \<le> grow_stack (n * 2) \<and>
       (n * 2 < FLYDB_THREAD_STACK_SIZE \<longrightarrow> grow_stack (n * 2) < 2 * FLYDB_THREAD_STACK_SIZE) \<and>
       (\<exists>k. grow_stack (n * 2) = n * 2 * 2 ^ k)"
      using "1.IH" True "1.prems" nz by blast
    have b: "grow_stack (n * 2) < 2 * FLYDB_THREAD_STACK_SIZE"
    proof (cases "n * 2 < FLYDB_THREAD_STACK_SIZE")
      case False
      then have "grow_stack (n * 2) = n * 2" by (subst grow_stack.simps) simp
      then show ?thesis using lt by simp
    qed (use IH in blast)
    obtain k where "grow_stack (n * 2) = n * 2 ^ Suc k"
      using IH by (auto simp: mult.assoc)
    then show ?thesis using IH b e by metis
  qed
qed

section \<open>A run\<close>

fun run_steps :: "(bio \<Rightarrow> bio option) list \<Rightarrow> bio \<Rightarrow> bio option" where
  "run_steps [] s = Some s"
| "run_steps (f # fs) s = Option.bind (f s) (run_steps fs)"

lemma run_steps_reach:
  "bio_reach ty s \<Longrightarrow> set fs \<subseteq> {createBackgroundJob, processBackgroundJobs} \<Longrightarrow> run_steps fs s = Some t \<Longrightarrow>
   bio_reach ty t"
proof (induction fs arbitrary: s)
  case (Cons f fs)
  then obtain u where u: "f s = Some u" "run_steps fs u = Some t"
    by (auto simp: bind_eq_Some_conv)
  have "bio_step s u"
    using Cons.prems(2) u(1) by (auto intro: bio_step.main_create bio_step.worker)
  then show ?case
    using Cons.IH [OF bio_reach.step [OF Cons.prems(1)]] Cons.prems(2) u(2) by simp
qed simp

definition submit_one :: "nat \<Rightarrow> bio option" where
  "submit_one ty =
     run_steps (replicate 6 createBackgroundJob) ((bio_init ty)\<lparr>b_main := M_Create (new_job 0 7 0 0)\<rparr>)"

definition run_one :: "nat \<Rightarrow> bio option" where
  "run_one ty = Option.bind (submit_one ty) (run_steps (replicate 6 processBackgroundJobs))"

lemma submit_one_reach: "submit_one ty = Some s \<Longrightarrow> bio_reach ty s"
  unfolding submit_one_def
  by (rule run_steps_reach [OF bio_reach.step [OF bio_reach.start bio_step.call_create]])
    (auto simp: bio_init_def)

lemma run_one_reach: "run_one ty = Some s \<Longrightarrow> bio_reach ty s"
  unfolding run_one_def
  by (auto simp: bind_eq_Some_conv dest!: submit_one_reach elim!: run_steps_reach)

lemma submit_one_close: "\<exists>s. submit_one 0 = Some s \<and> b_submitted s = [new_job 0 7 0 0]"
  by (simp add: submit_one_def numeral_eq_Suc createBackgroundJob_def bio_init_def lock_then_def wake_worker_def)

lemma run_one_sync: "\<exists>s. run_one 1 = Some s \<and> b_effects s = [SyncFd 7]"
  by (simp add: run_one_def submit_one_def numeral_eq_Suc createBackgroundJob_def processBackgroundJobs_def bio_init_def
      lock_then_def wake_worker_def BIO_NUM_OPS_def run_job_def BIO_CLOSE_FILE_def BIO_AOF_FSYNC_def new_job_def)

section \<open>Properties\<close>

text \<open>
  C18 The queue of background jobs is right under every interleaving of the main thread and the worker:
  whenever the mutex is free the counter that getPendingJobCount reads is the length of the queue, and
  the effects so far are those of a prefix of the submitted jobs, in order of submission, each run once; the
  rest is the job in hand and the queue.
\<close>

theorem bio_queue_invariant:
  assumes "bio_reach ty s"
  shows "(if b_mutex s = None then b_pending s = of_nat (length (b_jobs s)) else True) \<and>
    (\<exists>ran. b_submitted s = ran @ in_flight (b_worker s) @ b_jobs s \<and> b_effects s = concat (map (run_job ty) ran))"
proof -
  have inv: "bio_inv s" and ty: "b_type s = ty" using bio_reach_inv [OF assms] by auto
  have "b_pending s = of_nat (length (b_jobs s))" if "b_mutex s = None"
  proof -
    have "\<not> main_holds (b_main s)" "\<not> worker_holds (b_worker s)" using inv that by (auto simp: bio_inv_def)
    then have "uncounted s = 0" "overcounted s = 0"
      by (auto simp: uncounted_def overcounted_def split: worker_pc.splits)
    then show ?thesis using inv by (simp add: bio_inv_def)
  qed
  then show ?thesis using inv ty by (auto simp: bio_inv_def)
qed

theorem bio_queue_invariant_witness:
  "\<exists>(s :: bio) ran. b_effects s = [SyncFd 7] \<and> b_submitted s = ran @ in_flight (b_worker s) @ b_jobs s"
proof -
  obtain s where s: "run_one 1 = Some s" "b_effects s = [SyncFd 7]" using run_one_sync by blast
  obtain ran where "b_submitted s = ran @ in_flight (b_worker s) @ b_jobs s"
    using bio_queue_invariant [OF run_one_reach [OF s(1)]] by metis
  then show ?thesis using s(2) by (intro exI conjI)
qed

text \<open>
  C34 Deferred closing never happens: for the type BIO_CLOSE_FILE, whose number is 0, the worker takes its
  argument for a null pointer and returns, and the thread is never made again; in every reachable
  state all submitted jobs are still in the queue and nothing has been closed.
\<close>

theorem close_jobs_never_run:
  assumes "bio_reach BIO_CLOSE_FILE s"
  shows "b_effects s = [] \<and> b_jobs s = b_submitted s"
  using assms idle_reach [of s] bio_reach_inv [of 0 s]
  by (auto simp: BIO_CLOSE_FILE_def idle_worker_def bio_inv_def)

theorem close_jobs_never_run_witness:
  "\<exists>s :: bio. b_submitted s = [new_job 0 7 0 0] \<and> b_effects s = [] \<and> b_jobs s = b_submitted s"
proof -
  obtain s where s: "submit_one 0 = Some s" "b_submitted s = [new_job 0 7 0 0]" using submit_one_close by blast
  then have "bio_reach BIO_CLOSE_FILE s" using submit_one_reach by (simp add: BIO_CLOSE_FILE_def)
  then show ?thesis using close_jobs_never_run [of s] s(2) by (intro exI [of _ s]) simp
qed

text \<open>
  The stack of a background thread is at least 4 MB: the doubling loop ends for every size the system reports,
  zero included, within twice the wanted size when it starts below it, and leaves larger sizes alone; no
  doubling overflows.
\<close>

lemma stack_size_bounds:
  "if n < FLYDB_THREAD_STACK_SIZE
   then FLYDB_THREAD_STACK_SIZE \<le> initStackSize n \<and> initStackSize n < 2 * FLYDB_THREAD_STACK_SIZE \<and>
     (\<exists>k. initStackSize n = (if n = 0 then 1 else n) * 2 ^ k)
   else initStackSize n = n"
proof (cases "n < FLYDB_THREAD_STACK_SIZE")
  case True
  have "(if n = 0 then 1 else n) \<noteq> 0" "(if n = 0 then 1 else n) < FLYDB_THREAD_STACK_SIZE"
    using True by (auto simp: FLYDB_THREAD_STACK_SIZE_def)
  from grow_stack_bounds [OF this(1)] this(2) True show ?thesis
    unfolding initStackSize_def by (simp only: if_True simp_thms)
next
  case False
  then have "n \<noteq> 0" by (auto simp: FLYDB_THREAD_STACK_SIZE_def)
  then show ?thesis using False by (simp add: initStackSize_def grow_stack.simps [of n])
qed

end
