(* ===== verification/Support.thy ===== *)
theory Support imports Prelude begin

text \<open>
  Small helpers: byte order conversion in memory (src/src/utils/EndianConvTool.h), the guarded counters
  (src/src/atomic) and the boxes for objects (src/src/flyobj). Memory is a list of bytes from the pointer on.
\<close>

section \<open>Byte order\<close>

datatype byte_order = LittleEndian | BigEndian

definition memrev16 :: "8 word list \<Rightarrow> 8 word list" where
  "memrev16 x = (let t = x ! 0; x = x[0 := x ! 1] in x[1 := t])"

definition memrev32 :: "8 word list \<Rightarrow> 8 word list" where
  "memrev32 x =
     (let t = x ! 0; x = x[0 := x ! 3]; x = x[3 := t];
          t = x ! 1; x = x[1 := x ! 2] in x[2 := t])"

definition memrev64 :: "8 word list \<Rightarrow> 8 word list" where
  "memrev64 x =
     (let t = x ! 0; x = x[0 := x ! 7]; x = x[7 := t];
          t = x ! 1; x = x[1 := x ! 6]; x = x[6 := t];
          t = x ! 2; x = x[2 := x ! 5]; x = x[5 := t];
          t = x ! 3; x = x[3 := x ! 4] in x[4 := t])"

definition memrev16ifbe :: "byte_order \<Rightarrow> 8 word list \<Rightarrow> 8 word list" where
  "memrev16ifbe ord x = (if ord = BigEndian then memrev16 x else x)"

definition memrev32ifbe :: "byte_order \<Rightarrow> 8 word list \<Rightarrow> 8 word list" where
  "memrev32ifbe ord x = (if ord = BigEndian then memrev32 x else x)"

definition memrev64ifbe :: "byte_order \<Rightarrow> 8 word list \<Rightarrow> 8 word list" where
  "memrev64ifbe ord x = (if ord = BigEndian then memrev64 x else x)"

text \<open>How a machine of the given order lays a word out in memory, and what it reads back.\<close>

definition le_bytes :: "'a :: len word \<Rightarrow> 8 word list" where
  "le_bytes w = map (\<lambda>i. ucast (drop_bit (8 * i) w)) [0..<LENGTH('a) div 8]"

fun le_value :: "8 word list \<Rightarrow> 'a :: len word" where
  "le_value [] = 0"
| "le_value (b # bs) = ucast b OR push_bit 8 (le_value bs)"

definition bytes_of :: "byte_order \<Rightarrow> 'a :: len word \<Rightarrow> 8 word list" where
  "bytes_of ord w = (if ord = BigEndian then rev (le_bytes w) else le_bytes w)"

definition value_of :: "byte_order \<Rightarrow> 8 word list \<Rightarrow> 'a :: len word" where
  "value_of ord x = le_value (if ord = BigEndian then rev x else x)"

definition intrev16ifbe :: "byte_order \<Rightarrow> 16 word \<Rightarrow> 16 word" where
  "intrev16ifbe ord v = value_of ord (memrev16ifbe ord (bytes_of ord v))"

definition intrev32ifbe :: "byte_order \<Rightarrow> 32 word \<Rightarrow> 32 word" where
  "intrev32ifbe ord v = value_of ord (memrev32ifbe ord (bytes_of ord v))"

definition intrev64ifbe :: "byte_order \<Rightarrow> 64 word \<Rightarrow> 64 word" where
  "intrev64ifbe ord v = value_of ord (memrev64ifbe ord (bytes_of ord v))"

lemma memrev16_rev: "length x = 2 \<Longrightarrow> memrev16 x = rev x"
  by (auto simp: numeral_eq_Suc length_Suc_conv memrev16_def)

lemma memrev32_rev: "length x = 4 \<Longrightarrow> memrev32 x = rev x"
  by (auto simp: numeral_eq_Suc length_Suc_conv memrev32_def)

lemma memrev64_rev: "length x = 8 \<Longrightarrow> memrev64 x = rev x"
  by (auto simp: numeral_eq_Suc length_Suc_conv memrev64_def)

lemma length_le_bytes [simp]: "length (le_bytes (w :: 'a :: len word)) = LENGTH('a) div 8"
  by (simp add: le_bytes_def)

lemma bit_le_value:
  "bit (le_value bs :: 'a :: len word) n \<longleftrightarrow>
     n < LENGTH('a) \<and> n < 8 * length bs \<and> bit (bs ! (n div 8)) (n mod 8)"
proof (induction bs arbitrary: n)
  case Nil
  then show ?case by simp
next
  case (Cons b bs)
  show ?case
  proof (cases "n < 8")
    case True
    then show ?thesis by (auto simp: bit_simps)
  next
    case False
    then have "n div 8 = Suc ((n - 8) div 8)" "n mod 8 = (n - 8) mod 8"
      by (simp_all add: le_div_geq mod_if)
    then show ?thesis
      using False Cons.IH [of "n - 8"] bit_imp_le_length [of b n] by (auto simp: bit_simps)
  qed
qed

lemma bit_le_bytes:
  "i < LENGTH('a) div 8 \<Longrightarrow> bit (le_bytes (w :: 'a :: len word) ! i) k \<longleftrightarrow> k < 8 \<and> bit w (8 * i + k)"
  by (auto simp: le_bytes_def bit_simps)

lemma le_value_bytes:
  assumes "8 dvd LENGTH('a :: len)"
  shows "le_value (le_bytes (w :: 'a word)) = w"
proof (rule bit_word_eqI)
  fix n assume n: "n < LENGTH('a)"
  then have "n div 8 < LENGTH('a) div 8" using assms by (simp add: div_less_iff_less_mult)
  then show "bit (le_value (le_bytes w) :: 'a word) n \<longleftrightarrow> bit w n"
    using n assms by (simp add: bit_le_value bit_le_bytes)
qed

lemma le_bytes_value:
  assumes "length x * 8 = LENGTH('a :: len)"
  shows "le_bytes (le_value x :: 'a word) = x"
proof (rule nth_equalityI)
  show len: "length (le_bytes (le_value x :: 'a word)) = length x" by (simp add: assms [symmetric])
  fix i assume "i < length (le_bytes (le_value x :: 'a word))"
  then have i: "i < length x" "i < LENGTH('a) div 8" using len by simp_all
  show "le_bytes (le_value x :: 'a word) ! i = x ! i"
  proof (rule bit_word_eqI)
    fix k assume "k < LENGTH(8)"
    then have k: "k < 8" by simp
    then have "8 * i + k < 8 * length x" "(8 * i + k) div 8 = i" "(8 * i + k) mod 8 = k"
      using i by auto
    then show "bit (le_bytes (le_value x :: 'a word) ! i) k \<longleftrightarrow> bit (x ! i) k"
      using i(2) k assms by (simp add: bit_le_bytes bit_le_value)
  qed
qed

lemma value_of_bytes: "8 dvd LENGTH('a :: len) \<Longrightarrow> value_of ord (bytes_of ord (w :: 'a word)) = w"
  by (simp add: value_of_def bytes_of_def le_value_bytes)

section \<open>Guarded counters\<close>

text \<open>A variable with its mutex, used by one thread; locking a mutex one holds never returns (None).\<close>

record guarded =
  g_locked :: bool
  g_var :: "64 word"

definition g_lock :: "guarded \<Rightarrow> guarded option" where
  "g_lock g = (if g_locked g then None else Some (g\<lparr>g_locked := True\<rparr>))"

definition g_unlock :: "guarded \<Rightarrow> guarded" where
  "g_unlock g = g\<lparr>g_locked := False\<rparr>"

definition atomicIncr :: "64 word \<Rightarrow> guarded \<Rightarrow> guarded option" where
  "atomicIncr n g = map_option (\<lambda>g. g_unlock (g\<lparr>g_var := g_var g + n\<rparr>)) (g_lock g)"

definition atomicGetIncr :: "64 word \<Rightarrow> guarded \<Rightarrow> (64 word \<times> guarded) option" where
  "atomicGetIncr n g = map_option (\<lambda>g. (g_var g, g_unlock (g\<lparr>g_var := g_var g + n\<rparr>))) (g_lock g)"

text \<open>The decrement locks where it should unlock.\<close>

definition atomicDecr :: "64 word \<Rightarrow> guarded \<Rightarrow> guarded option" where
  "atomicDecr n g = Option.bind (g_lock g) (\<lambda>g. g_lock (g\<lparr>g_var := g_var g - n\<rparr>))"

lemma atomicDecr_blocks: "atomicDecr n g = None"
  by (simp add: atomicDecr_def g_lock_def)

lemma atomicGetIncr_fresh:
  "\<not> g_locked g \<Longrightarrow> atomicGetIncr n g = Some (g_var g, g\<lparr>g_var := g_var g + n\<rparr>)"
  by (cases g) (simp add: atomicGetIncr_def g_lock_def g_unlock_def)

section \<open>Boxes\<close>

datatype fly_obj_type = FLY_TYPE_STRING | FLY_TYPE_LIST | FLY_TYPE_SKIPLIST | FLY_TYPE_HASH | FLY_TYPE_SET

text \<open>A pointer is the value it points to, None a null pointer; the LRU clock is uninitialised.\<close>

record fly_obj =
  fo_type :: fly_obj_type
  fo_ptr :: "string option"
  fo_lru :: "64 word"

definition new_fly_obj :: "64 word \<Rightarrow> string option \<Rightarrow> fly_obj_type \<Rightarrow> fly_obj" where
  "new_fly_obj junk p t = \<lparr>fo_type = t, fo_ptr = p, fo_lru = junk\<rparr>"

definition new_fly_string :: "64 word \<Rightarrow> fly_obj_type \<Rightarrow> fly_obj" where
  "new_fly_string junk t = new_fly_obj junk (Some []) t"

definition getObject :: "64 word \<Rightarrow> fly_obj" where
  "getObject junk = new_fly_string junk FLY_TYPE_STRING"

definition getObjectPtr :: "64 word \<Rightarrow> string option \<Rightarrow> fly_obj" where
  "getObjectPtr junk p = new_fly_obj junk p FLY_TYPE_STRING"

section \<open>Properties\<close>

text \<open>
  C27 Converted integers have the same bytes on every machine: what intrev16ifbe, intrev32ifbe and
  intrev64ifbe return is stored least significant byte first, whatever the order of the machine, and
  converting twice gives the value back.
\<close>

theorem endian_storage:
  "bytes_of ord (intrev16ifbe ord v) = le_bytes v \<and>
   bytes_of ord (intrev32ifbe ord w) = le_bytes w \<and>
   bytes_of ord (intrev64ifbe ord x) = le_bytes x \<and>
   intrev16ifbe ord (intrev16ifbe ord v) = v \<and> intrev32ifbe ord (intrev32ifbe ord w) = w \<and>
   intrev64ifbe ord (intrev64ifbe ord x) = x"
proof (cases ord)
  case LittleEndian
  then show ?thesis
    by (simp add: intrev16ifbe_def intrev32ifbe_def intrev64ifbe_def memrev16ifbe_def memrev32ifbe_def
        memrev64ifbe_def value_of_bytes) (simp add: bytes_of_def)
next
  case BigEndian
  then show ?thesis
    by (simp add: intrev16ifbe_def intrev32ifbe_def intrev64ifbe_def memrev16ifbe_def memrev32ifbe_def
        memrev64ifbe_def bytes_of_def value_of_def memrev16_rev memrev32_rev memrev64_rev le_bytes_value
        le_value_bytes)
qed

end
