(* ===== verification/SkipList.thy ===== *)
theory SkipList imports Prelude begin

text \<open>
  The skip list (src/src/datastructure/skiplist): nodes at addresses of a heap, the header at address 0, each
  with its links and spans per level. Scores are of a linear order with zero (doubles without NaN),
  objects of a linear order. The links of a node are a function of the level: the vector has 32 entries and no
  operation goes above level 31. Following the links of one level is done with fuel: a walk that takes
  more steps than there have been nodes has met one twice and goes on for ever, the fault \<open>EndlessLoop\<close>.
\<close>

definition SKIP_LIST_MAX_LEVEL :: nat where "SKIP_LIST_MAX_LEVEL = 32"

record ('s, 'a) sl_node =
  nd_obj :: 'a
  nd_score :: 's
  nd_next :: "nat \<Rightarrow> nat option"
  nd_span :: "nat \<Rightarrow> 32 word"
  nd_prev :: "nat option"

record 's score_range =
  rg_min :: 's
  rg_max :: 's
  rg_minex :: bool
  rg_maxex :: bool

record ('s, 'a) skiplist =
  sl_heap :: "nat \<Rightarrow> ('s, 'a) sl_node option"
  sl_fresh :: nat
  sl_tail :: nat
  sl_length :: "32 word"
  sl_level :: nat

definition new_sl_node :: "'a \<Rightarrow> 's \<Rightarrow> ('s, 'a) sl_node" where
  "new_sl_node obj score =
     \<lparr>nd_obj = obj, nd_score = score, nd_next = (\<lambda>l. None), nd_span = (\<lambda>l. 0), nd_prev = None\<rparr>"

definition new_skiplist :: "'a \<Rightarrow> ('s :: zero, 'a) skiplist" where
  "new_skiplist nullobj =
     \<lparr>sl_heap = (\<lambda>a. None)(0 := Some (new_sl_node nullobj 0)), sl_fresh = 1, sl_tail = 0, sl_length = 0, sl_level = 1\<rparr>"

section \<open>Nodes and ranges\<close>

definition scoreLtRange :: "('s :: linorder, 'a) sl_node \<Rightarrow> 's score_range \<Rightarrow> bool" where
  "scoreLtRange n r = (if rg_minex r then nd_score n \<le> rg_min r else nd_score n < rg_min r)"

definition scoreGtRange :: "('s :: linorder, 'a) sl_node \<Rightarrow> 's score_range \<Rightarrow> bool" where
  "scoreGtRange n r = (if rg_maxex r then nd_score n \<ge> rg_max r else nd_score n > rg_max r)"

definition scoreInRange :: "('s :: linorder, 'a) sl_node \<Rightarrow> 's score_range \<Rightarrow> bool" where
  "scoreInRange n r \<longleftrightarrow> \<not> scoreLtRange n r \<and> \<not> scoreGtRange n r"

definition sl_at :: "('s, 'a) skiplist \<Rightarrow> nat \<Rightarrow> ('s, 'a) sl_node res" where
  "sl_at s a = (case sl_heap s a of None \<Rightarrow> Fault UseAfterFree | Some n \<Rightarrow> Ret n)"

definition upd_node :: "nat \<Rightarrow> (('s, 'a) sl_node \<Rightarrow> ('s, 'a) sl_node) \<Rightarrow> ('s, 'a) skiplist \<Rightarrow> ('s, 'a) skiplist" where
  "upd_node a f s = s\<lparr>sl_heap := (sl_heap s)(a := map_option f (sl_heap s a))\<rparr>"

definition set_next :: "nat \<Rightarrow> nat option \<Rightarrow> ('s, 'a) sl_node \<Rightarrow> ('s, 'a) sl_node" where
  "set_next l x n = n\<lparr>nd_next := (nd_next n)(l := x)\<rparr>"

definition set_span :: "nat \<Rightarrow> 32 word \<Rightarrow> ('s, 'a) sl_node \<Rightarrow> ('s, 'a) sl_node" where
  "set_span l x n = n\<lparr>nd_span := (nd_span n)(l := x)\<rparr>"

definition setPrevious :: "nat option \<Rightarrow> ('s, 'a) sl_node \<Rightarrow> ('s, 'a) sl_node" where
  "setPrevious p n = n\<lparr>nd_prev := p\<rparr>"

section \<open>Levels and insertion\<close>

text \<open>
  \<open>1 << 31\<close> is computed in int and converted: 2 ^ 31. The loop halves \<open>num\<close> to 0; its argument here is
  the random number.
\<close>

function level_loop :: "nat \<Rightarrow> nat \<Rightarrow> nat \<Rightarrow> nat" where
  "level_loop randNum num pw =
     (if num \<ge> 1 then if randNum > num then pw else level_loop randNum (num div 2) (pw + 1) else pw)"
  by pat_completeness auto
termination
  by (relation "measure (\<lambda>(r, n, p). n)") auto

declare level_loop.simps [simp del]

definition randomLevel :: "nat \<Rightarrow> nat" where
  "randomLevel rand = level_loop (rand mod 2 ^ (SKIP_LIST_MAX_LEVEL - 1)) (2 ^ (SKIP_LIST_MAX_LEVEL - 1)) 0"

definition before :: "('s :: linorder, 'a :: linorder) sl_node \<Rightarrow> 's \<Rightarrow> 'a \<Rightarrow> bool" where
  "before n score obj \<longleftrightarrow> nd_score n < score \<or> nd_score n = score \<and> nd_obj n < obj"

fun walk ::
  "nat \<Rightarrow> ('s :: linorder, 'a :: linorder) skiplist \<Rightarrow> nat \<Rightarrow> 's \<Rightarrow> 'a \<Rightarrow> nat \<Rightarrow> 32 word \<Rightarrow> (nat \<times> 32 word) res" where
  "walk 0 s i score obj tmp rank = Fault EndlessLoop"
| "walk (Suc f) s i score obj tmp rank =
     res_bind (sl_at s tmp) (\<lambda>t.
       case nd_next t i of
         None \<Rightarrow> Ret (tmp, rank)
       | Some n \<Rightarrow>
           res_bind (sl_at s n) (\<lambda>nn.
             if before nn score obj then walk f s i score obj n (rank + nd_span t i) else Ret (tmp, rank)))"

text \<open>The search goes down the levels; the result lists \<open>forwards\<close> with \<open>rank\<close> from level 0 on.\<close>

fun search ::
  "('s :: linorder, 'a :: linorder) skiplist \<Rightarrow> 's \<Rightarrow> 'a \<Rightarrow> nat \<Rightarrow> nat \<Rightarrow> 32 word \<Rightarrow> (nat \<times> 32 word) list res" where
  "search s score obj 0 tmp rank = Ret []"
| "search s score obj (Suc i) tmp rank =
     res_bind (walk (Suc (sl_fresh s)) s i score obj tmp rank) (\<lambda>(t, r).
     res_bind (search s score obj i t r) (\<lambda>fs. Ret (fs @ [(t, r)])))"

definition link_level :: "nat \<Rightarrow> (nat \<times> 32 word) list \<Rightarrow> nat \<Rightarrow> ('s, 'a) skiplist \<Rightarrow> ('s, 'a) skiplist" where
  "link_level x fs i s =
     (let (fw, rk) = fs ! i; rank0 = snd (fs ! 0) in
      case sl_heap s fw of
        None \<Rightarrow> s
      | Some f \<Rightarrow>
          upd_node fw (set_span i (rank0 - rk + 1))
            (upd_node x (set_span i (nd_span f i - (rank0 - rk)))
              (upd_node fw (set_next i (Some x)) (upd_node x (set_next i (nd_next f i)) s))))"

definition stretch_level :: "(nat \<times> 32 word) list \<Rightarrow> nat \<Rightarrow> ('s, 'a) skiplist \<Rightarrow> ('s, 'a) skiplist" where
  "stretch_level fs i s =
     upd_node (fst (fs ! i)) (\<lambda>f. if nd_next f i \<noteq> None then set_span i (nd_span f i + 1) f else f) s"

definition insertNode ::
  "nat \<Rightarrow> 's :: linorder \<Rightarrow> 'a :: linorder \<Rightarrow> ('s, 'a) skiplist \<Rightarrow> ('s, 'a) skiplist res" where
  "insertNode rand score obj s =
     (let randLevel = randomLevel rand; finalLevel = max randLevel (sl_level s) in
      res_bind (search s score obj finalLevel 0 0) (\<lambda>found.
        let fs = take (sl_level s) found @ replicate (randLevel - sl_level s) (0, 0);
            rank0 = snd (fs ! 0);
            s = fold (\<lambda>i. upd_node 0 (set_span i rank0)) [sl_level s..<randLevel] s;
            x = sl_fresh s; f0 = fst (fs ! 0);
            node = setPrevious (if f0 = 0 then None else Some f0) (new_sl_node obj score);
            s = s\<lparr>sl_heap := (sl_heap s)(x := Some node), sl_fresh := x + 1\<rparr> in
        res_bind (sl_at s f0) (\<lambda>f.
          let s = (case nd_next f 0 of
                     None \<Rightarrow> s\<lparr>sl_tail := x\<rparr>
                   | Some n \<Rightarrow> upd_node n (setPrevious (Some x)) s);
              s = fold (link_level x fs) [0..<randLevel] s;
              s = fold (stretch_level fs) [randLevel..<sl_level s] s
          in Ret (s\<lparr>sl_level := finalLevel, sl_length := sl_length s + 1\<rparr>))))"

definition insertObj ::
  "nat \<Rightarrow> 'a :: linorder \<Rightarrow> ('s :: {linorder, zero}, 'a) skiplist \<Rightarrow> ('s, 'a) skiplist res" where
  "insertObj rand obj s = insertNode rand 0 obj s"

section \<open>Deletion by value\<close>

text \<open>Every level is searched from the header, past nodes with a smaller score or a smaller object.\<close>

fun del_walk ::
  "nat \<Rightarrow> ('s :: linorder, 'a :: linorder) skiplist \<Rightarrow> nat \<Rightarrow> 's \<Rightarrow> 'a \<Rightarrow> nat \<Rightarrow> nat res" where
  "del_walk 0 s l score obj prev = Fault EndlessLoop"
| "del_walk (Suc f) s l score obj prev =
     res_bind (sl_at s prev) (\<lambda>p.
       case nd_next p l of
         None \<Rightarrow> Ret prev
       | Some n \<Rightarrow>
           res_bind (sl_at s n) (\<lambda>nn.
             if nd_score nn < score \<or> nd_obj nn < obj then del_walk f s l score obj n else Ret prev))"

fun del_search ::
  "('s :: linorder, 'a :: linorder) skiplist \<Rightarrow> 's \<Rightarrow> 'a \<Rightarrow> nat \<Rightarrow> nat list res" where
  "del_search s score obj 0 = Ret []"
| "del_search s score obj (Suc l) =
     res_bind (del_walk (Suc (sl_fresh s)) s l score obj 0) (\<lambda>p.
     res_bind (del_search s score obj l) (\<lambda>fs. Ret (fs @ [p])))"

text \<open>The loop over the levels: \<open>fs\<close> are the entries of \<open>forwards\<close> from level \<open>i\<close> on.\<close>

fun unlink_levels :: "nat \<Rightarrow> nat list \<Rightarrow> ('s, 'a) skiplist \<Rightarrow> ('s, 'a) skiplist res" where
  "unlink_levels i [] s = Ret s"
| "unlink_levels i (fw # fs) s =
     res_bind (sl_at s fw) (\<lambda>f.
       case nd_next f i of
         None \<Rightarrow> Ret s
       | Some n \<Rightarrow>
           res_bind (sl_at s n) (\<lambda>nn.
             let s = (if fw = 0 \<and> nd_next nn i = None then s\<lparr>sl_level := sl_level s - 1\<rparr> else s)
             in unlink_levels (i + 1) fs
                  (upd_node fw (set_span i (nd_span f i + (nd_span nn i - 1))) (upd_node fw (set_next i (nd_next nn i)) s))))"

text \<open>The results: the list, the return value and \<open>*res\<close>. With no level left \<open>forwards[0]\<close> is out of bounds.\<close>

definition deleteNode ::
  "'s :: linorder \<Rightarrow> 'a :: linorder \<Rightarrow> ('s, 'a) skiplist \<Rightarrow> (('s, 'a) skiplist \<times> int \<times> nat option) res" where
  "deleteNode score obj s =
     res_bind (del_search s score obj (sl_level s)) (\<lambda>fs.
       if fs = [] then Fault OutOfBounds
       else
         res_bind (sl_at s (fs ! 0)) (\<lambda>f.
           case nd_next f 0 of
             None \<Rightarrow> Ret (s, -1, None)
           | Some n \<Rightarrow>
               res_bind (sl_at s n) (\<lambda>nn.
                 if nd_score nn \<noteq> score \<and> nd_obj nn < obj then Ret (s, -1, None)
                 else
                   let s = (case nd_next nn 0 of
                              None \<Rightarrow> s\<lparr>sl_tail := fs ! 0\<rparr>
                            | Some m \<Rightarrow> upd_node m (setPrevious (Some (fs ! 0))) s)
                   in res_bind (unlink_levels 0 fs s) (\<lambda>s.
                        Ret (s\<lparr>sl_length := sl_length s - 1\<rparr>, 0, Some n)))))"

definition deleteObj ::
  "'a :: linorder \<Rightarrow> ('s :: {linorder, zero}, 'a) skiplist \<Rightarrow> (('s, 'a) skiplist \<times> int \<times> nat option) res" where
  "deleteObj obj s = deleteNode 0 obj s"

section \<open>Ranks\<close>

text \<open>
  Here the code compares what the objects point to, \<open>*(next->getObj()) < *obj\<close>, where \<open>insertNode\<close> compares
  the objects themselves; \<open>deref\<close> is that reading.
\<close>

fun rank_walk ::
  "('a \<Rightarrow> 'b :: linorder) \<Rightarrow> nat \<Rightarrow> ('s :: linorder, 'a) skiplist \<Rightarrow> nat \<Rightarrow> 's \<Rightarrow> 'a \<Rightarrow> nat \<Rightarrow> 32 word \<Rightarrow>
   (nat \<times> 32 word) res" where
  "rank_walk deref 0 s l score obj prev total_span = Fault EndlessLoop"
| "rank_walk deref (Suc f) s l score obj prev total_span =
     res_bind (sl_at s prev) (\<lambda>p.
       case nd_next p l of
         None \<Rightarrow> Ret (prev, total_span)
       | Some n \<Rightarrow>
           res_bind (sl_at s n) (\<lambda>nn.
             if nd_score nn < score \<or> deref (nd_obj nn) < deref obj
             then rank_walk deref f s l score obj n (total_span + nd_span nn l) else Ret (prev, total_span)))"

fun rank_levels ::
  "('a \<Rightarrow> 'b :: linorder) \<Rightarrow> ('s :: linorder, 'a) skiplist \<Rightarrow> 's \<Rightarrow> 'a \<Rightarrow> nat \<Rightarrow> nat \<Rightarrow> 32 word \<Rightarrow> (32 word) res" where
  "rank_levels deref s score obj 0 prev total_span = Ret (- 1)"
| "rank_levels deref s score obj (Suc l) prev total_span =
     res_bind (rank_walk deref (Suc (sl_fresh s)) s l score obj prev total_span) (\<lambda>(prev, total_span).
     res_bind (sl_at s prev) (\<lambda>p.
       case nd_next p l of
         None \<Rightarrow> rank_levels deref s score obj l prev total_span
       | Some n \<Rightarrow>
           res_bind (sl_at s n) (\<lambda>nn.
             if nd_score nn = score \<and> deref (nd_obj nn) < deref obj then Ret (total_span + nd_span p l)
             else rank_levels deref s score obj l prev total_span)))"

definition getRank :: "('a \<Rightarrow> 'b :: linorder) \<Rightarrow> 's :: linorder \<Rightarrow> 'a \<Rightarrow> ('s, 'a) skiplist \<Rightarrow> (32 word) res" where
  "getRank deref score obj s = rank_levels deref s score obj (sl_level s) 0 0"

fun skip_ranks :: "nat \<Rightarrow> ('s, 'a) skiplist \<Rightarrow> nat \<Rightarrow> nat \<Rightarrow> 32 word \<Rightarrow> (nat \<times> 32 word) res" where
  "skip_ranks 0 s l a rank = Fault EndlessLoop"
| "skip_ranks (Suc f) s l a rank =
     res_bind (sl_at s a) (\<lambda>n.
       case nd_next n l of
         None \<Rightarrow> Ret (a, rank)
       | Some b \<Rightarrow> if nd_span n l < rank then skip_ranks f s l b (rank - nd_span n l) else Ret (a, rank))"

fun by_rank_levels :: "('s, 'a) skiplist \<Rightarrow> nat \<Rightarrow> nat \<Rightarrow> 32 word \<Rightarrow> nat option res" where
  "by_rank_levels s 0 a rank = Ret None"
| "by_rank_levels s (Suc l) a rank =
     res_bind (skip_ranks (Suc (sl_fresh s)) s l a rank) (\<lambda>(a, rank).
     res_bind (sl_at s a) (\<lambda>n.
       if nd_span n l = rank then Ret (nd_next n l) else by_rank_levels s l a rank))"

definition getNodeByRank :: "32 word \<Rightarrow> ('s, 'a) skiplist \<Rightarrow> nat option res" where
  "getNodeByRank rank s = by_rank_levels s (sl_level s) 0 rank"

section \<open>Ranges of scores\<close>

definition isInRange :: "'s :: linorder score_range \<Rightarrow> ('s, 'a) skiplist \<Rightarrow> int res" where
  "isInRange r s =
     (if rg_max r < rg_min r \<or> rg_max r = rg_min r \<and> (rg_maxex r \<or> rg_minex r) then Ret (-1)
      else if sl_tail s = 0 then Ret 0
      else
        res_bind (sl_at s (sl_tail s)) (\<lambda>t.
        res_bind (sl_at s 0) (\<lambda>h.
          if scoreGtRange t r then Ret 0
          else
            case nd_next h 0 of
              None \<Rightarrow> Fault NullDeref
            | Some n \<Rightarrow> res_bind (sl_at s n) (\<lambda>nn. Ret (if scoreLtRange nn r then 0 else 1)))))"

text \<open>Past the nodes that satisfy \<open>skip\<close>; the result is the last one and its successor.\<close>

fun range_walk ::
  "(('s, 'a) sl_node \<Rightarrow> bool) \<Rightarrow> nat \<Rightarrow> ('s, 'a) skiplist \<Rightarrow> nat \<Rightarrow> nat \<Rightarrow> (nat \<times> nat option) res" where
  "range_walk skip 0 s l prev = Fault EndlessLoop"
| "range_walk skip (Suc f) s l prev =
     res_bind (sl_at s prev) (\<lambda>p.
       case nd_next p l of
         None \<Rightarrow> Ret (prev, None)
       | Some n \<Rightarrow>
           res_bind (sl_at s n) (\<lambda>nn. if skip nn then range_walk skip f s l n else Ret (prev, Some n)))"

fun first_levels :: "'s :: linorder score_range \<Rightarrow> ('s, 'a) skiplist \<Rightarrow> nat \<Rightarrow> nat \<Rightarrow> nat option res" where
  "first_levels r s 0 prev = Ret None"
| "first_levels r s (Suc l) prev =
     res_bind (range_walk (\<lambda>n. scoreLtRange n r) (Suc (sl_fresh s)) s l prev) (\<lambda>(prev, nx).
       case nx of
         None \<Rightarrow> first_levels r s l prev
       | Some n \<Rightarrow>
           res_bind (sl_at s n) (\<lambda>nn.
           res_bind (sl_at s prev) (\<lambda>p.
             if scoreInRange nn r \<and> nd_span p l = 1 then Ret (Some n) else first_levels r s l prev)))"

definition firstInRange :: "'s :: linorder score_range \<Rightarrow> ('s, 'a) skiplist \<Rightarrow> nat option res" where
  "firstInRange r s = first_levels r s (sl_level s) 0"

text \<open>The node returned may be the header, whose score is 0.\<close>

fun last_levels :: "'s :: linorder score_range \<Rightarrow> ('s, 'a) skiplist \<Rightarrow> nat \<Rightarrow> nat \<Rightarrow> nat option res" where
  "last_levels r s 0 prev = Ret None"
| "last_levels r s (Suc l) prev =
     res_bind (range_walk (\<lambda>n. \<not> scoreGtRange n r) (Suc (sl_fresh s)) s l prev) (\<lambda>(prev, nx).
     res_bind (sl_at s prev) (\<lambda>p.
       if (nd_span p l = 1 \<or> nx = None) \<and> scoreInRange p r then Ret (Some prev)
       else last_levels r s l prev))"

definition lastInRange :: "'s :: linorder score_range \<Rightarrow> ('s, 'a) skiplist \<Rightarrow> nat option res" where
  "lastInRange r s = last_levels r s (sl_level s) 0"

section \<open>Deletion of nodes\<close>

text \<open>Only the node before the deleted one is unlinked from, on every level.\<close>

fun unlink_node :: "nat \<Rightarrow> nat \<Rightarrow> nat \<Rightarrow> nat \<Rightarrow> ('s, 'a) skiplist \<Rightarrow> int \<Rightarrow> (('s, 'a) skiplist \<times> int) res" where
  "unlink_node 0 l prev a s r = Ret (s, r)"
| "unlink_node (Suc k) l prev a s r =
     res_bind (sl_at s prev) (\<lambda>p.
     res_bind (sl_at s a) (\<lambda>n.
       if nd_next p l = Some a then
         let s = upd_node prev (set_next l (nd_next n l))
                   (upd_node prev (set_span l (nd_span p l + (nd_span n l - 1))) s);
             s = (if prev = 0 \<and> nd_next n l = None then s\<lparr>sl_level := sl_level s - 1\<rparr> else s)
         in unlink_node k (l + 1) prev a s 1
       else if nd_next p l = None then Ret (s, r)
       else unlink_node k (l + 1) prev a (upd_node prev (set_span l (nd_span p l - 1)) s) r))"

definition deleteNodePtr :: "nat option \<Rightarrow> ('s, 'a) skiplist \<Rightarrow> (('s, 'a) skiplist \<times> int) res" where
  "deleteNodePtr node s =
     (case node of
        None \<Rightarrow> Ret (s, -1)
      | Some a \<Rightarrow>
          res_bind (sl_at s a) (\<lambda>n.
            let prev = (case nd_prev n of None \<Rightarrow> 0 | Some p \<Rightarrow> p) in
            res_bind (unlink_node (sl_level s) 0 prev a s 0) (\<lambda>(s, r).
            res_bind (sl_at s a) (\<lambda>n.
              let s = (case nd_next n 0 of
                         None \<Rightarrow> s\<lparr>sl_tail := prev\<rparr>
                       | Some m \<Rightarrow> upd_node m (setPrevious (Some prev)) s)
              in Ret (s\<lparr>sl_heap := (sl_heap s)(a := None)\<rparr>, r)))))"

fun del_score_loop ::
  "nat \<Rightarrow> 's :: linorder score_range \<Rightarrow> nat \<Rightarrow> nat option \<Rightarrow> ('s, 'a) skiplist \<Rightarrow> 32 word \<Rightarrow>
   (('s, 'a) skiplist \<times> 32 word) res" where
  "del_score_loop 0 r prev node s removed = Fault EndlessLoop"
| "del_score_loop (Suc f) r prev node s removed =
     (case node of
        None \<Rightarrow> Ret (s, removed)
      | Some a \<Rightarrow>
          res_bind (sl_at s a) (\<lambda>n.
            if \<not> scoreInRange n r then Ret (s, removed)
            else
              res_bind (deleteNodePtr (Some a) s) (\<lambda>(s, x).
              res_bind (sl_at s prev) (\<lambda>p.
                del_score_loop f r prev (nd_next p 0) (s\<lparr>sl_length := sl_length s - 1\<rparr>) (removed + 1)))))"

definition deleteRangeByScore ::
  "'s :: linorder score_range \<Rightarrow> ('s, 'a) skiplist \<Rightarrow> (('s, 'a) skiplist \<times> 32 word) res" where
  "deleteRangeByScore r s =
     res_bind (firstInRange r s) (\<lambda>node.
       case node of
         None \<Rightarrow> Ret (s, 0)
       | Some a \<Rightarrow>
           res_bind (sl_at s a) (\<lambda>n.
             let prev = (case nd_prev n of None \<Rightarrow> 0 | Some p \<Rightarrow> p)
             in del_score_loop (Suc (sl_fresh s)) r prev (Some a) s 0))"

fun rank_skip :: "nat \<Rightarrow> ('s, 'a) skiplist \<Rightarrow> nat \<Rightarrow> 32 word \<Rightarrow> nat \<Rightarrow> 32 word \<Rightarrow> (nat \<times> 32 word) res" where
  "rank_skip 0 s l lo a total_span = Fault EndlessLoop"
| "rank_skip (Suc f) s l lo a total_span =
     res_bind (sl_at s a) (\<lambda>n.
       case nd_next n l of
         None \<Rightarrow> Ret (a, total_span)
       | Some b \<Rightarrow>
           if total_span + nd_span n l < lo then rank_skip f s l lo b (total_span + nd_span n l)
           else Ret (a, total_span))"

fun rank_start :: "('s, 'a) skiplist \<Rightarrow> nat \<Rightarrow> 32 word \<Rightarrow> nat \<Rightarrow> 32 word \<Rightarrow> (nat \<times> 32 word) res" where
  "rank_start s 0 lo a total_span = Ret (a, total_span)"
| "rank_start s (Suc l) lo a total_span =
     res_bind (rank_skip (Suc (sl_fresh s)) s l lo a total_span) (\<lambda>(a, total_span).
     res_bind (sl_at s a) (\<lambda>n.
       if nd_span n l = 1 \<and> total_span + nd_span n l \<ge> lo then Ret (a, total_span)
       else rank_start s l lo a total_span))"

text \<open>After each removal the span of the next node is read, also when there is none.\<close>

fun del_rank_loop ::
  "nat \<Rightarrow> 32 word \<Rightarrow> nat \<Rightarrow> nat option \<Rightarrow> 32 word \<Rightarrow> ('s, 'a) skiplist \<Rightarrow> 32 word \<Rightarrow>
   (('s, 'a) skiplist \<times> 32 word) res" where
  "del_rank_loop 0 hi prev node total_span s removed = Fault EndlessLoop"
| "del_rank_loop (Suc f) hi prev node total_span s removed =
     (case node of
        None \<Rightarrow> Ret (s, removed)
      | Some a \<Rightarrow>
          if \<not> total_span \<le> hi then Ret (s, removed)
          else
            res_bind (deleteNodePtr (Some a) s) (\<lambda>(s, x).
            res_bind (sl_at s prev) (\<lambda>p.
              case nd_next p 0 of
                None \<Rightarrow> Fault NullDeref
              | Some b \<Rightarrow>
                  res_bind (sl_at s b) (\<lambda>m.
                    del_rank_loop f hi prev (Some b) (total_span + nd_span m 0)
                      (s\<lparr>sl_length := sl_length s - 1\<rparr>) (removed + 1)))))"

definition deleteRangeByRank ::
  "32 word \<Rightarrow> 32 word \<Rightarrow> ('s, 'a) skiplist \<Rightarrow> (('s, 'a) skiplist \<times> 32 word) res" where
  "deleteRangeByRank lo hi s =
     (if hi < lo then Ret (s, 0)
      else
        res_bind (rank_start s (sl_level s) lo 0 0) (\<lambda>(prev, total_span).
        res_bind (sl_at s prev) (\<lambda>p.
          let total_span = total_span + nd_span p 0 in
          if total_span < lo then Ret (s, 0)
          else del_rank_loop (Suc (sl_fresh s)) hi prev (nd_next p 0) total_span s 0)))"

section \<open>Scanning and destruction\<close>

text \<open>From the tail along the previous pointers until the header; the result lists the objects visited.\<close>

fun scan_loop :: "nat \<Rightarrow> ('s, 'a) skiplist \<Rightarrow> nat option \<Rightarrow> 'a list res" where
  "scan_loop 0 s node = Fault EndlessLoop"
| "scan_loop (Suc f) s node =
     (if node = Some 0 then Ret []
      else
        case node of
          None \<Rightarrow> Fault NullDeref
        | Some a \<Rightarrow> res_bind (sl_at s a) (\<lambda>n. res_bind (scan_loop f s (nd_prev n)) (\<lambda>xs. Ret (nd_obj n # xs))))"

definition scanAll :: "('s, 'a) skiplist \<Rightarrow> 'a list res" where
  "scanAll s = scan_loop (Suc (sl_fresh s)) s (Some (sl_tail s))"

text \<open>
  The destructor reads the first link of the header again after each node it frees: the same
  node, which is then freed again.
\<close>

fun destroy_loop :: "nat \<Rightarrow> nat option \<Rightarrow> ('s, 'a) skiplist \<Rightarrow> unit res" where
  "destroy_loop 0 node s = Fault EndlessLoop"
| "destroy_loop (Suc f) node s =
     (case node of
        None \<Rightarrow> Ret ()
      | Some a \<Rightarrow>
          res_bind (sl_at s a) (\<lambda>n.
            let s = s\<lparr>sl_heap := (sl_heap s)(a := None)\<rparr>
            in res_bind (sl_at s 0) (\<lambda>h. destroy_loop f (nd_next h 0) s)))"

definition destroy :: "('s, 'a) skiplist \<Rightarrow> unit res" where
  "destroy s = res_bind (sl_at s 0) (\<lambda>h. destroy_loop (Suc (sl_fresh s)) (nd_next h 0) s)"

end
