(* ===== verification/SkipListFacts.thy ===== *)
theory SkipListFacts imports SkipList begin

text \<open>
  Insertion into skip lists. A list that insertions have built is described by the addresses of its nodes in order, their
  heights and their keys: \<open>link ht l bs\<close> is where the link of level \<open>l\<close> of a node leads when the nodes
  \<open>bs\<close> follow it, with its distance, and \<open>sl_ok\<close> says that every link and span is that one. The span of a link
  that leads nowhere is a leftover: 0 or a small negative number modulo 2 ^ 32.
\<close>

section \<open>Reading and writing nodes\<close>

definition alive :: "('s, 'a) skiplist \<Rightarrow> nat \<Rightarrow> bool" where
  "alive s a \<longleftrightarrow> sl_heap s a \<noteq> None"

definition nx :: "('s, 'a) skiplist \<Rightarrow> nat \<Rightarrow> nat \<Rightarrow> nat option" where
  "nx s a l = nd_next (the (sl_heap s a)) l"

definition sp :: "('s, 'a) skiplist \<Rightarrow> nat \<Rightarrow> nat \<Rightarrow> 32 word" where
  "sp s a l = nd_span (the (sl_heap s a)) l"

definition pv :: "('s, 'a) skiplist \<Rightarrow> nat \<Rightarrow> nat option" where
  "pv s a = nd_prev (the (sl_heap s a))"

definition ky :: "('s, 'a) skiplist \<Rightarrow> nat \<Rightarrow> 's \<times> 'a" where
  "ky s a = (nd_score (the (sl_heap s a)), nd_obj (the (sl_heap s a)))"

lemmas node_defs = alive_def nx_def sp_def pv_def ky_def

lemma sl_at_alive: "alive s a \<Longrightarrow> sl_at s a = Ret (the (sl_heap s a))"
  by (auto simp: alive_def sl_at_def)

lemma alive_upd [simp]: "alive (upd_node a f s) b \<longleftrightarrow> alive s b"
  by (simp add: alive_def upd_node_def)

lemma upd_fields [simp]:
  "sl_fresh (upd_node a f s) = sl_fresh s" "sl_tail (upd_node a f s) = sl_tail s"
  "sl_length (upd_node a f s) = sl_length s" "sl_level (upd_node a f s) = sl_level s"
  by (simp_all add: upd_node_def)

lemma upd_next:
  assumes "alive s a"
  shows "nx (upd_node a (set_next l y) s) b i = (if b = a \<and> i = l then y else nx s b i)"
    and "sp (upd_node a (set_next l y) s) b i = sp s b i"
    and "pv (upd_node a (set_next l y) s) b = pv s b" and "ky (upd_node a (set_next l y) s) b = ky s b"
  using assms by (auto simp: node_defs upd_node_def set_next_def)

lemma upd_span:
  assumes "alive s a"
  shows "sp (upd_node a (set_span l v) s) b i = (if b = a \<and> i = l then v else sp s b i)"
    and "nx (upd_node a (set_span l v) s) b i = nx s b i"
    and "pv (upd_node a (set_span l v) s) b = pv s b" and "ky (upd_node a (set_span l v) s) b = ky s b"
  using assms by (auto simp: node_defs upd_node_def set_span_def)

lemma upd_prev:
  assumes "alive s a"
  shows "pv (upd_node a (setPrevious p) s) b = (if b = a then p else pv s b)"
    and "nx (upd_node a (setPrevious p) s) b i = nx s b i"
    and "sp (upd_node a (setPrevious p) s) b i = sp s b i" and "ky (upd_node a (setPrevious p) s) b = ky s b"
  using assms by (auto simp: node_defs upd_node_def setPrevious_def)

text \<open>Two states with the same nodes apart from links and spans.\<close>

definition same_frame :: "('s, 'a) skiplist \<Rightarrow> ('s, 'a) skiplist \<Rightarrow> bool" where
  "same_frame s t \<longleftrightarrow> alive t = alive s \<and> pv t = pv s \<and> ky t = ky s \<and> sl_fresh t = sl_fresh s \<and>
     sl_tail t = sl_tail s \<and> sl_length t = sl_length s \<and> sl_level t = sl_level s"

lemma same_frame_refl: "same_frame s s" by (simp add: same_frame_def)

lemma same_frame_trans: "same_frame s t \<Longrightarrow> same_frame t u \<Longrightarrow> same_frame s u"
  by (simp add: same_frame_def)

lemma link_level_effect:
  assumes "alive s x" and "alive s fw" and "fs ! i = (fw, rk)" and "fw \<noteq> x"
  shows "same_frame s (link_level x fs i s)"
    and "nx (link_level x fs i s) a l =
      (if l = i \<and> a = fw then Some x else if l = i \<and> a = x then nx s fw i else nx s a l)"
    and "sp (link_level x fs i s) a l =
      (if l = i \<and> a = fw then snd (fs ! 0) - rk + 1
       else if l = i \<and> a = x then sp s fw i - (snd (fs ! 0) - rk) else sp s a l)"
proof -
  obtain f where f: "sl_heap s fw = Some f" using assms(2) by (auto simp: alive_def)
  have e: "link_level x fs i s = upd_node fw (set_span i (snd (fs ! 0) - rk + 1))
      (upd_node x (set_span i (nd_span f i - (snd (fs ! 0) - rk)))
        (upd_node fw (set_next i (Some x)) (upd_node x (set_next i (nd_next f i)) s)))"
    by (simp add: link_level_def assms(3) f Let_def)
  have n: "nd_next f i = nx s fw i" "nd_span f i = sp s fw i" by (simp_all add: nx_def sp_def f)
  show "same_frame s (link_level x fs i s)"
    unfolding same_frame_def e by (simp add: fun_eq_iff upd_span upd_next assms)
  show "nx (link_level x fs i s) a l =
      (if l = i \<and> a = fw then Some x else if l = i \<and> a = x then nx s fw i else nx s a l)"
    unfolding e n by (auto simp: upd_span upd_next assms)
  show "sp (link_level x fs i s) a l =
      (if l = i \<and> a = fw then snd (fs ! 0) - rk + 1
       else if l = i \<and> a = x then sp s fw i - (snd (fs ! 0) - rk) else sp s a l)"
    unfolding e n using assms(4) by (auto simp: upd_span upd_next assms)
qed

lemma link_levels_effect:
  assumes "alive s x" and "\<And>i. i < n \<Longrightarrow> alive s (fst (fs ! i)) \<and> fst (fs ! i) \<noteq> x"
  shows "same_frame s (fold (link_level x fs) [0..<n] s) \<and>
    (\<forall>a l. nx (fold (link_level x fs) [0..<n] s) a l =
      (if l < n \<and> a = fst (fs ! l) then Some x else if l < n \<and> a = x then nx s (fst (fs ! l)) l else nx s a l)) \<and>
    (\<forall>a l. sp (fold (link_level x fs) [0..<n] s) a l =
      (if l < n \<and> a = fst (fs ! l) then snd (fs ! 0) - snd (fs ! l) + 1
       else if l < n \<and> a = x then sp s (fst (fs ! l)) l - (snd (fs ! 0) - snd (fs ! l)) else sp s a l))"
  using assms(2)
proof (induction n)
  case 0
  then show ?case by (simp add: same_frame_refl)
next
  case (Suc n)
  define t where "t = fold (link_level x fs) [0..<n] s"
  have IH: "same_frame s t"
    "\<And>a l. nx t a l =
      (if l < n \<and> a = fst (fs ! l) then Some x else if l < n \<and> a = x then nx s (fst (fs ! l)) l else nx s a l)"
    "\<And>a l. sp t a l =
      (if l < n \<and> a = fst (fs ! l) then snd (fs ! 0) - snd (fs ! l) + 1
       else if l < n \<and> a = x then sp s (fst (fs ! l)) l - (snd (fs ! 0) - snd (fs ! l)) else sp s a l)"
    using Suc by (simp_all add: t_def)
  have al: "alive t x" "alive t (fst (fs ! n))" "fst (fs ! n) \<noteq> x"
    using IH(1) assms(1) Suc.prems [of n] by (simp_all add: same_frame_def)
  have fold: "fold (link_level x fs) [0..<Suc n] s = link_level x fs n t" by (simp add: t_def)
  note step = link_level_effect [OF al(1,2) prod.collapse [symmetric] al(3)]
  have "same_frame s (link_level x fs n t)" using same_frame_trans [OF IH(1) step(1)] .
  then show ?case
    unfolding fold by (auto simp: step(2,3) IH(2,3) less_Suc_eq)
qed

lemma stretch_levels_effect:
  assumes "\<And>i. m \<le> i \<Longrightarrow> i < n \<Longrightarrow> alive s (fst (fs ! i))"
  shows "same_frame s (fold (stretch_level fs) [m..<n] s) \<and>
    (\<forall>a l. nx (fold (stretch_level fs) [m..<n] s) a l = nx s a l) \<and>
    (\<forall>a l. sp (fold (stretch_level fs) [m..<n] s) a l =
      (if m \<le> l \<and> l < n \<and> a = fst (fs ! l) \<and> nx s a l \<noteq> None then sp s a l + 1 else sp s a l))"
  using assms
proof (induction n)
  case 0
  then show ?case by (simp add: same_frame_refl)
next
  case (Suc n)
  show ?case
  proof (cases "m \<le> n")
    case False
    then have e: "[m..<Suc n] = []" by simp
    show ?thesis using False unfolding e by (auto simp: same_frame_refl)
  next
    case True
    define t where "t = fold (stretch_level fs) [m..<n] s"
    have IH: "same_frame s t" "\<And>a l. nx t a l = nx s a l"
      "\<And>a l. sp t a l = (if m \<le> l \<and> l < n \<and> a = fst (fs ! l) \<and> nx s a l \<noteq> None then sp s a l + 1 else sp s a l)"
      using Suc by (simp_all add: t_def)
    have al: "alive t (fst (fs ! n))" using IH(1) Suc.prems [OF True] by (simp add: same_frame_def)
    then obtain f where f: "sl_heap t (fst (fs ! n)) = Some f" by (auto simp: alive_def)
    have fold: "fold (stretch_level fs) [m..<Suc n] s = stretch_level fs n t" using True by (simp add: t_def)
    have step: "same_frame t (stretch_level fs n t)" "\<And>a l. nx (stretch_level fs n t) a l = nx t a l"
      "\<And>a l. sp (stretch_level fs n t) a l =
        (if l = n \<and> a = fst (fs ! n) \<and> nx t a l \<noteq> None then sp t a l + 1 else sp t a l)"
      using f by (auto simp: stretch_level_def same_frame_def node_defs upd_node_def set_span_def fun_eq_iff)
    show ?thesis
      unfolding fold using same_frame_trans [OF IH(1) step(1)] True
      by (auto simp: step(2,3) IH(2,3) less_Suc_eq)
  qed
qed

lemma header_spans_effect:
  assumes "alive s 0"
  shows "same_frame s (fold (\<lambda>i. upd_node 0 (set_span i v)) [m..<n] s) \<and>
    (\<forall>a l. nx (fold (\<lambda>i. upd_node 0 (set_span i v)) [m..<n] s) a l = nx s a l) \<and>
    (\<forall>a l. sp (fold (\<lambda>i. upd_node 0 (set_span i v)) [m..<n] s) a l =
      (if m \<le> l \<and> l < n \<and> a = 0 then v else sp s a l))"
proof (induction n)
  case 0
  then show ?case by (simp add: same_frame_refl)
next
  case (Suc n)
  define t where "t = fold (\<lambda>i. upd_node 0 (set_span i v)) [m..<n] s"
  have IH: "same_frame s t" "\<And>a l. nx t a l = nx s a l"
    "\<And>a l. sp t a l = (if m \<le> l \<and> l < n \<and> a = 0 then v else sp s a l)"
    using Suc by (simp_all add: t_def)
  have al: "alive t 0" using IH(1) assms by (simp add: same_frame_def)
  have step: "same_frame t (upd_node 0 (set_span n v) t)"
    unfolding same_frame_def by (simp add: fun_eq_iff upd_span [OF al])
  show ?case
  proof (cases "m \<le> n")
    case True
    then have "fold (\<lambda>i. upd_node 0 (set_span i v)) [m..<Suc n] s = upd_node 0 (set_span n v) t" by (simp add: t_def)
    then show ?thesis
      using same_frame_trans [OF IH(1) step] True by (auto simp: upd_span [OF al] IH(2,3) less_Suc_eq)
  next
    case False
    then have "[m..<Suc n] = []" by simp
    then show ?thesis using False by (auto simp: same_frame_refl)
  qed
qed

section \<open>What the links say\<close>

fun link :: "(nat \<Rightarrow> nat) \<Rightarrow> nat \<Rightarrow> nat list \<Rightarrow> (nat \<times> nat) option" where
  "link ht l [] = None"
| "link ht l (b # bs) = (if l < ht b then Some (b, 1) else map_option (apsnd Suc) (link ht l bs))"

lemma link_None: "link ht l bs = None \<longleftrightarrow> (\<forall>b \<in> set bs. ht b \<le> l)"
  by (induction bs) auto

lemma link_Some:
  "link ht l bs = Some (b, d) \<Longrightarrow>
   1 \<le> d \<and> d \<le> length bs \<and> bs ! (d - 1) = b \<and> l < ht b \<and> (\<forall>i < d - 1. ht (bs ! i) \<le> l)"
proof (induction bs arbitrary: d)
  case (Cons c bs)
  show ?case
  proof (cases "l < ht c")
    case False
    then obtain e where e: "link ht l bs = Some (b, e)" "d = Suc e"
      using Cons.prems by (auto simp: apsnd_def map_prod_def split: prod.splits)
    note IH = Cons.IH [OF e(1)]
    have "ht ((c # bs) ! i) \<le> l" if "i < d - 1" for i
      using that IH False e(2) by (cases i) auto
    then show ?thesis using IH e(2) by (auto simp: nth_Cons')
  qed (use Cons.prems in auto)
qed simp

lemma link_append_high: "w \<in> set ws \<Longrightarrow> l < ht w \<Longrightarrow> link ht l (ws @ ys) = link ht l ws"
  by (induction ws) auto

lemma link_append_low:
  "\<forall>w \<in> set ws. ht w \<le> l \<Longrightarrow> link ht l (ws @ ys) = map_option (apsnd ((+) (length ws))) (link ht l ys)"
  by (induction ws; cases "link ht l ys") auto

lemma link_cong: "(\<And>b. b \<in> set bs \<Longrightarrow> ht b = ht' b) \<Longrightarrow> link ht l bs = link ht' l bs"
  by (induction bs) auto

text \<open>Keys in the order of the list: score first, then object.\<close>

definition key_lt :: "'s :: linorder \<times> 'a :: linorder \<Rightarrow> 's \<times> 'a \<Rightarrow> bool" where
  "key_lt x y \<longleftrightarrow> fst x < fst y \<or> fst x = fst y \<and> snd x < snd y"

definition key_sorted :: "('s :: linorder \<times> 'a :: linorder) list \<Rightarrow> bool" where
  "key_sorted xs \<longleftrightarrow> sorted_wrt (\<lambda>x y. \<not> key_lt y x) xs"

text \<open>The address at a position; position 0 is the header.\<close>

definition pos_at :: "nat list \<Rightarrow> nat \<Rightarrow> nat" where
  "pos_at as j = (0 # as) ! j"

lemma pos_at_simps [simp]: "pos_at as 0 = 0" "pos_at as (Suc j) = as ! j"
  by (simp_all add: pos_at_def)

lemma pos_at_pred: "0 < j \<Longrightarrow> pos_at as j = as ! (j - 1)"
  by (cases j) simp_all

definition on_level :: "nat list \<Rightarrow> (nat \<Rightarrow> nat) \<Rightarrow> nat \<Rightarrow> nat \<Rightarrow> bool" where
  "on_level as ht l j \<longleftrightarrow> j = 0 \<or> l < ht (pos_at as j)"

definition level_ok :: "('s, 'a) skiplist \<Rightarrow> nat list \<Rightarrow> (nat \<Rightarrow> nat) \<Rightarrow> nat \<Rightarrow> nat \<Rightarrow> bool" where
  "level_ok s as ht l j \<longleftrightarrow>
     (case link ht l (drop j as) of
        None \<Rightarrow> nx s (pos_at as j) l = None \<and> (\<exists>g \<le> j. sp s (pos_at as j) l = - of_nat g)
      | Some (b, d) \<Rightarrow> nx s (pos_at as j) l = Some b \<and> sp s (pos_at as j) l = of_nat d)"

definition sl_ok ::
  "('s :: linorder, 'a :: linorder) skiplist \<Rightarrow> nat list \<Rightarrow> (nat \<Rightarrow> nat) \<Rightarrow> ('s \<times> 'a) list \<Rightarrow> bool" where
  "sl_ok s as ht xs \<longleftrightarrow>
     distinct as \<and> (\<forall>a \<in> set as. 0 < a \<and> a < sl_fresh s \<and> alive s a \<and> 1 \<le> ht a \<and> ht a \<le> sl_level s) \<and>
     0 < sl_fresh s \<and> alive s 0 \<and> 1 \<le> sl_level s \<and> xs = map (ky s) as \<and> key_sorted xs \<and>
     sl_length s = of_nat (length as) \<and> sl_tail s = last (0 # as) \<and>
     (\<forall>j < length as. pv s (as ! j) = (if j = 0 then None else Some (as ! (j - 1)))) \<and>
     (\<forall>j l. j \<le> length as \<longrightarrow> on_level as ht l j \<longrightarrow> level_ok s as ht l j)"

lemma sl_okD:
  assumes "sl_ok s as ht xs"
  shows "distinct as" and "\<And>a. a \<in> set as \<Longrightarrow> 0 < a \<and> a < sl_fresh s \<and> alive s a \<and> 1 \<le> ht a \<and> ht a \<le> sl_level s"
    and "0 < sl_fresh s" and "alive s 0" and "1 \<le> sl_level s" and "xs = map (ky s) as" and "key_sorted xs"
    and "sl_length s = of_nat (length as)" and "sl_tail s = last (0 # as)"
    and "\<And>j. j < length as \<Longrightarrow> pv s (as ! j) = (if j = 0 then None else Some (as ! (j - 1)))"
    and "\<And>j l. j \<le> length as \<Longrightarrow> on_level as ht l j \<Longrightarrow> level_ok s as ht l j"
  using assms unfolding sl_ok_def by blast+

lemma pos_at_alive: "sl_ok s as ht xs \<Longrightarrow> j \<le> length as \<Longrightarrow> alive s (pos_at as j)"
  by (cases j) (auto simp: sl_okD(4) Suc_le_eq sl_okD(2) [OF _ nth_mem])

lemma length_le_fresh:
  assumes "sl_ok s as ht xs" shows "length as < sl_fresh s"
proof -
  have "set as \<subseteq> {0<..<sl_fresh s}" using sl_okD(2) [OF assms] by auto
  then have "card (set as) \<le> card {0<..<sl_fresh s}" by (intro card_mono) simp_all
  then show ?thesis using sl_okD(1,3) [OF assms] by (simp add: distinct_card)
qed

text \<open>The next node on a level, as position.\<close>

lemma next_position:
  assumes ok: "sl_ok s as ht xs" and j: "j \<le> length as" and l: "on_level as ht l j"
  shows "(nx s (pos_at as j) l = None \<and> (\<forall>i. j \<le> i \<and> i < length as \<longrightarrow> ht (as ! i) \<le> l) \<and>
      (\<exists>g \<le> j. sp s (pos_at as j) l = - of_nat g)) \<or>
    (\<exists>d \<ge> 1. j + d \<le> length as \<and> nx s (pos_at as j) l = Some (pos_at as (j + d)) \<and>
      sp s (pos_at as j) l = of_nat d \<and> l < ht (pos_at as (j + d)) \<and>
      (\<forall>i. j \<le> i \<and> i < j + d - 1 \<longrightarrow> ht (as ! i) \<le> l))"
proof (cases "link ht l (drop j as)")
  case None
  then have "\<forall>b \<in> set (drop j as). ht b \<le> l" by (simp add: link_None)
  then have low: "ht (as ! i) \<le> l" if "j \<le> i" "i < length as" for i
    using that nth_mem [of "i - j" "drop j as"] by auto
  then show ?thesis using sl_okD(11) [OF ok j l] None by (auto simp: level_ok_def)
next
  case (Some p)
  obtain b d where bd: "link ht l (drop j as) = Some (b, d)" using Some by (cases p) auto
  note L = link_Some [OF bd]
  then have d: "1 \<le> d" "j + d \<le> length as" "as ! (j + d - 1) = b" "l < ht b" using j by (auto simp: Nat.add_diff_assoc)
  then have p: "pos_at as (j + d) = b" by (cases "j + d") (auto simp: pos_at_def)
  have "ht (as ! i) \<le> l" if "j \<le> i" "i < j + d - 1" for i
  proof -
    have "i - j < d - 1" using that by simp
    then have "ht (drop j as ! (i - j)) \<le> l" using L by blast
    then show ?thesis using that j by simp
  qed
  then show ?thesis using sl_okD(11) [OF ok j l] d p bd by (auto simp: level_ok_def)
qed

lemma before_ky: "alive s a \<Longrightarrow> before (the (sl_heap s a)) score obj \<longleftrightarrow> key_lt (ky s a) (score, obj)"
  by (auto simp: before_def key_lt_def ky_def)

text \<open>The place of a key: the number of smaller ones before it.\<close>

definition place :: "('s :: linorder \<times> 'a :: linorder) list \<Rightarrow> 's \<times> 'a \<Rightarrow> nat" where
  "place xs k = length (takeWhile (\<lambda>x. key_lt x k) xs)"

lemma place_le: "place xs k \<le> length xs"
  by (simp add: place_def length_takeWhile_le)

lemma place_before: "i < place xs k \<Longrightarrow> key_lt (xs ! i) k"
  unfolding place_def by (metis nth_mem set_takeWhileD takeWhile_nth)

lemma place_after:
  assumes "key_sorted xs" and "place xs k \<le> i" and "i < length xs"
  shows "\<not> key_lt (xs ! i) k"
proof -
  let ?p = "place xs k"
  have p: "\<not> key_lt (xs ! ?p) k"
    using nth_length_takeWhile [of "\<lambda>x. key_lt x k" xs] assms(2,3) by (auto simp: place_def)
  show ?thesis
  proof (cases "i = ?p")
    case False
    then have "\<not> key_lt (xs ! i) (xs ! ?p)"
      using assms by (auto simp: key_sorted_def sorted_wrt_iff_nth_less)
    then show ?thesis using p unfolding key_lt_def by auto
  qed (use p in simp)
qed

definition fwd_ok :: "nat list \<Rightarrow> (nat \<Rightarrow> nat) \<Rightarrow> nat \<Rightarrow> nat \<Rightarrow> nat \<times> 32 word \<Rightarrow> bool" where
  "fwd_ok as ht k l fr \<longleftrightarrow> (\<exists>j \<le> k. fr = (pos_at as j, of_nat j) \<and> on_level as ht l j \<and>
     (\<forall>i. j \<le> i \<and> i < k \<longrightarrow> ht (as ! i) \<le> l))"

lemma walk_ok:
  assumes ok: "sl_ok s as ht xs" and k: "k = place xs (score, obj)"
  shows "j \<le> k \<Longrightarrow> on_level as ht l j \<Longrightarrow> k - j < f \<Longrightarrow>
    \<exists>fr. walk f s l score obj (pos_at as j) (of_nat j) = Ret fr \<and> fwd_ok as ht k l fr \<and>
      (\<exists>j' \<ge> j. fr = (pos_at as j', of_nat j'))"
proof (induction f arbitrary: j)
  case (Suc f)
  have kl: "k \<le> length as" using place_le [of xs] sl_okD(6) [OF ok] k by (metis length_map)
  have j: "j \<le> length as" using Suc.prems(1) kl by simp
  have at: "sl_at s (pos_at as j) = Ret (the (sl_heap s (pos_at as j)))"
    using sl_at_alive [OF pos_at_alive [OF ok j]] .
  have stay: "fwd_ok as ht k l (pos_at as j, of_nat j)" if "\<forall>i. j \<le> i \<and> i < k \<longrightarrow> ht (as ! i) \<le> l"
    using that Suc.prems(1,2) by (auto simp: fwd_ok_def)
  from next_position [OF ok j Suc.prems(2)] show ?case
  proof (elim disjE exE conjE)
    assume n: "nx s (pos_at as j) l = None" and low: "\<forall>i. j \<le> i \<and> i < length as \<longrightarrow> ht (as ! i) \<le> l"
    then have "walk (Suc f) s l score obj (pos_at as j) (of_nat j) = Ret (pos_at as j, of_nat j)"
      by (simp add: at nx_def [symmetric])
    then show ?thesis using stay low kl by auto
  next
    fix d assume d: "1 \<le> d" "j + d \<le> length as" "nx s (pos_at as j) l = Some (pos_at as (j + d))"
      "sp s (pos_at as j) l = of_nat d" "l < ht (pos_at as (j + d))"
      "\<forall>i. j \<le> i \<and> i < j + d - 1 \<longrightarrow> ht (as ! i) \<le> l"
    let ?b = "pos_at as (j + d)"
    have b: "?b = as ! (j + d - 1)" using d(1) by (cases "j + d") auto
    have ab: "alive s ?b" using pos_at_alive [OF ok d(2)] .
    have kb: "ky s ?b = xs ! (j + d - 1)" using sl_okD(6) [OF ok] d(1,2) b by simp
    have step: "walk (Suc f) s l score obj (pos_at as j) (of_nat j) =
        (if key_lt (xs ! (j + d - 1)) (score, obj) then walk f s l score obj ?b (of_nat (j + d))
         else Ret (pos_at as j, of_nat j))"
      using d(3,4) by (simp add: at nx_def [symmetric] sp_def [symmetric] sl_at_alive [OF ab] before_ky [OF ab] kb)
    show ?thesis
    proof (cases "key_lt (xs ! (j + d - 1)) (score, obj)")
      case True
      have "j + d - 1 < k"
      proof (rule ccontr)
        assume "\<not> j + d - 1 < k"
        then have "\<not> key_lt (xs ! (j + d - 1)) (score, obj)"
          using place_after [OF sl_okD(7) [OF ok]] k d(1,2) sl_okD(6) [OF ok] by simp
        then show False using True by simp
      qed
      then have "j + d \<le> k" "k - (j + d) < f" using d(1) Suc.prems by simp_all
      moreover have "on_level as ht l (j + d)" using d(5) by (simp add: on_level_def)
      ultimately obtain fr where "walk f s l score obj ?b (of_nat (j + d)) = Ret fr" "fwd_ok as ht k l fr"
          "\<exists>j' \<ge> j + d. fr = (pos_at as j', of_nat j')"
        using Suc.IH by blast
      then show ?thesis using step True by (auto intro: le_trans [OF le_add1])
    next
      case False
      then have "k \<le> j + d - 1" using place_before [of "j + d - 1" xs "(score, obj)"] k by (metis not_le)
      then have "\<forall>i. j \<le> i \<and> i < k \<longrightarrow> ht (as ! i) \<le> l" using d(6) by auto
      then show ?thesis using step False stay by auto
    qed
  qed
qed simp

lemma search_ok:
  assumes ok: "sl_ok s as ht xs" and k: "k = place xs (score, obj)"
  shows "j \<le> k \<Longrightarrow> j = 0 \<or> i \<le> ht (pos_at as j) \<Longrightarrow>
    \<exists>fs. search s score obj i (pos_at as j) (of_nat j) = Ret fs \<and> length fs = i \<and>
      (\<forall>l < i. fwd_ok as ht k l (fs ! l))"
proof (induction i arbitrary: j)
  case (Suc i)
  have "k \<le> length as" using place_le [of xs] sl_okD(6) [OF ok] k by (metis length_map)
  then have "k - j < Suc (sl_fresh s)" using length_le_fresh [OF ok] by simp
  moreover have "on_level as ht i j" using Suc.prems(2) by (auto simp: on_level_def)
  ultimately obtain fr where fr: "walk (Suc (sl_fresh s)) s i score obj (pos_at as j) (of_nat j) = Ret fr"
      "fwd_ok as ht k i fr"
    using walk_ok [OF ok k Suc.prems(1)] by blast
  then obtain j' where j': "j' \<le> k" "fr = (pos_at as j', of_nat j')" "on_level as ht i j'"
    by (auto simp: fwd_ok_def)
  have "j' = 0 \<or> i \<le> ht (pos_at as j')" using j'(3) by (auto simp: on_level_def)
  then obtain fs where fs: "search s score obj i (pos_at as j') (of_nat j') = Ret fs" "length fs = i"
      "\<forall>l < i. fwd_ok as ht k l (fs ! l)"
    using Suc.IH [OF j'(1)] by blast
  have "search s score obj (Suc i) (pos_at as j) (of_nat j) = Ret (fs @ [fr])"
    using fr(1) fs(1) j'(2) by simp
  moreover have "fwd_ok as ht k l ((fs @ [fr]) ! l)" if "l < Suc i" for l
    using that fs(2,3) fr(2) by (cases "l = i") (auto simp: nth_append)
  ultimately show ?case using fs(2) by auto
qed simp

section \<open>The effect of an insertion on the nodes\<close>

lemma fwd_unique:
  assumes "on_level as ht l j" and "on_level as ht l j'" and "j \<le> k" and "j' \<le> k"
    and "\<forall>i. j \<le> i \<and> i < k \<longrightarrow> ht (as ! i) \<le> l" and "\<forall>i. j' \<le> i \<and> i < k \<longrightarrow> ht (as ! i) \<le> l"
  shows "j = j'"
proof (rule ccontr)
  assume "j \<noteq> j'"
  then consider "j < j'" | "j' < j" by linarith
  then show False
  proof cases
    case 1
    then have "l < ht (as ! (j' - 1))" using assms(2) by (cases j') (auto simp: on_level_def)
    moreover have "ht (as ! (j' - 1)) \<le> l" using 1 assms(4) by (intro assms(5) [rule_format]) auto
    ultimately show False by simp
  next
    case 2
    then have "l < ht (as ! (j - 1))" using assms(1) by (cases j) (auto simp: on_level_def)
    moreover have "ht (as ! (j - 1)) \<le> l" using 2 assms(3) by (intro assms(6) [rule_format]) auto
    ultimately show False by simp
  qed
qed

lemma level_loop_bounds:
  "num < 2 ^ n \<Longrightarrow> pw \<le> level_loop r num pw \<and> level_loop r num pw \<le> pw + n"
proof (induction n arbitrary: num pw)
  case 0
  then show ?case by (simp add: level_loop.simps)
next
  case (Suc n)
  have "num div 2 < 2 ^ n" using Suc.prems by auto
  from Suc.IH [OF this, of "pw + 1"] show ?case
    by (subst (1 2) level_loop.simps) auto
qed

lemma randomLevel_bounds: "1 \<le> randomLevel rand \<and> randomLevel rand \<le> SKIP_LIST_MAX_LEVEL"
proof -
  let ?r = "rand mod 2 ^ 31" and ?n = "2 ^ 31 :: nat"
  have "?r < ?n" by simp
  then have e: "level_loop ?r ?n 0 = level_loop ?r (?n div 2) 1"
    by (subst level_loop.simps) auto
  have "(?n div 2) < 2 ^ 31" by simp
  from level_loop_bounds [OF this, of 1 ?r] e show ?thesis
    by (simp add: randomLevel_def SKIP_LIST_MAX_LEVEL_def)
qed

lemma insert_effect:
  assumes ok: "sl_ok s as ht xs" and k: "k = place xs (score, obj)" and R: "R = randomLevel rand"
    and x: "x = sl_fresh s"
  shows "\<exists>fs t. (\<forall>l < max R (sl_level s). fwd_ok as ht k l (fs ! l)) \<and> fs ! 0 = (pos_at as k, of_nat k) \<and>
    insertNode rand score obj s = Ret t \<and> sl_fresh t = x + 1 \<and> sl_level t = max R (sl_level s) \<and>
    sl_length t = sl_length s + 1 \<and> sl_tail t = (if k = length as then x else sl_tail s) \<and>
    (\<forall>a. alive t a \<longleftrightarrow> alive s a \<or> a = x) \<and>
    (\<forall>a. ky t a = (if a = x then (score, obj) else ky s a)) \<and>
    (\<forall>a. a = 0 \<or> a \<in> set as \<or> a = x \<longrightarrow> pv t a = (if a = x then if k = 0 then None else Some (pos_at as k)
        else if k < length as \<and> a = as ! k then Some x else pv s a)) \<and>
    (\<forall>a l. nx t a l =
      (if l < R \<and> a = fst (fs ! l) then Some x else if a = x then if l < R then nx s (fst (fs ! l)) l else None
       else nx s a l)) \<and>
    (\<forall>a l. a \<noteq> x \<or> l < R \<longrightarrow> sp t a l =
      (if l < R \<and> a = fst (fs ! l) then of_nat k - snd (fs ! l) + 1
       else if a = x then (if l < sl_level s then sp s (fst (fs ! l)) l else of_nat k) - (of_nat k - snd (fs ! l))
       else if R \<le> l \<and> l < sl_level s \<and> a = fst (fs ! l) \<and> nx s a l \<noteq> None then sp s a l + 1 else sp s a l))"
proof -
  let ?L = "sl_level s"
  have kl: "k \<le> length as" using place_le [of xs] sl_okD(6) [OF ok] k by (metis length_map)
  have R1: "1 \<le> R" using randomLevel_bounds R by simp
  obtain found where f: "search s score obj (max R ?L) 0 0 = Ret found" "length found = max R ?L"
      "\<forall>l < max R ?L. fwd_ok as ht k l (found ! l)"
    using search_ok [OF ok k, of 0 "max R ?L"] by auto
  define fs where "fs = take ?L found @ replicate (R - ?L) (0 :: nat, 0 :: 32 word)"
  have top: "fwd_ok as ht k l (0, 0)" if "?L \<le> l" for l
  proof -
    have "ht (as ! i) \<le> l" if "i < k" for i
      using sl_okD(2) [OF ok nth_mem, of i] kl that \<open>?L \<le> l\<close> by fastforce
    then show ?thesis by (auto simp: fwd_ok_def on_level_def intro!: exI [of _ 0])
  qed
  have fw: "fwd_ok as ht k l (fs ! l)" if "l < max R ?L" for l
    using that f(2,3) top [of l] by (auto simp: fs_def nth_append)
  have new: "fs ! l = (0, 0)" if "?L \<le> l" "l < R" for l
    using that f(2) by (auto simp: fs_def nth_append)
  have L1: "1 \<le> ?L" using sl_okD(5) [OF ok] .
  have fs0: "fs ! 0 = (pos_at as k, of_nat k)"
  proof -
    have "0 < max R ?L" using R1 by simp
    from fw [OF this] obtain j where j: "j \<le> k" "fs ! 0 = (pos_at as j, of_nat j)"
        "\<forall>i. j \<le> i \<and> i < k \<longrightarrow> ht (as ! i) \<le> 0"
      unfolding fwd_ok_def by blast
    have "j = k"
    proof (rule ccontr)
      assume "j \<noteq> k"
      then have "j < k" using j(1) by simp
      then have "ht (as ! j) \<le> 0" "as ! j \<in> set as" using j(3) kl by auto
      then show False using sl_okD(2) [OF ok] by fastforce
    qed
    then show ?thesis using j(2) by simp
  qed
  have falive: "alive s (fst (fs ! l)) \<and> fst (fs ! l) \<noteq> x" if lt: "l < max R ?L" for l
  proof -
    obtain j where "j \<le> k" "fst (fs ! l) = pos_at as j" using fw [OF lt] by (auto simp: fwd_ok_def)
    then show ?thesis
      using pos_at_alive [OF ok, of j] kl sl_okD(2) [OF ok nth_mem, of "j - 1"] sl_okD(3) [OF ok] x
      by (cases j) auto
  qed
  define s1 where "s1 = fold (\<lambda>i. upd_node 0 (set_span i (snd (fs ! 0)))) [?L..<R] s"
  have s1: "same_frame s s1" "\<And>a l. nx s1 a l = nx s a l"
    "\<And>a l. sp s1 a l = (if ?L \<le> l \<and> l < R \<and> a = 0 then of_nat k else sp s a l)"
    using header_spans_effect [OF sl_okD(4) [OF ok], of "snd (fs ! 0)" ?L R] fs0 by (simp_all add: s1_def)
  define nd where "nd = setPrevious (if fst (fs ! 0) = 0 then None else Some (fst (fs ! 0))) (new_sl_node obj score)"
  define s2 where "s2 = s1\<lparr>sl_heap := (sl_heap s1)(x := Some nd), sl_fresh := x + 1\<rparr>"
  have s2: "\<And>a. alive s2 a \<longleftrightarrow> alive s a \<or> a = x" "\<And>a l. nx s2 a l = (if a = x then None else nx s a l)"
    "\<And>a l. sp s2 a l = (if a = x then 0 else if ?L \<le> l \<and> l < R \<and> a = 0 then of_nat k else sp s a l)"
    "\<And>a. ky s2 a = (if a = x then (score, obj) else ky s a)"
    "\<And>a. pv s2 a = (if a = x then if k = 0 then None else Some (pos_at as k) else pv s a)"
    "sl_tail s2 = sl_tail s" "sl_length s2 = sl_length s" "sl_level s2 = ?L" "sl_fresh s2 = x + 1"
  proof -
    have "pos_at as k = 0 \<longleftrightarrow> k = 0"
      using kl sl_okD(2) [OF ok nth_mem, of "k - 1"] by (cases k) auto
    then show "\<And>a. pv s2 a = (if a = x then if k = 0 then None else Some (pos_at as k) else pv s a)"
      using s1(1) fs0 by (auto simp: s2_def pv_def nd_def setPrevious_def new_sl_node_def same_frame_def fun_eq_iff)
    show "\<And>a. alive s2 a \<longleftrightarrow> alive s a \<or> a = x"
      using s1(1) by (auto simp: s2_def alive_def same_frame_def fun_eq_iff)
    show "\<And>a l. nx s2 a l = (if a = x then None else nx s a l)"
      using s1(2) by (auto simp: s2_def nx_def nd_def setPrevious_def new_sl_node_def)
    show "\<And>a l. sp s2 a l = (if a = x then 0 else if ?L \<le> l \<and> l < R \<and> a = 0 then of_nat k else sp s a l)"
      using s1(3) by (auto simp: s2_def sp_def nd_def setPrevious_def new_sl_node_def)
    show "\<And>a. ky s2 a = (if a = x then (score, obj) else ky s a)"
      using s1(1) by (auto simp: s2_def ky_def nd_def setPrevious_def new_sl_node_def same_frame_def fun_eq_iff)
    show "sl_tail s2 = sl_tail s" "sl_length s2 = sl_length s" "sl_level s2 = ?L" "sl_fresh s2 = x + 1"
      using s1(1) by (simp_all add: s2_def same_frame_def)
  qed
  have onk: "on_level as ht 0 k"
    using kl sl_okD(2) [OF ok nth_mem, of "k - 1"] by (cases k) (auto simp: on_level_def)
  have n0: "nx s (pos_at as k) 0 = (if k < length as then Some (as ! k) else None)"
  proof (cases "k < length as")
    case True
    then have "link ht 0 (drop k as) = Some (as ! k, 1)"
      using sl_okD(2) [OF ok nth_mem, of k] by (simp add: Cons_nth_drop_Suc [symmetric])
    then show ?thesis using sl_okD(11) [OF ok kl onk] True by (simp add: level_ok_def)
  next
    case False
    then show ?thesis using sl_okD(11) [OF ok kl onk] by (simp add: level_ok_def)
  qed
  have pk: "pos_at as k \<noteq> x" using falive [of 0] R1 fs0 by simp
  define s3 where "s3 = (if k < length as then upd_node (as ! k) (setPrevious (Some x)) s2 else s2\<lparr>sl_tail := x\<rparr>)"
  have ak: "alive s2 (as ! k)" "as ! k \<noteq> x" if "k < length as"
    using that sl_okD(2) [OF ok nth_mem, of k] s2(1) x by auto
  have s3: "\<And>a. alive s3 a \<longleftrightarrow> alive s a \<or> a = x" "\<And>a l. nx s3 a l = nx s2 a l" "\<And>a l. sp s3 a l = sp s2 a l"
    "\<And>a. ky s3 a = ky s2 a" "\<And>a. pv s3 a = (if k < length as \<and> a = as ! k then Some x else pv s2 a)"
    "sl_tail s3 = (if k = length as then x else sl_tail s)" "sl_length s3 = sl_length s" "sl_level s3 = ?L"
    "sl_fresh s3 = x + 1"
    using s2 kl upd_prev [OF ak(1)]
    by (auto simp: s3_def) (simp_all add: node_defs)
  define s4 where "s4 = fold (link_level x fs) [0..<R] s3"
  have "alive s3 x" by (simp add: s3(1))
  moreover have "alive s3 (fst (fs ! i)) \<and> fst (fs ! i) \<noteq> x" if "i < R" for i
    using falive [of i] that s3(1) by auto
  ultimately have s4: "same_frame s3 s4"
    "\<And>a l. nx s4 a l =
      (if l < R \<and> a = fst (fs ! l) then Some x else if l < R \<and> a = x then nx s3 (fst (fs ! l)) l else nx s3 a l)"
    "\<And>a l. sp s4 a l =
      (if l < R \<and> a = fst (fs ! l) then snd (fs ! 0) - snd (fs ! l) + 1
       else if l < R \<and> a = x then sp s3 (fst (fs ! l)) l - (snd (fs ! 0) - snd (fs ! l)) else sp s3 a l)"
    using link_levels_effect [of s3 x R fs] by (simp_all add: s4_def)
  define s5 where "s5 = fold (stretch_level fs) [R..<?L] s4"
  have "alive s4 (fst (fs ! i))" if "i < ?L" for i
    using falive [of i] that s3(1) s4(1) by (auto simp: same_frame_def)
  then have s5: "same_frame s4 s5" "\<And>a l. nx s5 a l = nx s4 a l"
    "\<And>a l. sp s5 a l = (if R \<le> l \<and> l < ?L \<and> a = fst (fs ! l) \<and> nx s4 a l \<noteq> None then sp s4 a l + 1 else sp s4 a l)"
    using stretch_levels_effect [of R ?L s4 fs] by (simp_all add: s5_def)
  define t where "t = s5\<lparr>sl_level := max R ?L, sl_length := sl_length s5 + 1\<rparr>"
  have t: "\<And>a. alive t a = alive s5 a" "\<And>a l. nx t a l = nx s5 a l" "\<And>a l. sp t a l = sp s5 a l"
    "\<And>a. ky t a = ky s5 a" "\<And>a. pv t a = pv s5 a"
    by (simp_all add: t_def node_defs)
  have frame: "same_frame s3 s5" using same_frame_trans [OF s4(1) s5(1)] .
  have run: "insertNode rand score obj s = Ret t"
  proof -
    have fr: "sl_fresh s1 = x" and lv: "sl_level s4 = ?L"
      using s1(1) s4(1) s3(8) x by (simp_all add: same_frame_def)
    have at: "sl_at s2 (fst (fs ! 0)) = Ret (the (sl_heap s2 (pos_at as k)))"
      using sl_at_alive [of s2 "pos_at as k"] pos_at_alive [OF ok kl] s2(1) fs0 by simp
    have nn: "nd_next (the (sl_heap s2 (pos_at as k))) 0 = (if k < length as then Some (as ! k) else None)"
      using s2(2) [of "pos_at as k" 0] n0 pk by (simp add: nx_def)
    have cs: "(case if k < length as then Some (as ! k) else None of None \<Rightarrow> s2\<lparr>sl_tail := x\<rparr>
        | Some n \<Rightarrow> upd_node n (setPrevious (Some x)) s2) = s3"
      by (simp add: s3_def)
    show ?thesis
      by (simp only: insertNode_def Let_def R [symmetric] f(1) res_bind.simps fs_def [symmetric] s1_def [symmetric] fr
          nd_def [symmetric] s2_def [symmetric] at nn cs s4_def [symmetric] lv s5_def [symmetric] t_def [symmetric])
  qed
  have pvx: "as ! k \<noteq> x" if "k < length as" using ak(2) that .
  show ?thesis
  proof (intro exI [of _ fs] exI [of _ t] conjI)
    show "\<forall>l < max R ?L. fwd_ok as ht k l (fs ! l)" using fw by blast
    show "fs ! 0 = (pos_at as k, of_nat k)" by (rule fs0)
    show "insertNode rand score obj s = Ret t" by (rule run)
    show "sl_fresh t = x + 1" "sl_level t = max R ?L" "sl_length t = sl_length s + 1"
      "sl_tail t = (if k = length as then x else sl_tail s)"
      using frame s3(6-9) by (simp_all add: t_def same_frame_def)
    show "\<forall>a. alive t a \<longleftrightarrow> alive s a \<or> a = x"
      using frame s3(1) t(1) by (simp add: same_frame_def)
    show "\<forall>a. ky t a = (if a = x then (score, obj) else ky s a)"
      using frame s3(4) s2(4) t(4) by (simp add: same_frame_def)
    show "\<forall>a. a = 0 \<or> a \<in> set as \<or> a = x \<longrightarrow> pv t a = (if a = x then if k = 0 then None else Some (pos_at as k)
        else if k < length as \<and> a = as ! k then Some x else pv s a)"
      using frame s3(5) s2(5) t(5) pvx by (auto simp: same_frame_def)
    show "\<forall>a l. nx t a l =
      (if l < R \<and> a = fst (fs ! l) then Some x else if a = x then if l < R then nx s (fst (fs ! l)) l else None
       else nx s a l)"
      using falive by (auto simp: t(2) s5(2) s4(2) s3(2) s2(2))
    show "\<forall>a l. a \<noteq> x \<or> l < R \<longrightarrow> sp t a l =
      (if l < R \<and> a = fst (fs ! l) then of_nat k - snd (fs ! l) + 1
       else if a = x then (if l < ?L then sp s (fst (fs ! l)) l else of_nat k) - (of_nat k - snd (fs ! l))
       else if R \<le> l \<and> l < ?L \<and> a = fst (fs ! l) \<and> nx s a l \<noteq> None then sp s a l + 1 else sp s a l)"
    proof (intro allI impI)
      fix a l assume "a \<noteq> x \<or> l < R"
      moreover have "fst (fs ! l) \<noteq> x" if "l < max R ?L" using falive that by blast
      moreover have "fst (fs ! l) = 0" if "?L \<le> l" "l < R" using new that by simp
      ultimately show "sp t a l =
        (if l < R \<and> a = fst (fs ! l) then of_nat k - snd (fs ! l) + 1
         else if a = x then (if l < ?L then sp s (fst (fs ! l)) l else of_nat k) - (of_nat k - snd (fs ! l))
         else if R \<le> l \<and> l < ?L \<and> a = fst (fs ! l) \<and> nx s a l \<noteq> None then sp s a l + 1 else sp s a l)"
        by (auto simp: t(3) s5(3) s4(2,3) s3(2,3) s2(2,3) fs0)
    qed
  qed
qed

section \<open>Insertion keeps the description\<close>

definition insert_at :: "nat \<Rightarrow> 'b \<Rightarrow> 'b list \<Rightarrow> 'b list" where
  "insert_at k x xs = take k xs @ x # drop k xs"

lemma insert_at_pos:
  assumes "k \<le> length as"
  shows "j \<le> k \<Longrightarrow> pos_at (insert_at k x as) j = pos_at as j"
    and "pos_at (insert_at k x as) (Suc k) = x"
    and "k < j \<Longrightarrow> j \<le> length as \<Longrightarrow> pos_at (insert_at k x as) (Suc j) = pos_at as j"
  using assms by (auto simp: insert_at_def pos_at_def nth_append nth_Cons' min_def)

lemma insert_at_drop:
  assumes "k \<le> length as"
  shows "j \<le> k \<Longrightarrow> drop j (insert_at k x as) = drop j (take k as) @ x # drop k as"
    and "k < j \<Longrightarrow> drop (Suc j) (insert_at k x as) = drop j as"
    and "drop (Suc k) (insert_at k x as) = drop k as"
  using assms by (auto simp: insert_at_def Suc_diff_le)

lemma sorted_insert_place:
  assumes "key_sorted xs"
  shows "key_sorted (insert_at (place xs k) k xs)"
proof -
  let ?p = "place xs k"
  have lt: "\<forall>x \<in> set (take ?p xs). key_lt x k"
    using place_before [of _ xs k] by (auto simp: set_conv_nth)
  have ge: "\<forall>y \<in> set (drop ?p xs). \<not> key_lt y k"
  proof
    fix y assume "y \<in> set (drop ?p xs)"
    then obtain i where "y = xs ! (?p + i)" "?p + i < length xs"
      using place_le [of xs k] by (auto simp: set_conv_nth)
    then show "\<not> key_lt y k" using place_after [OF assms, of k "?p + i"] by simp
  qed
  have asym: "\<not> key_lt k x" if "key_lt x k" for x using that unfolding key_lt_def by auto
  have "sorted_wrt (\<lambda>x y. \<not> key_lt y x) (take ?p xs @ drop ?p xs)"
    using assms by (simp add: key_sorted_def)
  then show ?thesis
    using lt ge asym unfolding key_sorted_def insert_at_def sorted_wrt_append by simp
qed

text \<open>The links of the old nodes and of the new one, level by level.\<close>

lemma link_insert_low:
  assumes "\<forall>w \<in> set ws. ht w \<le> l" and "x \<notin> set ws" and "x \<notin> set ys"
  shows "link (ht(x := R)) l (ws @ x # ys) =
    (if l < R then Some (x, length ws + 1) else map_option (apsnd Suc) (link ht l (ws @ ys)))"
proof -
  have "link (ht(x := R)) l (ws @ x # ys) = map_option (apsnd ((+) (length ws))) (link (ht(x := R)) l (x # ys))"
    using assms by (intro link_append_low) auto
  moreover have "link (ht(x := R)) l ys = link ht l ys" using assms(3) by (intro link_cong) auto
  ultimately show ?thesis
    using link_append_low [OF assms(1), of ys] by (cases "link ht l ys") auto
qed

lemma link_insert_high:
  assumes "w \<in> set ws" and "l < ht w" and "x \<notin> set ws"
  shows "link (ht(x := R)) l (ws @ x # ys) = link ht l (ws @ ys)"
proof -
  have "link (ht(x := R)) l ws = link ht l ws" using assms(3) by (intro link_cong) auto
  moreover have "w \<noteq> x" using assms by auto
  ultimately show ?thesis using link_append_high [OF assms(1), of l ht ys] assms(1,2)
      link_append_high [of w ws l "ht(x := R)" "x # ys"] by simp
qed

text \<open>What an insertion does to links and spans, as \<open>insert_effect\<close> gives it.\<close>

definition relinked ::
  "('s, 'a) skiplist \<Rightarrow> nat \<Rightarrow> nat \<Rightarrow> nat \<Rightarrow> (nat \<times> 32 word) list \<Rightarrow> ('s, 'a) skiplist \<Rightarrow> bool" where
  "relinked s k x R fs t \<longleftrightarrow>
    (\<forall>a l. nx t a l =
      (if l < R \<and> a = fst (fs ! l) then Some x else if a = x then if l < R then nx s (fst (fs ! l)) l else None
       else nx s a l)) \<and>
    (\<forall>a l. a \<noteq> x \<or> l < R \<longrightarrow> sp t a l =
      (if l < R \<and> a = fst (fs ! l) then of_nat k - snd (fs ! l) + 1
       else if a = x then (if l < sl_level s then sp s (fst (fs ! l)) l else of_nat k) - (of_nat k - snd (fs ! l))
       else if R \<le> l \<and> l < sl_level s \<and> a = fst (fs ! l) \<and> nx s a l \<noteq> None then sp s a l + 1 else sp s a l))"

lemma pos_at_inj:
  assumes "distinct as" and "0 \<notin> set as" and "i \<le> length as" and "j \<le> length as" and "pos_at as i = pos_at as j"
  shows "i = j"
proof -
  have "distinct (0 # as)" using assms by simp
  then show ?thesis using assms(3-5) unfolding pos_at_def by (metis Suc_le_mono le_imp_less_Suc length_Cons nth_eq_iff_index_eq)
qed

lemma pos_at_new: "x \<notin> set as \<Longrightarrow> 0 < x \<Longrightarrow> j \<le> length as \<Longrightarrow> pos_at as j \<noteq> x"
  by (cases j) auto

lemma low_set:
  assumes "j \<le> k" and "k \<le> length as"
  shows "(\<forall>w \<in> set (drop j (take k as)). ht w \<le> (l :: nat)) \<longleftrightarrow> (\<forall>i. j \<le> i \<and> i < k \<longrightarrow> ht (as ! i) \<le> l)"
proof
  assume A: "\<forall>w \<in> set (drop j (take k as)). ht w \<le> l"
  show "\<forall>i. j \<le> i \<and> i < k \<longrightarrow> ht (as ! i) \<le> l"
  proof (intro allI impI)
    fix i assume i: "j \<le> i \<and> i < k"
    then have "drop j (take k as) ! (i - j) \<in> set (drop j (take k as))" using assms by (intro nth_mem) (auto simp: diff_less_mono)
    then show "ht (as ! i) \<le> l" using A i assms by simp
  qed
next
  assume B: "\<forall>i. j \<le> i \<and> i < k \<longrightarrow> ht (as ! i) \<le> l"
  show "\<forall>w \<in> set (drop j (take k as)). ht w \<le> l"
  proof
    fix w assume "w \<in> set (drop j (take k as))"
    then obtain i where "i < k - j" "w = as ! (j + i)" using assms by (auto simp: set_conv_nth)
    then show "ht w \<le> l" using B by simp
  qed
qed

lemma level_before:
  assumes ok: "sl_ok s as ht xs" and kl: "k \<le> length as" and fs: "\<forall>l < max R (sl_level s). fwd_ok as ht k l (fs ! l)"
    and x: "x = sl_fresh s" and t: "relinked s k x R fs t" and j: "j \<le> k" and l: "on_level as ht l j"
  shows "level_ok t (insert_at k x as) (ht(x := R)) l j"
proof -
  let ?L = "sl_level s" and ?a = "pos_at as j" and ?ws = "drop j (take k as)"
  have xn: "x \<notin> set as" "0 < x" using sl_okD(2,3) [OF ok] x by auto
  have z: "0 \<notin> set as" using sl_okD(2) [OF ok] by auto
  have hL: "ht w \<le> ?L" if "w \<in> set as" for w using sl_okD(2) [OF ok that] by simp
  have jl: "j \<le> length as" using j kl by simp
  have ax: "?a \<noteq> x" using pos_at_new [OF xn jl] .
  have pa: "pos_at (insert_at k x as) j = ?a" using insert_at_pos(1) [OF kl j] .
  have dr: "drop j (insert_at k x as) = ?ws @ x # drop k as" using insert_at_drop(1) [OF kl j] .
  have old: "?ws @ drop k as = drop j as" using j kl by (metis append_take_drop_id drop_append length_take min.absorb2 diff_is_0_eq drop0)
  have xw: "x \<notin> set ?ws" "x \<notin> set (drop k as)" using xn(1) by (meson in_set_dropD in_set_takeD)+
  note before = sl_okD(11) [OF ok jl l]
  have u: "\<exists>q \<le> k. fs ! l = (pos_at as q, of_nat q) \<and> (?a = pos_at as q \<longleftrightarrow> (\<forall>w \<in> set ?ws. ht w \<le> l)) \<and>
      (?a = pos_at as q \<longrightarrow> q = j)" if lm: "l < max R ?L"
  proof -
    obtain q where q: "q \<le> k" "fs ! l = (pos_at as q, of_nat q)" "on_level as ht l q"
        "\<forall>i. q \<le> i \<and> i < k \<longrightarrow> ht (as ! i) \<le> l"
      using fs lm unfolding fwd_ok_def by blast
    have inj: "?a = pos_at as q \<longleftrightarrow> q = j" using pos_at_inj [OF sl_okD(1) [OF ok] z] q(1) jl kl by force
    have "(\<forall>w \<in> set ?ws. ht w \<le> l) \<longleftrightarrow> q = j"
      unfolding low_set [OF j kl] using fwd_unique [OF q(3) l q(1) j q(4)] q(4) by blast
    then show ?thesis using q(1,2) inj by blast
  qed
  show ?thesis
  proof (cases "\<forall>w \<in> set ?ws. ht w \<le> l")
    case low: True
    note lk = link_insert_low [OF low xw, of R]
    consider "l < R" | "R \<le> l" "l < ?L" | "R \<le> l" "?L \<le> l" by linarith
    then show ?thesis
    proof cases
      case 1
      then obtain q where "fs ! l = (?a, of_nat j)" using u low by fastforce
      then have "nx t ?a l = Some x" "sp t ?a l = of_nat k - of_nat j + 1"
        using t 1 ax unfolding relinked_def by simp_all
      moreover have "of_nat k - of_nat j + 1 = (of_nat (length ?ws + 1) :: 32 word)"
        using j kl by (simp add: of_nat_diff min_def)
      ultimately show ?thesis unfolding level_ok_def pa dr lk using 1 by simp
    next
      case 2
      then obtain q where "fs ! l = (?a, of_nat j)" using u low by fastforce
      then have "nx t ?a l = nx s ?a l" "sp t ?a l = (if nx s ?a l \<noteq> None then sp s ?a l + 1 else sp s ?a l)"
        using t 2 ax unfolding relinked_def by simp_all
      then show ?thesis using before 2 unfolding level_ok_def pa dr lk old
        by (cases "link ht l (drop j as)") auto
    next
      case 3
      then have "nx t ?a l = nx s ?a l" "sp t ?a l = sp s ?a l"
        using t ax unfolding relinked_def by simp_all
      moreover have "link ht l (drop j as) = None"
        unfolding link_None using hL 3 by (meson in_set_dropD le_trans)
      ultimately show ?thesis using before 3 unfolding level_ok_def pa dr lk old by simp
    qed
  next
    case False
    then obtain w where w: "w \<in> set ?ws" "l < ht w" by auto
    then have "w \<in> set as" by (meson in_set_dropD in_set_takeD)
    then have lL: "l < ?L" using hL w(2) by fastforce
    then obtain q where "fs ! l = (pos_at as q, of_nat q)" "?a \<noteq> pos_at as q" using u False by fastforce
    then have "nx t ?a l = nx s ?a l" "sp t ?a l = sp s ?a l"
      using t ax unfolding relinked_def by simp_all
    then show ?thesis using before unfolding level_ok_def pa dr link_insert_high [where ht = ht and l = l, OF w xw(1)] old
      by (auto split: option.splits)
  qed
qed

lemma level_new:
  assumes ok: "sl_ok s as ht xs" and kl: "k \<le> length as" and fs: "\<forall>l < max R (sl_level s). fwd_ok as ht k l (fs ! l)"
    and x: "x = sl_fresh s" and t: "relinked s k x R fs t" and l: "l < R"
  shows "level_ok t (insert_at k x as) (ht(x := R)) l (Suc k)"
proof -
  let ?L = "sl_level s"
  have xn: "x \<notin> set as" "0 < x" using sl_okD(2,3) [OF ok] x by auto
  have "l < max R ?L" using l by simp
  then obtain q where q: "q \<le> k" "fs ! l = (pos_at as q, of_nat q)" "on_level as ht l q"
      "\<forall>i. q \<le> i \<and> i < k \<longrightarrow> ht (as ! i) \<le> l"
    using fs unfolding fwd_ok_def by blast
  have ql: "q \<le> length as" using q(1) kl by simp
  have low: "\<forall>w \<in> set (drop q (take k as)). ht w \<le> l" using q(4) low_set [OF q(1) kl, of ht l] by blast
  have ax: "pos_at as q \<noteq> x" using pos_at_new [OF xn ql] .
  have pa: "pos_at (insert_at k x as) (Suc k) = x" using insert_at_pos(2) [OF kl] .
  have dr: "drop (Suc k) (insert_at k x as) = drop k as" using insert_at_drop(3) [OF kl] .
  have old: "drop q (take k as) @ drop k as = drop q as"
    using q(1) kl by (metis append_take_drop_id drop_append length_take min.absorb2 diff_is_0_eq drop0)
  have lx: "link (ht(x := R)) l (drop k as) = link ht l (drop k as)"
    using xn(1) by (intro link_cong) (auto dest: in_set_dropD)
  have lq: "link ht l (drop q as) = map_option (apsnd ((+) (k - q))) (link ht l (drop k as))"
    using link_append_low [OF low, of "drop k as"] kl by (simp add: old min_def)
  note before = sl_okD(11) [OF ok ql q(3)]
  have nt: "nx t x l = nx s (pos_at as q) l"
    "sp t x l = (if l < ?L then sp s (pos_at as q) l else of_nat k) - of_nat (k - q)"
    using t l q(1,2) ax unfolding relinked_def by (auto simp: of_nat_diff)
  show ?thesis
  proof (cases "link ht l (drop k as)")
    case (Some p)
    then obtain b d where b: "link ht l (drop k as) = Some (b, d)" by (cases p) auto
    have "b \<in> set as" "l < ht b"
      using link_Some [OF b] by (metis in_set_dropD nth_mem Suc_pred' less_eq_Suc_le One_nat_def le_trans, simp)
    then have "l < ?L" using sl_okD(2) [OF ok, of b] by linarith
    then show ?thesis using before lq b nt unfolding level_ok_def pa dr lx by simp
  next
    case None
    then have n: "link ht l (drop q as) = None" using lq by simp
    then obtain g where g: "g \<le> q" "nx s (pos_at as q) l = None" "sp s (pos_at as q) l = - of_nat g"
      using before by (auto simp: level_ok_def)
    show ?thesis
    proof (cases "l < ?L")
      case True
      have "sp t x l = - of_nat (g + (k - q))" using nt(2) True g(3) by simp
      then show ?thesis using nt(1) g None q(1) unfolding level_ok_def pa dr lx by (auto intro!: exI [of _ "g + (k - q)"])
    next
      case False
      then have "q = 0" using q(3) ql sl_okD(2) [OF ok nth_mem, of "q - 1"] by (cases q) (auto simp: on_level_def)
      then have "sp t x l = - of_nat 0" using nt(2) False by simp
      then show ?thesis using nt(1) g None unfolding level_ok_def pa dr lx by (auto intro!: exI [of _ 0])
    qed
  qed
qed

lemma level_after:
  assumes ok: "sl_ok s as ht xs" and kl: "k \<le> length as" and fs: "\<forall>l < max R (sl_level s). fwd_ok as ht k l (fs ! l)"
    and x: "x = sl_fresh s" and t: "relinked s k x R fs t" and j: "k < j" "j \<le> length as" and l: "on_level as ht l j"
  shows "level_ok t (insert_at k x as) (ht(x := R)) l (Suc j)"
proof -
  let ?a = "pos_at as j"
  have xn: "x \<notin> set as" "0 < x" and z: "0 \<notin> set as" using sl_okD(2,3) [OF ok] x by auto
  have ax: "?a \<noteq> x" using pos_at_new [OF xn j(2)] .
  have "l < sl_level s" using l j sl_okD(2) [OF ok nth_mem, of "j - 1"] by (cases j) (auto simp: on_level_def)
  then have "l < max R (sl_level s)" by simp
  then obtain q where q: "q \<le> k" "fs ! l = (pos_at as q, of_nat q)" using fs unfolding fwd_ok_def by blast
  then have "?a \<noteq> pos_at as q" using pos_at_inj [OF sl_okD(1) [OF ok] z j(2), of q] j kl by auto
  then have "nx t ?a l = nx s ?a l" "sp t ?a l = sp s ?a l"
    using t ax q(2) unfolding relinked_def by simp_all
  moreover have "link (ht(x := R)) l (drop j as) = link ht l (drop j as)"
    using xn(1) by (intro link_cong) (auto dest: in_set_dropD)
  ultimately show ?thesis
    using sl_okD(11) [OF ok j(2) l] unfolding level_ok_def insert_at_pos(3) [OF kl j] insert_at_drop(2) [OF kl j(1)]
    by (auto split: option.splits intro: le_SucI)
qed

lemma nth_insert_at:
  assumes "k \<le> length as" and "j \<le> length as"
  shows "insert_at k x as ! j = (if j < k then as ! j else if j = k then x else as ! (j - 1))"
  using assms by (auto simp: insert_at_def nth_append nth_Cons' min_def)

lemma length_insert_at [simp]: "length (insert_at k x as) = Suc (length as)"
  by (simp add: insert_at_def)

lemma set_insert_at [simp]: "set (insert_at k x as) = insert x (set as)"
  unfolding insert_at_def by (metis Un_insert_right append_take_drop_id list.simps(15) set_append)

lemma distinct_insert_at: "distinct as \<Longrightarrow> x \<notin> set as \<Longrightarrow> distinct (insert_at k x as)"
  unfolding insert_at_def by (auto simp: set_take_disj_set_drop_if_distinct dest: in_set_takeD in_set_dropD)

lemma last_insert_at:
  "k \<le> length as \<Longrightarrow> last (0 # insert_at k x as) = (if k = length as then x else last (0 # as))"
  by (auto simp: insert_at_def)

lemma map_insert_at:
  "(\<And>a. a \<in> set as \<Longrightarrow> f a = g a) \<Longrightarrow> f x = y \<Longrightarrow> map f (insert_at k x as) = insert_at k y (map g as)"
  by (auto simp: insert_at_def take_map drop_map dest: in_set_takeD in_set_dropD)

lemma insert_ok:
  assumes ok: "sl_ok s as ht xs"
  shows "\<exists>t. insertNode rand score obj s = Ret t \<and>
    sl_ok t (insert_at (place xs (score, obj)) (sl_fresh s) as) (ht(sl_fresh s := randomLevel rand))
      (insert_at (place xs (score, obj)) (score, obj) xs)"
proof -
  define k x R where "k = place xs (score, obj)" and "x = sl_fresh s" and "R = randomLevel rand"
  have kl: "k \<le> length as" using place_le [of xs "(score, obj)"] sl_okD(6) [OF ok] by (simp add: k_def)
  have xn: "x \<notin> set as" "0 < x" using sl_okD(2,3) [OF ok] by (auto simp: x_def)
  obtain fs t where fs: "\<forall>l < max R (sl_level s). fwd_ok as ht k l (fs ! l)"
    and run: "insertNode rand score obj s = Ret t" and t: "sl_fresh t = x + 1" "sl_level t = max R (sl_level s)"
      "sl_length t = sl_length s + 1" "sl_tail t = (if k = length as then x else sl_tail s)"
    and al: "\<And>a. alive t a \<longleftrightarrow> alive s a \<or> a = x" and ky: "\<And>a. ky t a = (if a = x then (score, obj) else ky s a)"
    and pv: "\<And>a. a = 0 \<or> a \<in> set as \<or> a = x \<Longrightarrow> pv t a = (if a = x then if k = 0 then None else Some (pos_at as k)
        else if k < length as \<and> a = as ! k then Some x else pv s a)"
    and re: "relinked s k x R fs t"
    using insert_effect [OF ok k_def R_def x_def] unfolding relinked_def by blast
  have "sl_ok t (insert_at k x as) (ht(x := R)) (insert_at k (score, obj) xs)"
    unfolding sl_ok_def
  proof (intro conjI)
    show "distinct (insert_at k x as)" by (rule distinct_insert_at [OF sl_okD(1) [OF ok] xn(1)])
    have "1 \<le> R" using randomLevel_bounds by (simp add: R_def)
    then show "\<forall>a \<in> set (insert_at k x as). 0 < a \<and> a < sl_fresh t \<and> alive t a \<and> 1 \<le> (ht(x := R)) a \<and>
        (ht(x := R)) a \<le> sl_level t"
    proof (intro ballI)
      fix a assume "a \<in> set (insert_at k x as)"
      then consider "a = x" | "a \<in> set as" "a \<noteq> x" using xn(1) by auto
      then show "0 < a \<and> a < sl_fresh t \<and> alive t a \<and> 1 \<le> (ht(x := R)) a \<and> (ht(x := R)) a \<le> sl_level t"
      proof cases
        case 1
        then show ?thesis using xn t(1,2) al \<open>1 \<le> R\<close> by simp
      next
        case 2
        then show ?thesis using sl_okD(2) [OF ok 2(1)] t(1,2) al by (simp add: x_def le_max_iff_disj)
      qed
    qed
    show "0 < sl_fresh t" "alive t 0" "1 \<le> sl_level t"
      using t(1,2) al sl_okD(4,5) [OF ok] by auto
    show "insert_at k (score, obj) xs = map (ky t) (insert_at k x as)"
      unfolding sl_okD(6) [OF ok] using xn(1) ky by (intro map_insert_at [symmetric]) auto
    show "key_sorted (insert_at k (score, obj) xs)"
      using sorted_insert_place [OF sl_okD(7) [OF ok]] by (simp add: k_def)
    show "sl_length t = of_nat (length (insert_at k x as))" using t(3) sl_okD(8) [OF ok] by simp
    show "sl_tail t = last (0 # insert_at k x as)"
      using t(4) sl_okD(9) [OF ok] last_insert_at [OF kl] by simp
    show "\<forall>j < length (insert_at k x as). pv t (insert_at k x as ! j) =
        (if j = 0 then None else Some (insert_at k x as ! (j - 1)))"
    proof (intro allI impI)
      fix j assume "j < length (insert_at k x as)"
      then have j: "j \<le> length as" "j - 1 \<le> length as" by auto
      have old: "pv t (as ! i) = (if i = k then Some x else if i = 0 then None else Some (as ! (i - 1)))"
        if "i < length as" for i
      proof -
        have ik: "k < length as \<and> as ! i = as ! k \<longleftrightarrow> i = k"
          using nth_eq_iff_index_eq [OF sl_okD(1) [OF ok] that, of k] that by (cases "k < length as") auto
        have "as ! i \<in> set as" using that by simp
        then have "pv t (as ! i) = (if i = k then Some x else pv s (as ! i))"
          using pv [of "as ! i"] xn(1) ik by auto
        then show ?thesis using sl_okD(10) [OF ok that] by simp
      qed
      show "pv t (insert_at k x as ! j) = (if j = 0 then None else Some (insert_at k x as ! (j - 1)))"
        unfolding nth_insert_at [OF kl j(1)] nth_insert_at [OF kl j(2)]
      proof (cases j k rule: linorder_cases)
        case less
        then show "pv t (if j < k then as ! j else if j = k then x else as ! (j - 1)) = (if j = 0 then None
            else Some (if j - 1 < k then as ! (j - 1) else if j - 1 = k then x else as ! (j - 1 - 1)))"
          using old [of j] kl by simp
      next
        case equal
        then show "pv t (if j < k then as ! j else if j = k then x else as ! (j - 1)) = (if j = 0 then None
            else Some (if j - 1 < k then as ! (j - 1) else if j - 1 = k then x else as ! (j - 1 - 1)))"
          using pv [of x] pos_at_pred [of k as] by simp
      next
        case greater
        then show "pv t (if j < k then as ! j else if j = k then x else as ! (j - 1)) = (if j = 0 then None
            else Some (if j - 1 < k then as ! (j - 1) else if j - 1 = k then x else as ! (j - 1 - 1)))"
          using old [of "j - 1"] j(1) by auto
      qed
    qed
    show "\<forall>j l. j \<le> length (insert_at k x as) \<longrightarrow> on_level (insert_at k x as) (ht(x := R)) l j \<longrightarrow>
        level_ok t (insert_at k x as) (ht(x := R)) l j"
    proof (intro allI impI)
      fix j l assume j: "j \<le> length (insert_at k x as)" and l: "on_level (insert_at k x as) (ht(x := R)) l j"
      consider "j \<le> k" | "j = Suc k" | i where "j = Suc i" "k < i" "i \<le> length as"
        using j by (cases j) (auto, linarith)
      then show "level_ok t (insert_at k x as) (ht(x := R)) l j"
      proof cases
        case 1
        then have "on_level as ht l j"
          using l insert_at_pos(1) [OF kl 1, of x] pos_at_new [OF xn, of j] kl by (auto simp: on_level_def)
        then show ?thesis using level_before [OF ok kl fs x_def re 1] by blast
      next
        case 2
        then have "l < R" using l insert_at_pos(2) [OF kl, of x] by (simp add: on_level_def)
        then show ?thesis using level_new [OF ok kl fs x_def re] 2 by blast
      next
        case 3
        then have "on_level as ht l i"
          using l insert_at_pos(3) [OF kl 3(2,3), of x] pos_at_new [OF xn 3(3)] by (auto simp: on_level_def)
        then show ?thesis using level_after [OF ok kl fs x_def re 3(2,3)] 3(1) by blast
      qed
    qed
  qed
  then show ?thesis using run by (auto simp: k_def x_def R_def)
qed

lemma new_skiplist_ok: "sl_ok (new_skiplist n) [] ht []"
  by (auto simp: sl_ok_def new_skiplist_def new_sl_node_def key_sorted_def level_ok_def on_level_def node_defs)

section \<open>The node of a rank\<close>

lemma garbage_span:
  assumes "g < 2 ^ 31" and "1 \<le> r" and "r < 2 ^ 31"
  shows "- of_nat g \<noteq> (of_nat r :: 32 word)"
proof
  assume "- of_nat g = (of_nat r :: 32 word)"
  then have "(of_nat (r + g) :: 32 word) = 0" by (simp add: eq_neg_iff_add_eq_0 [symmetric])
  then have "2 ^ LENGTH(32) dvd r + g" by (simp only: word_of_nat_eq_0_iff)
  then show False using assms by (auto dest: dvd_imp_le)
qed

lemma of_nat_lt: "a < 2 ^ 32 \<Longrightarrow> b < 2 ^ 32 \<Longrightarrow> (of_nat a :: 32 word) < of_nat b \<longleftrightarrow> a < b"
  by (simp add: word_less_nat_alt unat_of_nat)

lemma of_nat_eq: "a < 2 ^ 32 \<Longrightarrow> b < 2 ^ 32 \<Longrightarrow> (of_nat a :: 32 word) = of_nat b \<longleftrightarrow> a = b"
  using of_nat_lt [of a b] of_nat_lt [of b a] by (metis linorder_neqE_nat order_less_irrefl)

lemma skip_ranks_ok:
  assumes ok: "sl_ok s as ht xs" and small: "length as < 2 ^ 31" "r < 2 ^ 31"
  shows "j \<le> length as \<Longrightarrow> j < r \<Longrightarrow> on_level as ht l j \<Longrightarrow> length as - j < f \<Longrightarrow>
    \<exists>j'. j' \<le> length as \<and> j' < r \<and> on_level as ht l j' \<and>
      skip_ranks f s l (pos_at as j) (of_nat (r - j)) = Ret (pos_at as j', of_nat (r - j')) \<and>
      (nx s (pos_at as j') l = None \<and> sp s (pos_at as j') l \<noteq> of_nat (r - j') \<and>
         (\<forall>i. j' \<le> i \<and> i < length as \<longrightarrow> ht (as ! i) \<le> l) \<or>
       (\<exists>d \<ge> 1. j' + d \<le> length as \<and> r \<le> j' + d \<and> nx s (pos_at as j') l = Some (pos_at as (j' + d)) \<and>
         sp s (pos_at as j') l = of_nat d \<and> (\<forall>i. j' \<le> i \<and> i < j' + d - 1 \<longrightarrow> ht (as ! i) \<le> l)))"
proof (induction f arbitrary: j)
  case (Suc f)
  note at = sl_at_alive [OF pos_at_alive [OF ok Suc.prems(1)]]
  from next_position [OF ok Suc.prems(1,3)] show ?case
  proof (elim disjE exE conjE)
    fix g assume g: "nx s (pos_at as j) l = None" "g \<le> j" "sp s (pos_at as j) l = - of_nat g"
      "\<forall>i. j \<le> i \<and> i < length as \<longrightarrow> ht (as ! i) \<le> l"
    then have "sp s (pos_at as j) l \<noteq> of_nat (r - j)"
      using garbage_span [of g "r - j"] small Suc.prems(1,2) by simp
    moreover have "skip_ranks (Suc f) s l (pos_at as j) (of_nat (r - j)) = Ret (pos_at as j, of_nat (r - j))"
      using g(1) by (simp add: at nx_def)
    ultimately show ?thesis using g(1,4) Suc.prems by blast
  next
    fix d assume d: "1 \<le> d" "j + d \<le> length as" "nx s (pos_at as j) l = Some (pos_at as (j + d))"
      "sp s (pos_at as j) l = of_nat d" "l < ht (pos_at as (j + d))"
      "\<forall>i. j \<le> i \<and> i < j + d - 1 \<longrightarrow> ht (as ! i) \<le> l"
    have c: "(of_nat d :: 32 word) < of_nat (r - j) \<longleftrightarrow> j + d < r"
      using of_nat_lt [of d "r - j"] small d(2) by auto
    have step: "skip_ranks (Suc f) s l (pos_at as j) (of_nat (r - j)) =
        (if j + d < r then skip_ranks f s l (pos_at as (j + d)) (of_nat (r - (j + d)))
         else Ret (pos_at as j, of_nat (r - j)))"
      using d(3,4) c by (simp add: at nx_def [symmetric] sp_def [symmetric] of_nat_diff Suc.prems(2) algebra_simps)
    show ?thesis
    proof (cases "j + d < r")
      case True
      have "on_level as ht l (j + d)" using d(5) by (simp add: on_level_def)
      moreover have "length as - (j + d) < f" using Suc.prems(4) d(1,2) by simp
      ultimately show ?thesis unfolding step using Suc.IH [OF d(2) True] True by simp
    next
      case False
      then have "r \<le> j + d" by simp
      then show ?thesis unfolding step using d Suc.prems False
        by (intro exI [of _ j] conjI disjI2 exI [of _ d]) simp_all
    qed
  qed
qed simp

lemma by_rank_step:
  assumes ok: "sl_ok s as ht xs" and small: "length as < 2 ^ 31" "r < 2 ^ 31"
    and j: "j \<le> length as" "j < r" "on_level as ht l j"
  shows "(r \<le> length as \<and> by_rank_levels s (Suc l) (pos_at as j) (of_nat (r - j)) = Ret (Some (as ! (r - 1)))) \<or>
    (\<exists>j'. j' \<le> length as \<and> j' < r \<and> on_level as ht l j' \<and>
      by_rank_levels s (Suc l) (pos_at as j) (of_nat (r - j)) = by_rank_levels s l (pos_at as j') (of_nat (r - j')) \<and>
      (l = 0 \<longrightarrow> length as < r))"
proof -
  have high: "1 \<le> ht (as ! i)" if "i < length as" for i using sl_okD(2) [OF ok nth_mem [OF that]] by simp
  have "length as - j < Suc (sl_fresh s)" using length_le_fresh [OF ok] by simp
  from skip_ranks_ok [OF ok small j this] obtain j' where j': "j' \<le> length as" "j' < r" "on_level as ht l j'"
      "skip_ranks (Suc (sl_fresh s)) s l (pos_at as j) (of_nat (r - j)) = Ret (pos_at as j', of_nat (r - j'))"
    and alt: "nx s (pos_at as j') l = None \<and> sp s (pos_at as j') l \<noteq> of_nat (r - j') \<and>
         (\<forall>i. j' \<le> i \<and> i < length as \<longrightarrow> ht (as ! i) \<le> l) \<or>
       (\<exists>d \<ge> 1. j' + d \<le> length as \<and> r \<le> j' + d \<and> nx s (pos_at as j') l = Some (pos_at as (j' + d)) \<and>
         sp s (pos_at as j') l = of_nat d \<and> (\<forall>i. j' \<le> i \<and> i < j' + d - 1 \<longrightarrow> ht (as ! i) \<le> l))"
    by blast
  have step: "by_rank_levels s (Suc l) (pos_at as j) (of_nat (r - j)) =
      (if sp s (pos_at as j') l = of_nat (r - j') then Ret (nx s (pos_at as j') l)
       else by_rank_levels s l (pos_at as j') (of_nat (r - j')))"
    by (simp only: by_rank_levels.simps j'(4) res_bind.simps case_prod_conv sl_at_alive [OF pos_at_alive [OF ok j'(1)]]
        sp_def nx_def)
  from alt show ?thesis
  proof (elim disjE exE conjE)
    assume n: "sp s (pos_at as j') l \<noteq> of_nat (r - j')" "\<forall>i. j' \<le> i \<and> i < length as \<longrightarrow> ht (as ! i) \<le> l"
    have "length as < r" if "l = 0"
    proof (rule ccontr)
      assume "\<not> length as < r"
      then have "j' < length as" using j'(2) by simp
      then show False using n(2) high [of j'] that by fastforce
    qed
    then show ?thesis using step n(1) j' by auto
  next
    fix d assume d: "1 \<le> d" "j' + d \<le> length as" "r \<le> j' + d" "nx s (pos_at as j') l = Some (pos_at as (j' + d))"
      "sp s (pos_at as j') l = of_nat d" "\<forall>i. j' \<le> i \<and> i < j' + d - 1 \<longrightarrow> ht (as ! i) \<le> l"
    have e: "sp s (pos_at as j') l = of_nat (r - j') \<longleftrightarrow> r = j' + d"
      using of_nat_eq [of d "r - j'"] small d(2,5) j'(2) by auto
    show ?thesis
    proof (cases "r = j' + d")
      case True
      then have "pos_at as (j' + d) = as ! (r - 1)" using d(1) pos_at_pred [of "j' + d" as] by simp
      then show ?thesis using step e True d(2,4) by simp
    next
      case False
      then have "r < j' + d" using d(3) by simp
      then have "\<not> l = 0" using d(6) high [of j'] d(2) j'(2) by fastforce
      then show ?thesis using step e False j' by auto
    qed
  qed
qed

lemma by_rank_ok:
  assumes ok: "sl_ok s as ht xs" and small: "length as < 2 ^ 31" "r < 2 ^ 31"
  shows "j \<le> length as \<Longrightarrow> j < r \<Longrightarrow> on_level as ht l j \<Longrightarrow>
    by_rank_levels s (Suc l) (pos_at as j) (of_nat (r - j)) = Ret (if r \<le> length as then Some (as ! (r - 1)) else None)"
proof (induction l arbitrary: j)
  case (0 j)
  from by_rank_step [OF ok small 0] show ?case by auto
next
  case (Suc l)
  from by_rank_step [OF ok small Suc.prems] show ?case
  proof (elim disjE exE conjE)
    fix j' assume j': "j' \<le> length as" "j' < r" "on_level as ht (Suc l) j'"
      "by_rank_levels s (Suc (Suc l)) (pos_at as j) (of_nat (r - j)) =
       by_rank_levels s (Suc l) (pos_at as j') (of_nat (r - j'))"
    have "on_level as ht l j'" using j'(3) by (auto simp: on_level_def)
    from Suc.IH [OF j'(1,2) this] show ?case using j'(4) by simp
  qed simp
qed

lemma node_of_rank:
  assumes ok: "sl_ok s as ht xs" and "length as < 2 ^ 31" and "1 \<le> r" and "r < 2 ^ 31"
  shows "getNodeByRank (of_nat r) s = Ret (if r \<le> length as then Some (as ! (r - 1)) else None)"
proof -
  obtain l where l: "sl_level s = Suc l" using sl_okD(5) [OF ok] by (cases "sl_level s") auto
  show ?thesis
    using by_rank_ok [OF ok assms(2,4), of 0 l] assms(3) by (simp add: getNodeByRank_def l on_level_def)
qed

section \<open>Lists built by insertions\<close>

definition sl_rel :: "('s :: linorder, 'a :: linorder) skiplist \<Rightarrow> ('s \<times> 'a) list \<Rightarrow> bool" where
  "sl_rel s xs \<longleftrightarrow> (\<exists>as ht. sl_ok s as ht xs)"

definition key_insert :: "'s :: linorder \<times> 'a :: linorder \<Rightarrow> ('s \<times> 'a) list \<Rightarrow> ('s \<times> 'a) list" where
  "key_insert k xs = takeWhile (\<lambda>x. key_lt x k) xs @ k # dropWhile (\<lambda>x. key_lt x k) xs"

lemma insert_at_place: "insert_at (place xs k) k xs = key_insert k xs"
  by (simp add: insert_at_def place_def key_insert_def takeWhile_eq_take [symmetric] dropWhile_eq_drop [symmetric])

lemma insert_rel: "sl_rel s xs \<Longrightarrow> \<exists>t. insertNode rand score obj s = Ret t \<and> sl_rel t (key_insert (score, obj) xs)"
  using insert_ok unfolding sl_rel_def insert_at_place by blast

lemma new_rel: "sl_rel (new_skiplist n) []"
  using new_skiplist_ok unfolding sl_rel_def by blast

lemma one_element: "\<exists>t. insertNode 0 (1 :: int) (7 :: int) (new_skiplist 0) = Ret t \<and> sl_rel t [(1, 7)]"
  using insert_rel [OF new_rel, of 0 1 "7 :: int" 0] by (simp add: key_insert_def)

text \<open>
  \<open>getRank\<close> tests the node its loop stopped at for the condition that would have gone on: no level
  finds anything. The loops end, whatever the order that the objects point to.
\<close>

lemma rank_walk_ok:
  assumes ok: "sl_ok s as ht xs"
  shows "j \<le> length as \<Longrightarrow> on_level as ht l j \<Longrightarrow> length as - j < f \<Longrightarrow>
    \<exists>j' t. rank_walk deref f s l score obj (pos_at as j) tot = Ret (pos_at as j', t) \<and> j' \<le> length as \<and>
      on_level as ht l j' \<and>
      (nx s (pos_at as j') l = None \<or>
       (\<exists>b. nx s (pos_at as j') l = Some b \<and> alive s b \<and> \<not> deref (nd_obj (the (sl_heap s b))) < deref obj))"
proof (induction f arbitrary: j tot)
  case (Suc f)
  have at: "sl_at s (pos_at as j) = Ret (the (sl_heap s (pos_at as j)))"
    using sl_at_alive [OF pos_at_alive [OF ok Suc.prems(1)]] .
  from next_position [OF ok Suc.prems(1,2)] show ?case
  proof (elim disjE exE conjE)
    assume n: "nx s (pos_at as j) l = None"
    then have "rank_walk deref (Suc f) s l score obj (pos_at as j) tot = Ret (pos_at as j, tot)"
      by (simp add: at nx_def [symmetric])
    then show ?thesis using n Suc.prems by blast
  next
    fix d assume d: "1 \<le> d" "j + d \<le> length as" "nx s (pos_at as j) l = Some (pos_at as (j + d))"
      "l < ht (pos_at as (j + d))"
    let ?b = "pos_at as (j + d)" let ?n = "the (sl_heap s (pos_at as (j + d)))"
    have ab: "alive s ?b" using pos_at_alive [OF ok d(2)] .
    have step: "rank_walk deref (Suc f) s l score obj (pos_at as j) tot =
        (if nd_score ?n < score \<or> deref (nd_obj ?n) < deref obj
         then rank_walk deref f s l score obj ?b (tot + nd_span ?n l) else Ret (pos_at as j, tot))"
      using d(3) by (simp add: at nx_def [symmetric] sl_at_alive [OF ab])
    show ?thesis
    proof (cases "nd_score ?n < score \<or> deref (nd_obj ?n) < deref obj")
      case True
      have "on_level as ht l (j + d)" "length as - (j + d) < f"
        using d(1,2,4) Suc.prems(3) by (simp_all add: on_level_def)
      from Suc.IH [OF d(2) this, of "tot + nd_span ?n l"] show ?thesis using step True by simp
    next
      case False
      then show ?thesis using step d(3) ab Suc.prems(1,2) by auto
    qed
  qed
qed simp

lemma rank_levels_none:
  assumes ok: "sl_ok s as ht xs"
  shows "j \<le> length as \<Longrightarrow> j = 0 \<or> l \<le> ht (pos_at as j) \<Longrightarrow>
    rank_levels deref s score obj l (pos_at as j) tot = Ret (- 1)"
proof (induction l arbitrary: j tot)
  case (Suc l)
  have "on_level as ht l j" using Suc.prems(2) by (auto simp: on_level_def)
  moreover have "length as - j < Suc (sl_fresh s)" using length_le_fresh [OF ok] by simp
  ultimately obtain j' t where w: "rank_walk deref (Suc (sl_fresh s)) s l score obj (pos_at as j) tot = Ret (pos_at as j', t)"
    "j' \<le> length as" "on_level as ht l j'"
    "nx s (pos_at as j') l = None \<or>
     (\<exists>b. nx s (pos_at as j') l = Some b \<and> alive s b \<and> \<not> deref (nd_obj (the (sl_heap s b))) < deref obj)"
    using rank_walk_ok [OF ok Suc.prems(1)] by blast
  have at: "sl_at s (pos_at as j') = Ret (the (sl_heap s (pos_at as j')))"
    using sl_at_alive [OF pos_at_alive [OF ok w(2)]] .
  have "j' = 0 \<or> l \<le> ht (pos_at as j')" using w(3) by (auto simp: on_level_def)
  note IH = Suc.IH [OF w(2) this, of t]
  from w(4) show ?case
  proof (elim disjE exE conjE)
    assume "nx s (pos_at as j') l = None"
    then show ?thesis using w(1) at IH by (simp add: nx_def del: rank_walk.simps)
  next
    fix b assume b: "nx s (pos_at as j') l = Some b" "alive s b" "\<not> deref (nd_obj (the (sl_heap s b))) < deref obj"
    then show ?thesis using w(1) at IH sl_at_alive [OF b(2)] by (simp add: nx_def del: rank_walk.simps)
  qed
qed simp

lemma rank_none: "sl_rel s xs \<Longrightarrow> getRank deref score obj s = Ret (- 1)"
  using rank_levels_none [of s _ _ xs 0 "sl_level s" deref score obj 0]
  by (auto simp: sl_rel_def getRank_def)

lemma scan_from:
  assumes ok: "sl_ok s as ht xs"
  shows "j < length as \<Longrightarrow> Suc j < f \<Longrightarrow> scan_loop f s (Some (as ! j)) = Fault NullDeref"
proof (induction j arbitrary: f)
  case 0
  then obtain g where "f = Suc (Suc g)" by (cases f; cases "f - 1") auto
  then show ?case
    using sl_okD(2,10) [OF ok] 0 nth_mem [OF 0(1)]
    by (auto simp: sl_at_alive pv_def)
next
  case (Suc j)
  then obtain g where f: "f = Suc g" "Suc j < g" by (cases f) auto
  have "0 < as ! Suc j" "alive s (as ! Suc j)" using sl_okD(2) [OF ok nth_mem [OF Suc.prems(1)]] by simp_all
  moreover have "nd_prev (the (sl_heap s (as ! Suc j))) = Some (as ! j)"
    using sl_okD(10) [OF ok Suc.prems(1)] by (simp add: pv_def)
  ultimately show ?case using Suc.IH [of g] f Suc.prems(1) by (simp add: sl_at_alive)
qed

lemma scan_destroy_fault:
  assumes ok: "sl_ok s as ht xs" and "as \<noteq> []"
  shows "scanAll s = Fault NullDeref \<and> destroy s = Fault UseAfterFree"
proof
  have n: "0 < length as" using assms(2) by simp
  have "sl_tail s = as ! (length as - 1)" using sl_okD(9) [OF ok] assms(2) by (simp add: last_conv_nth)
  then show "scanAll s = Fault NullDeref"
    using scan_from [OF ok, of "length as - 1" "Suc (sl_fresh s)"] n length_le_fresh [OF ok] by (simp add: scanAll_def)
  have f: "0 < as ! 0 \<and> alive s (as ! 0) \<and> 1 \<le> ht (as ! 0)" using sl_okD(2) [OF ok nth_mem [OF n]] by blast
  have "link ht 0 (drop 0 as) = Some (as ! 0, 1)" using f n by (cases as) auto
  then have "nx s 0 0 = Some (as ! 0)"
    using sl_okD(11) [OF ok, of 0 0] by (simp add: level_ok_def on_level_def)
  then have h: "sl_at s 0 = Ret (the (sl_heap s 0))" "nd_next (the (sl_heap s 0)) 0 = Some (as ! 0)"
    using sl_at_alive [OF sl_okD(4) [OF ok]] by (simp_all add: nx_def)
  obtain m where m: "sl_fresh s = Suc m" using sl_okD(3) [OF ok] by (cases "sl_fresh s") auto
  let ?s = "s\<lparr>sl_heap := (sl_heap s)(as ! 0 := None)\<rparr>"
  have "sl_at ?s 0 = Ret (the (sl_heap s 0))" "sl_at ?s (as ! 0) = Fault UseAfterFree"
    using f h(1) by (auto simp: sl_at_def)
  then show "destroy s = Fault UseAfterFree"
    using h f by (simp add: destroy_def m sl_at_alive)
qed

section \<open>Properties\<close>

text \<open>
  C17 Inserting into a skip list that insertions have built inserts into its sorted list of keys: whatever level the random
  number gives, insertNode returns, the new key stands before the first one that is not smaller, the list
  stays sorted by score and object, and every link and span of every level, the previous pointers, the tail and
  the length are again those of the list.
\<close>

theorem skiplist_insert_refines:
  assumes "sl_rel s xs"
  shows "\<exists>t. insertNode rand score obj s = Ret t \<and> sl_rel t (key_insert (score, obj) xs)"
  using insert_rel [OF assms] .

theorem skiplist_insert_refines_witness:
  "\<exists>t. insertNode 5 (1 :: int) (7 :: int) (new_skiplist 0) = Ret t \<and> sl_rel t [(1, 7)]"
  using skiplist_insert_refines [OF new_rel, of 5 1 "7 :: int" 0] by (simp add: key_insert_def)

text \<open>
  C26 getNodeByRank finds the node of each rank in a list that insertions have built: for ranks from 1 to the length
  the node with that place in the sorted list, for larger ones none. The leftover spans of links that
  lead nowhere do no harm as long as ranks and length are below 2 ^ 31.
\<close>

theorem skiplist_rank_lookup:
  assumes "sl_rel s xs" and "length xs < 2 ^ 31" and "1 \<le> r" and "r < 2 ^ 31"
  shows "if r \<le> length xs then \<exists>a. getNodeByRank (of_nat r) s = Ret (Some a) \<and> ky s a = xs ! (r - 1)
    else getNodeByRank (of_nat r) s = Ret None"
proof -
  obtain as ht where ok: "sl_ok s as ht xs" using assms(1) by (auto simp: sl_rel_def)
  have "length as = length xs" using sl_okD(6) [OF ok] by simp
  then show ?thesis
    using node_of_rank [OF ok _ assms(3,4)] assms(2,3) sl_okD(6) [OF ok] by auto
qed

theorem skiplist_rank_lookup_witness:
  "\<exists>t a. sl_rel t [(1 :: int, 7 :: int)] \<and> getNodeByRank (of_nat 1) t = Ret (Some a) \<and> ky t a = (1, 7)"
proof -
  obtain t where t: "sl_rel t [(1 :: int, 7 :: int)]" using one_element by blast
  then show ?thesis using skiplist_rank_lookup [OF t, of 1] by auto
qed

text \<open>
  C35 On every list that holds an element three operations of the skip list are broken: scanAll runs past the first node into
  a null pointer, since its previous pointer is null and not the header; the destructor frees
  the first node twice; and getRank returns -1 for every score and object, also for those in the list,
  however what the objects point to is ordered.
\<close>

theorem skiplist_broken_operations:
  assumes "sl_rel s xs" and "xs \<noteq> []"
  shows "scanAll s = Fault NullDeref \<and> destroy s = Fault UseAfterFree \<and> getRank deref score obj s = Ret (- 1)"
proof -
  obtain as ht where ok: "sl_ok s as ht xs" using assms(1) by (auto simp: sl_rel_def)
  then have "as \<noteq> []" using assms(2) sl_okD(6) [OF ok] by auto
  then show ?thesis using scan_destroy_fault [OF ok] rank_none [OF assms(1)] by simp
qed

theorem skiplist_broken_operations_witness:
  "\<exists>t. sl_rel t [(1 :: int, 7 :: int)] \<and> scanAll t = Fault NullDeref \<and> getRank (\<lambda>x. x) 1 7 t = Ret (- 1)"
proof -
  obtain t where t: "sl_rel t [(1 :: int, 7 :: int)]" using one_element by blast
  then show ?thesis using skiplist_broken_operations [OF t] by blast
qed

end
