(* ===== verification/Spec2Isabelle.thy ===== *)
theory Spec2Isabelle
  imports MiscTool FioRead Program DictRun ScriptQueue SentinelHelloFacts SentinelInfoFacts EventFacts Fio FlyClient
    ServerFacts NetFacts ConfigFacts BIO Support SkipListFacts
begin

text \<open>
  FlySentinel: a verification library.

  FlySentinel is a sentinel for Redis in C++. One process runs an event loop over select: it accepts
  clients and answers their commands, watches masters, slaves and other sentinels through hiredis
  connections, and runs notification scripts. This library models the code under src/src as HOL functions
  and proves what each part does, where it is correct and where it is not.

  \<^bold>\<open>The program and its parts.\<close>
  \<open>main\<close> builds a \<open>Coordinator\<close>, whose constructor reads the configuration, sets the logger, creates the
  server \<open>FlySentinel\<close> (which opens the sockets) and the \<open>EventLoop\<close>, and registers the cron and the listening
  sockets. \<open>eventMain\<close> then repeats: flush the pending replies (\<open>beforeSleep\<close>), wait in select, run the
  file procs of the ready descriptors (accept, read a client, send replies), run the due timers (the cron: free
  clients, run scripts, tilt mode). A command read from a client is parsed by \<open>FlyClient\<close>, looked up in the
  \<open>CommandTable\<close> (a \<open>Dict\<close> over two \<open>HashTable\<close>s) and answered into the client's output buffers.
  Events of the sentinel go to the log, to subscribers through \<open>PubSubHandler\<close>, and to the script queue.

  \<^bold>\<open>Theories and code.\<close> Names under src/src; a definition carries the name of the function it translates, with a prefix
  where several classes share one; the record of a component has the fields of its class.
  \<^item> \<open>Prelude\<close>: faults, the result type, C strings, decimal numbers, flags, lemmas on lists. \<open>OrdMap\<close>: std::map with its order.
    \<open>KeyStore\<close>: the interface of a keyed store (locale \<open>key_store\<close>).
  \<^item> \<open>HashTable\<close>, \<open>Dict\<close>: datastructure/dict. \<open>DictCorrect\<close>: the map of a dictionary, its invariant, the
    outcome of every operation; \<open>DictResize\<close>: sizes, expansion, scan cursors, the places where a rehash goes
    wrong; \<open>DictRun\<close>: the exact condition under which an operation faults, and whole sequences of operations
    against the map.
  \<^item> \<open>SkipList\<close>, \<open>SkipListFacts\<close>: datastructure/skiplist; insertion and rank lookup against the sorted list.
  \<^item> \<open>MiscTool\<close>, \<open>Support\<close>: utils, atomic, flyobj; splitting, matching, numbers, byte order.
  \<^item> \<open>Fio\<close>, \<open>FioRead\<close>: io; writing and reading in pieces over memory, files and sockets (locales \<open>out_device\<close>, \<open>in_device\<close>).
  \<^item> \<open>Logging\<close>: log. \<open>Config\<close>, \<open>ConfigFacts\<close>: config; what reading a file means, and that written settings are read back.
  \<^item> \<open>NetHandler\<close>, \<open>NetFacts\<close>: net; the socket layer over a kernel parameter, and the ledger of descriptors.
  \<^item> \<open>EventLoop\<close>, \<open>EventFacts\<close>: event and asyncevent; registrations, polling, timers, and the contract between the loop
    and its procs (locale \<open>file_procs\<close>).
  \<^item> \<open>BIO\<close>: bio; main thread and worker as a step relation, statement by statement, under every interleaving.
  \<^item> \<open>ScriptJob\<close>, \<open>ScriptQueue\<close>: scriptjob and the script queue of flysentinel/FlySentinel.cpp.
  \<^item> \<open>InstanceLink\<close>, \<open>SentinelState\<close>, \<open>FlyInstance\<close>, \<open>Sentinel\<close>, \<open>SentinelFacts\<close>: instancelink, flyinstance, and the part of
    FlySentinel.cpp on instances; \<open>SentinelHello\<close>, \<open>SentinelHelloFacts\<close>: hellos, periodic commands, tilt;
    \<open>SentinelInfo\<close>, \<open>SentinelInfoFacts\<close>: INFO replies.
  \<^item> \<open>FlyClient\<close>: the client object; \<open>Server\<close>: clients in the server; \<open>Parser\<close>, \<open>ParserFacts\<close>: the RESP and inline parsers;
    \<open>CommandTable\<close>, \<open>Commands\<close>: commandtable, the read handler and the cron; \<open>PubSub\<close>: shared and pubsub;
    \<open>ServerInv\<close>, \<open>ServerFacts\<close>: the invariant of the server and what clients see.
  \<^item> \<open>Startup\<close>, \<open>StartupFacts\<close>: coordinator, main.cpp and the constructor of the server; \<open>Program\<close>: rounds of the loop on what the
    start leaves behind.

  \<^bold>\<open>Interfaces.\<close> \<open>key_store\<close> is interpreted by the hash table and by the dictionary; the command table and the
  configuration reader are its clients. \<open>out_device\<close> is interpreted by files and socket buffers, \<open>in_device\<close> by files;
  the memory device keeps neither promise, and lemmas say how. \<open>file_procs\<close>, what the event
  loop needs of the handlers it runs, is interpreted by the hiredis handlers, by the handlers of the
  clients (for the invariant of the server) and by those of the running program.

  \<^bold>\<open>What the lemmas show.\<close>
  The server keeps its invariant from the start through every file proc, flush and cron; a start leaves the configured
  server behind; output is a byte queue; the parser, when it is given input, reads back what a client
  encodes however it is cut; a parsed ping is answered. The running program nevertheless never writes a byte, since what it reads never
  reaches the parser. The dictionary is a map while it does not move entries: a step of a rehash frees an entry and
  reads it again, which is a fault, so that a new dictionary holds 20 entries and no more. The command table (7) and
  the configuration entries (10) stay below that. Insertion into the skip list is insertion
  into a sorted list; polling reports exactly what is ready; exactly the due timers run, and are
  rescheduled; patterns are matched as their language says; hellos and INFO replies have the
  stated effect on the instances; scripts are counted, at most 16 ever run, and the
  script after the 256th faults; background jobs run once, in order; sockets
  are closed once; timed reads end; configuration files, hellos, byte orders, numbers and bulk strings in files round-trip.

  \<^bold>\<open>Conventions.\<close>
  An operation that can go wrong returns \<open>'a res\<close>: \<open>Ret\<close> a value or \<open>Fault\<close> (null or dangling pointer, index out of range,
  signed overflow, \<open>free\<close> of memory from \<open>new\<close>, \<open>back\<close> of an empty list, failed assertion, process exit, endless loop). A value
  the code returns without a return statement, or leaves uninitialised, is an argument where it is used, a fault
  where using it is all that happens: so \<open>junk\<close>, what the caller of \<open>analyseMultiBulk\<close> reads where that has no
  return statement, for which the theorems hold whatever it is, and \<open>raw\<close>, the memory of a new event, whose mask the
  constructor leaves unset: the theorems on the event loop and the program assume a zero there. Machine words are \<open>32 word\<close> and \<open>64 word\<close>, or naturals with \<open>mod\<close>
  written out; descriptors and plain ints that stay small are \<open>int\<close>. Objects with identity (instances, links,
  clients, skip list nodes) live in heaps that only grow, with freed addresses as faults. Where freed memory is read at once (the entry
  a rehash step has moved, a timer the loop has erased) the fault is at that place. A \<open>size_t\<close> passed as an
  int is narrowed. What the world answers is an argument: the kernel (a function of the history of calls), select, the
  clock, \<open>fork\<close>, \<open>wait3\<close>, random numbers, hiredis' results, the hash of strings, the contents of files.

  \<^bold>\<open>Bounds and fuel.\<close>
  Walks of the skip list have as fuel the number of addresses ever allocated and one more; a longer walk has met a
  node twice, which is the fault \<open>EndlessLoop\<close>, and for lists built by insertion it is proved not to happen.
  The main loop runs for a list of rounds, one for each answer of select: a theorem on all lists of rounds is
  about every finite run. \<open>nextPower\<close>, the descriptor limit, the stack size, the parser and \<open>spiltString\<close> end by
  a measure. Reads and writes with a timeout are partial functions into option, and that reads end once the clock
  passes is a theorem. Dictionaries are within 2 ^ 31 entries and grow up to 20 * 2 ^ 26; beyond, the code overflows,
  which is a lemma. Bulk strings are below 2 ^ 31 bytes where they are to be RESP.

  \<^bold>\<open>Not modelled.\<close>
  The pure virtual interfaces under coordinator/interface have no behaviour. cmake-build-debug is generated. \<open>atomicGet\<close> and
  \<open>automicSet\<close> name tokens that do not exist and are never used. \<open>writeBulkDouble\<close> prints a
  double, which needs the C formatter. Getters and setters are the fields of the records and their updates. Destructors that
  only release memory have no effect on a model without deallocation; those with effects (instances, the skip
  list, scripts) are modelled. The bodies that are empty in the code (checks for subjective and objective down,
  \<open>failoverStateMachine\<close>, \<open>askMasterStateToOtherSentinels\<close>, \<open>flushConfig\<close>) are identities. hiredis, the C library and
  the kernel are parameters.
\<close>

end
